(* ===== verification/Prelude.thy ===== *)
theory Prelude
  imports Main "HOL-Library.AList" "HOL-Library.Multiset" "HOL-Library.Word"
begin

text \<open>
  Shared vocabulary of the development: Go's 64-bit \<^verbatim>\<open>int\<close>, instants of
  \<^verbatim>\<open>time.Time\<close>, error values with their wrapping chain, and Go maps with string
  keys. Every later theory builds on these types and on the rewrite rules collected here.
\<close>

named_theorems go_defs \<open>unfoldings of the small accessor definitions of the model\<close>
named_theorems inv_intros \<open>every operation keeps the invariant of its component\<close>
named_theorems frame_simps \<open>what an operation leaves unchanged\<close>

section \<open>Machine integers\<close>

text \<open>
  On the platforms the program is built for, \<^verbatim>\<open>int\<close> and \<^verbatim>\<open>int64\<close> are 64-bit two's
  complement integers. A value is kept as a mathematical integer and every arithmetic
  operation of the source is followed by \<open>i64\<close>, the wrap-around.
\<close>

definition i64 :: "int \<Rightarrow> int" where
  "i64 x = (x + 2 ^ 63) mod 2 ^ 64 - 2 ^ 63"

definition is_i64 :: "int \<Rightarrow> bool" where
  "is_i64 x \<longleftrightarrow> - (2 ^ 63) \<le> x \<and> x < 2 ^ 63"

lemma i64_id [simp]: "is_i64 x \<Longrightarrow> i64 x = x"
  by (simp add: i64_def is_i64_def)

lemma is_i64_i64 [simp]: "is_i64 (i64 x)"
proof -
  have "0 \<le> (x + 2 ^ 63) mod 2 ^ 64" and "(x + 2 ^ 63) mod 2 ^ 64 < 2 ^ 64"
    by simp_all
  then show ?thesis by (simp add: i64_def is_i64_def)
qed

lemma i64_between: "is_i64 a \<Longrightarrow> is_i64 b \<Longrightarrow> a \<le> x \<Longrightarrow> x \<le> b \<Longrightarrow> i64 x = x"
  by (simp add: is_i64_def)

section \<open>Instants\<close>

text \<open>
  An instant is its count of nanoseconds since the Unix epoch; \<open>time_zero\<close> is the zero
  value of \<^verbatim>\<open>time.Time\<close>, the first of January of the year 1.
\<close>

type_synonym gtime = int

definition time_zero :: gtime where
  "time_zero = - (62135596800 * 10 ^ 9)"

section \<open>Errors\<close>

text \<open>
  An error is one of the sentinel values the packages declare, a plain message, or a
  message that wraps another error (\<^verbatim>\<open>fmt.Errorf\<close> with \<^verbatim>\<open>%w\<close>); \<open>GoPanic\<close> is a
  run-time panic that unwinds to the HTTP server. \<open>Error\<close> renders the message as the
  \<^verbatim>\<open>Error\<close> method does and \<open>errors_Is\<close> walks the chain as \<^verbatim>\<open>errors.Is\<close> does.
\<close>

datatype error =
    ErrNotFound
  | ErrNotImplemented
  | ErrInvalidJob
  | ErrorString string
  | WrapError string error
  | GoPanic string

fun Error :: "error \<Rightarrow> string" where
  "Error ErrNotFound = ''resource not found''"
| "Error ErrNotImplemented = ''store backend is not implemented in the MVP''"
| "Error ErrInvalidJob = ''invalid job''"
| "Error (ErrorString msg) = msg"
| "Error (WrapError msg _) = msg"
| "Error (GoPanic msg) = msg"

text \<open>\<open>wrapf pre err\<close> is \<^verbatim>\<open>fmt.Errorf("<pre>: %w", err)\<close>.\<close>

definition wrapf :: "string \<Rightarrow> error \<Rightarrow> error" where
  "wrapf pre err = WrapError (pre @ '': '' @ Error err) err"

fun is_panic :: "error \<Rightarrow> bool" where
  "is_panic (GoPanic _) = True"
| "is_panic _ = False"

lemma wrapf_no_panic [simp]: "\<not> is_panic (wrapf pre err)"
  by (simp add: wrapf_def)

text \<open>\<open>errorf_w err detail\<close> is \<^verbatim>\<open>fmt.Errorf("%w: <detail>", err)\<close>.\<close>

definition errorf_w :: "error \<Rightarrow> string \<Rightarrow> error" where
  "errorf_w err detail = WrapError (Error err @ '': '' @ detail) err"

fun errors_Is :: "error \<Rightarrow> error \<Rightarrow> bool" where
  "errors_Is (WrapError msg err) target =
     (WrapError msg err = target \<or> errors_Is err target)"
| "errors_Is err target = (err = target)"

lemma errors_Is_refl [simp]: "errors_Is err err"
  by (cases err) auto

lemma errors_Is_wrapf [simp]: "errors_Is err target \<Longrightarrow> errors_Is (wrapf pre err) target"
  by (simp add: wrapf_def)

lemma errors_Is_errorf_w [simp]:
  "errors_Is err target \<Longrightarrow> errors_Is (errorf_w err detail) target"
  by (simp add: errorf_w_def)

section \<open>Go maps\<close>

text \<open>
  A map is the list of its entries, each key once; a \<^verbatim>\<open>nil\<close> map is \<open>None\<close>. Reading a
  missing key, or any key of a \<^verbatim>\<open>nil\<close> map, gives the zero value.
\<close>

type_synonym str_map = "(string \<times> string) list option"

definition map_entries :: "str_map \<Rightarrow> (string \<times> string) list" where
  "map_entries m = (case m of None \<Rightarrow> [] | Some kvs \<Rightarrow> kvs)"

definition map_get :: "str_map \<Rightarrow> string \<Rightarrow> string" where
  "map_get m k = (case map_of (map_entries m) k of None \<Rightarrow> '''' | Some v \<Rightarrow> v)"

lemma map_entries_simps [simp]:
  "map_entries None = []" "map_entries (Some kvs) = kvs"
  by (simp_all add: map_entries_def)

lemma map_get_update [simp]:
  "map_get (Some (AList.update k v kvs)) k' = (if k' = k then v else map_get (Some kvs) k')"
  by (simp add: map_get_def update_conv')

section \<open>Association lists\<close>

lemma map_of_update [simp]: "map_of (AList.update k v kvs) = (map_of kvs)(k \<mapsto> v)"
  by (rule update_conv')

lemma update_fresh: "k \<notin> fst ` set kvs \<Longrightarrow> AList.update k v kvs = kvs @ [(k, v)]"
  by (induction kvs) auto

lemma update_keys_present:
  "k \<in> fst ` set kvs \<Longrightarrow> map fst (AList.update k v kvs) = map fst kvs"
  by (induction kvs) auto

lemma update_length_present:
  "k \<in> fst ` set kvs \<Longrightarrow> length (AList.update k v kvs) = length kvs"
  using update_keys_present [of k kvs v] by (metis length_map)

lemma map_of_Some_key: "map_of kvs k = Some v \<Longrightarrow> k \<in> fst ` set kvs"
  by (metis map_of_eq_None_iff option.distinct(1))

lemma set_update_distinct:
  "distinct (map fst kvs) \<Longrightarrow>
   set (AList.update k v kvs) = insert (k, v) {e \<in> set kvs. fst e \<noteq> k}"
  by (induction kvs) force+

lemma update_id: "map_of kvs k = Some v \<Longrightarrow> AList.update k v kvs = kvs"
  by (induction kvs) (auto split: if_splits)

lemma update_twice: "AList.update k v (AList.update k w kvs) = AList.update k v kvs"
  by (induction kvs) auto

lemma map_of_distinct_iff:
  "distinct (map fst kvs) \<Longrightarrow> map_of kvs k = Some v \<longleftrightarrow> (k, v) \<in> set kvs"
  by simp

end
