(* ===== verification/Go_Text.thy ===== *)
theory Go_Text
  imports Prelude
begin

text \<open>
  The parts of Go's \<^verbatim>\<open>fmt\<close>, \<^verbatim>\<open>strconv\<close> and \<^verbatim>\<open>strings\<close> the program calls: printing with
  \<^verbatim>\<open>%d\<close> and \<^verbatim>\<open>%q\<close>, \<^verbatim>\<open>strconv.Atoi\<close>, \<^verbatim>\<open>fmt.Sscanf\<close> with a \<^verbatim>\<open>%d\<close> verb,
  \<^verbatim>\<open>strings.Split\<close>, \<^verbatim>\<open>HasSuffix\<close> and \<^verbatim>\<open>TrimPrefix\<close>. A string is its list of
  bytes. White space is the ASCII white space, and \<^verbatim>\<open>%q\<close> leaves bytes from 128 on as
  they are, which is what it does for printable UTF-8.
\<close>

section \<open>Decimal numbers\<close>

definition digit_char :: "nat \<Rightarrow> char" where
  "digit_char d = char_of (48 + d)"

definition is_digit :: "char \<Rightarrow> bool" where
  "is_digit c \<longleftrightarrow> 48 \<le> (of_char c :: nat) \<and> (of_char c :: nat) \<le> 57"

definition digit_val :: "char \<Rightarrow> nat" where
  "digit_val c = of_char c - 48"

fun utoa :: "nat \<Rightarrow> string" where
  "utoa n = (if n < 10 then [digit_char n] else utoa (n div 10) @ [digit_char (n mod 10)])"

declare utoa.simps [simp del]

definition itoa :: "int \<Rightarrow> string" where
  "itoa z = (if z < 0 then CHR ''-'' # utoa (nat (- z)) else utoa (nat z))"

definition digits_val :: "string \<Rightarrow> nat" where
  "digits_val ds = foldl (\<lambda>n c. 10 * n + digit_val c) 0 ds"

lemma of_char_digit: "d < 10 \<Longrightarrow> (of_char (digit_char d) :: nat) = 48 + d"
  by (simp add: digit_char_def)

lemma is_digit_digit_char [simp]: "d < 10 \<Longrightarrow> is_digit (digit_char d)"
  by (simp add: is_digit_def of_char_digit)

lemma digit_val_digit_char [simp]: "d < 10 \<Longrightarrow> digit_val (digit_char d) = d"
  by (simp add: digit_val_def of_char_digit)

lemma utoa_is_digit: "c \<in> set (utoa n) \<Longrightarrow> is_digit c"
proof (induction n rule: utoa.induct)
  case (1 n)
  then show ?case
    by (subst (asm) (2) utoa.simps) (auto split: if_splits)
qed

lemma utoa_nonempty [simp]: "utoa n \<noteq> []"
  by (subst utoa.simps) simp

lemma digits_val_snoc: "digits_val (ds @ [c]) = 10 * digits_val ds + digit_val c"
  by (simp add: digits_val_def)

lemma digits_val_utoa [simp]: "digits_val (utoa n) = n"
proof (induction n rule: utoa.induct)
  case (1 n)
  show ?case
  proof (cases "n < 10")
    case True
    then show ?thesis
      by (subst utoa.simps) (simp add: digits_val_def)
  next
    case False
    with 1 have "digits_val (utoa (n div 10)) = n div 10" by simp
    with False show ?thesis
      by (subst utoa.simps) (simp add: digits_val_snoc)
  qed
qed

lemma utoa_inject [simp]: "utoa m = utoa n \<longleftrightarrow> m = n"
  by (metis digits_val_utoa)

lemma not_digit_minus [simp]: "\<not> is_digit CHR ''-''" "\<not> is_digit CHR ''+''"
  by (simp_all add: is_digit_def)

lemma minus_notin_utoa [simp]: "CHR ''-'' \<notin> set (utoa n)"
  using utoa_is_digit not_digit_minus(1) by blast

section \<open>Scanning\<close>

definition is_space :: "char \<Rightarrow> bool" where
  "is_space c \<longleftrightarrow> (of_char c :: nat) \<in> {9, 11, 12, 13, 32}"

text \<open>\<^verbatim>\<open>SkipSpace\<close> of a \<^verbatim>\<open>Sscanf\<close> scanner; a newline is an error, the value \<open>None\<close>.\<close>

fun skip_space :: "string \<Rightarrow> string option" where
  "skip_space [] = Some []"
| "skip_space (c # cs) =
     (if (of_char c :: nat) = 10 then None
      else if is_space c then skip_space cs
      else Some (c # cs))"

definition scan_sign :: "string \<Rightarrow> bool \<times> string" where
  "scan_sign s =
     (case s of
        [] \<Rightarrow> (False, [])
      | c # cs \<Rightarrow> if c = CHR ''-'' then (True, cs)
                 else if c = CHR ''+'' then (False, cs) else (False, s))"

text \<open>\<^verbatim>\<open>scanInt\<close> for the verb \<^verbatim>\<open>%d\<close>: the value and the input that is left.\<close>

definition scan_d :: "string \<Rightarrow> (int \<times> string) option" where
  "scan_d s =
     (case skip_space s of
        None \<Rightarrow> None
      | Some r \<Rightarrow>
          (let (neg, r1) = scan_sign r;
               ds = takeWhile is_digit r1;
               v = (if neg then - int (digits_val ds) else int (digits_val ds))
           in if ds = [] \<or> \<not> is_i64 v then None else Some (v, dropWhile is_digit r1)))"

text \<open>\<open>Sscanf_d lit s\<close> is \<^verbatim>\<open>fmt.Sscanf(s, "%d<lit>", &v)\<close>: input after \<open>lit\<close> is not read.\<close>

definition Sscanf_d :: "string \<Rightarrow> string \<Rightarrow> int option" where
  "Sscanf_d lit s =
     (case scan_d s of
        None \<Rightarrow> None
      | Some (v, rest) \<Rightarrow> if take (length lit) rest = lit then Some v else None)"

definition Atoi :: "string \<Rightarrow> int option" where
  "Atoi s =
     (let (neg, r) = scan_sign s;
          v = (if neg then - int (digits_val r) else int (digits_val r))
      in if r = [] \<or> \<not> list_all is_digit r \<or> \<not> is_i64 v then None else Some v)"

lemma utoa_Cons_not_space:
  "utoa n = c # cs \<Longrightarrow> \<not> is_space c \<and> (of_char c :: nat) \<noteq> 10 \<and> c \<noteq> CHR ''-'' \<and> c \<noteq> CHR ''+''"
proof -
  assume "utoa n = c # cs"
  then have "c \<in> set (utoa n)" by simp
  then have "is_digit c" by (rule utoa_is_digit)
  then show ?thesis by (auto simp: is_space_def is_digit_def)
qed

lemma skip_space_utoa [simp]: "skip_space (utoa n @ rest) = Some (utoa n @ rest)"
proof (cases "utoa n")
  case (Cons c cs)
  with utoa_Cons_not_space [OF Cons] show ?thesis by simp
qed simp

lemma scan_sign_utoa [simp]: "scan_sign (utoa n @ rest) = (False, utoa n @ rest)"
proof (cases "utoa n")
  case (Cons c cs)
  with utoa_Cons_not_space [OF Cons] show ?thesis by (simp add: scan_sign_def)
qed simp

definition no_digit_first :: "string \<Rightarrow> bool" where
  "no_digit_first s \<longleftrightarrow> (case s of [] \<Rightarrow> True | c # _ \<Rightarrow> \<not> is_digit c)"

lemma takeWhile_utoa: "no_digit_first rest \<Longrightarrow> takeWhile is_digit (utoa n @ rest) = utoa n"
  by (auto simp: takeWhile_append utoa_is_digit no_digit_first_def split: list.splits)

lemma dropWhile_utoa: "no_digit_first rest \<Longrightarrow> dropWhile is_digit (utoa n @ rest) = rest"
  by (auto simp: dropWhile_append utoa_is_digit no_digit_first_def split: list.splits)

lemma skip_space_itoa [simp]: "skip_space (itoa z @ rest) = Some (itoa z @ rest)"
  by (simp add: itoa_def is_space_def)

lemma scan_d_itoa:
  assumes "is_i64 z" and "no_digit_first rest"
  shows "scan_d (itoa z @ rest) = Some (z, rest)"
proof (cases "z < 0")
  case True
  with assms show ?thesis
    by (simp add: scan_d_def itoa_def scan_sign_def takeWhile_utoa dropWhile_utoa is_space_def)
next
  case False
  with assms show ?thesis
    by (simp add: scan_d_def itoa_def takeWhile_utoa dropWhile_utoa)
qed

lemma Sscanf_d_itoa:
  "is_i64 z \<Longrightarrow> no_digit_first (lit @ rest) \<Longrightarrow> Sscanf_d lit (itoa z @ lit @ rest) = Some z"
  by (simp add: Sscanf_d_def scan_d_itoa)

lemma Atoi_itoa:
  assumes "is_i64 z"
  shows "Atoi (itoa z) = Some z"
proof -
  have digits: "list_all is_digit (utoa n)" for n
    by (simp add: list_all_iff utoa_is_digit)
  show ?thesis
  proof (cases "z < 0")
    case True
    with assms digits show ?thesis by (simp add: Atoi_def itoa_def scan_sign_def)
  next
    case False
    with assms digits scan_sign_utoa [of "nat z" "[]"] show ?thesis
      by (simp add: Atoi_def itoa_def)
  qed
qed

section \<open>Quoting\<close>

definition hex_char :: "nat \<Rightarrow> char" where
  "hex_char d = (if d < 10 then char_of (48 + d) else char_of (87 + d))"

definition hex_byte :: "nat \<Rightarrow> string" where
  "hex_byte b = [hex_char (b div 16), hex_char (b mod 16)]"

definition quote_char :: "char \<Rightarrow> string" where
  "quote_char c =
     (let b = of_char c :: nat; bs = char_of (92 :: nat) in
      if b = 34 \<or> b = 92 then [bs, c]
      else if b = 7 then [bs, CHR ''a''] else if b = 8 then [bs, CHR ''b'']
      else if b = 12 then [bs, CHR ''f''] else if b = 10 then [bs, CHR ''n'']
      else if b = 13 then [bs, CHR ''r''] else if b = 9 then [bs, CHR ''t'']
      else if b = 11 then [bs, CHR ''v'']
      else if b < 32 \<or> b = 127 then bs # CHR ''x'' # hex_byte b
      else [c])"

text \<open>\<open>Quote s\<close> is \<^verbatim>\<open>fmt.Sprintf("%q", s)\<close>.\<close>

definition Quote :: "string \<Rightarrow> string" where
  "Quote s = [char_of (34 :: nat)] @ concat (map quote_char s) @ [char_of (34 :: nat)]"

section \<open>Splitting and joining\<close>

text \<open>\<open>Split c s\<close> is \<^verbatim>\<open>strings.Split(s, "<c>")\<close> for a one-byte separator.\<close>

fun Split :: "char \<Rightarrow> string \<Rightarrow> string list" where
  "Split sep [] = [[]]"
| "Split sep (c # cs) =
     (if c = sep then [] # Split sep cs
      else (case Split sep cs of [] \<Rightarrow> [[c]] | part # parts \<Rightarrow> (c # part) # parts))"

fun Join :: "string \<Rightarrow> string list \<Rightarrow> string" where
  "Join sep [] = ''''"
| "Join sep [part] = part"
| "Join sep (part # parts) = part @ sep @ Join sep parts"

text \<open>The order of strings, byte by byte.\<close>

fun str_less :: "string \<Rightarrow> string \<Rightarrow> bool" where
  "str_less xs [] = False"
| "str_less [] (y # ys) = True"
| "str_less (x # xs) (y # ys) =
     ((of_char x :: nat) < of_char y \<or> (of_char x :: nat) = of_char y \<and> str_less xs ys)"

definition HasSuffix :: "string \<Rightarrow> string \<Rightarrow> bool" where
  "HasSuffix s suf \<longleftrightarrow> length suf \<le> length s \<and> drop (length s - length suf) s = suf"

definition HasPrefix :: "string \<Rightarrow> string \<Rightarrow> bool" where
  "HasPrefix s pre \<longleftrightarrow> take (length pre) s = pre"

definition TrimPrefix :: "string \<Rightarrow> string \<Rightarrow> string" where
  "TrimPrefix s pre = (if HasPrefix s pre then drop (length pre) s else s)"

lemma Split_nonempty [simp]: "Split sep s \<noteq> []"
  by (induction s) (auto split: list.splits)

lemma Join_Cons_first: "Join sep ((c # part) # parts) = c # Join sep (part # parts)"
  by (cases parts) simp_all

lemma Join_Cons_empty: "parts \<noteq> [] \<Longrightarrow> Join sep ([] # parts) = sep @ Join sep parts"
  by (cases parts) simp_all

lemma Join_Split: "Join [sep] (Split sep s) = s"
proof (induction s)
  case (Cons c cs)
  show ?case
  proof (cases "Split sep cs")
    case Nil
    then show ?thesis by simp
  next
    case (Cons part parts)
    with Cons.IH show ?thesis
      by (auto simp: Join_Cons_first Join_Cons_empty)
  qed
qed simp

lemma Split_no_sep: "sep \<notin> set s \<Longrightarrow> Split sep s = [s]"
  by (induction s) auto

lemma Split_append_sep: "Split sep (a @ sep # b) = Split sep a @ Split sep b"
  by (induction a) (auto split: list.splits)

lemma Split_append: "sep \<notin> set pre \<Longrightarrow> Split sep (pre @ sep # s) = pre # Split sep s"
  by (simp add: Split_append_sep Split_no_sep)

lemma HasSuffix_append [simp]: "HasSuffix (s @ suf) suf"
  by (simp add: HasSuffix_def)

lemma HasPrefix_append [simp]: "HasPrefix (pre @ s) pre"
  by (simp add: HasPrefix_def)

lemma TrimPrefix_append [simp]: "TrimPrefix (pre @ s) pre = s"
  by (simp add: TrimPrefix_def)

end
