(* ===== verification/Model.thy ===== *)
theory Model
  imports Go_Text
begin

text \<open>
  The domain types of \<^verbatim>\<open>internal/model\<close>: jobs with their lifecycle guards, the input of
  job creation with its validation, executions, nodes with their GPU inventory, and the
  inference backends of the gateway. A status is one of the constants its package
  declares; the job type of an input is any string, because it comes from a request body.
\<close>

section \<open>Resource specifications\<close>

record ResourceSpec =
  Spec_CPU :: string
  Spec_Memory :: string
  Spec_GPU :: int
  Spec_GPUMemory :: string

definition ResourceSpec_Validate :: "ResourceSpec \<Rightarrow> error option" where
  "ResourceSpec_Validate spec =
     (if Spec_GPU spec < 0 then Some (errorf_w ErrInvalidJob ''gpu cannot be negative'') else None)"

section \<open>Jobs\<close>

type_synonym JobType = string

definition JobTypeTraining :: JobType where "JobTypeTraining = ''training''"

definition JobTypeInference :: JobType where "JobTypeInference = ''inference''"

definition JobTypeBenchmark :: JobType where "JobTypeBenchmark = ''benchmark''"

datatype JobStatus =
    JobStatusPending
  | JobStatusScheduled
  | JobStatusRunning
  | JobStatusSucceeded
  | JobStatusFailed
  | JobStatusRetrying
  | JobStatusCancelled

text \<open>The string each constant stands for, as \<^verbatim>\<open>%s\<close> prints it.\<close>

fun JobStatus_string :: "JobStatus \<Rightarrow> string" where
  "JobStatus_string JobStatusPending = ''pending''"
| "JobStatus_string JobStatusScheduled = ''scheduled''"
| "JobStatus_string JobStatusRunning = ''running''"
| "JobStatus_string JobStatusSucceeded = ''succeeded''"
| "JobStatus_string JobStatusFailed = ''failed''"
| "JobStatus_string JobStatusRetrying = ''retrying''"
| "JobStatus_string JobStatusCancelled = ''cancelled''"

record Job =
  Job_ID :: string
  Job_Name :: string
  Job_Type :: JobType
  Job_Status :: JobStatus
  Job_Executor :: string
  Job_Priority :: int
  Job_ModelVersion :: string
  Job_DatasetVersion :: string
  Job_ImageTag :: string
  Job_ResourceSpec :: ResourceSpec
  Job_Command :: "string list"
  Job_Environment :: str_map
  Job_Metadata :: str_map
  Job_MaxRetries :: int
  Job_RetryCount :: int
  Job_LastError :: string
  Job_TraceID :: string
  Job_CreatedAt :: gtime
  Job_UpdatedAt :: gtime

record CreateJobInput =
  Input_Name :: string
  Input_Type :: JobType
  Input_Executor :: string
  Input_Priority :: int
  Input_ModelVersion :: string
  Input_DatasetVersion :: string
  Input_ImageTag :: string
  Input_ResourceSpec :: ResourceSpec
  Input_Command :: "string list"
  Input_Environment :: str_map
  Input_Metadata :: str_map
  Input_MaxRetries :: int

definition CreateJobInput_Validate :: "CreateJobInput \<Rightarrow> error option" where
  "CreateJobInput_Validate inp =
     (if Input_Name inp = '''' then Some (errorf_w ErrInvalidJob ''name is required'')
      else if Input_Type inp \<notin> {JobTypeTraining, JobTypeInference, JobTypeBenchmark} then
        Some (errorf_w ErrInvalidJob (''unsupported job_type '' @ Quote (Input_Type inp)))
      else if Input_Executor inp = '''' then
        Some (errorf_w ErrInvalidJob ''executor is required'')
      else if length (Input_Command inp) = 0 then
        Some (errorf_w ErrInvalidJob ''command is required'')
      else
        (case ResourceSpec_Validate (Input_ResourceSpec inp) of
           Some err \<Rightarrow> Some err
         | None \<Rightarrow>
             if Input_MaxRetries inp < 0 then
               Some (errorf_w ErrInvalidJob ''max_retries cannot be negative'')
             else None))"

definition CanSchedule :: "Job \<Rightarrow> bool" where
  "CanSchedule job \<longleftrightarrow>
     Job_Status job = JobStatusPending \<or> Job_Status job = JobStatusRetrying"

definition CanRun :: "Job \<Rightarrow> bool" where
  "CanRun job \<longleftrightarrow> Job_Status job = JobStatusScheduled"

definition CanCancel :: "Job \<Rightarrow> bool" where
  "CanCancel job \<longleftrightarrow>
     Job_Status job = JobStatusPending \<or> Job_Status job = JobStatusScheduled \<or>
     Job_Status job = JobStatusRetrying"

definition CanRetry :: "Job \<Rightarrow> bool" where
  "CanRetry job \<longleftrightarrow>
     Job_Status job = JobStatusFailed \<or> Job_Status job = JobStatusRetrying"

definition IsTerminal :: "Job \<Rightarrow> bool" where
  "IsTerminal job \<longleftrightarrow>
     Job_Status job = JobStatusSucceeded \<or> Job_Status job = JobStatusFailed \<or>
     Job_Status job = JobStatusCancelled"

lemmas job_guards [go_defs] =
  CanSchedule_def CanRun_def CanCancel_def CanRetry_def IsTerminal_def

text \<open>A terminal job accepts no transition but a manual retry after a failure.\<close>

lemma terminal_no_schedule:
  "IsTerminal job \<Longrightarrow> \<not> CanSchedule job \<and> \<not> CanRun job \<and> \<not> CanCancel job"
  by (auto simp: go_defs)

text \<open>Every rejection of an input is an \<open>ErrInvalidJob\<close>, and what is accepted is exactly this.\<close>

lemma CreateJobInput_Validate_error:
  "CreateJobInput_Validate inp = Some err \<Longrightarrow> errors_Is err ErrInvalidJob"
  by (auto simp: CreateJobInput_Validate_def ResourceSpec_Validate_def split: if_splits)

lemma CreateJobInput_Validate_None:
  "CreateJobInput_Validate inp = None \<longleftrightarrow>
     Input_Name inp \<noteq> '''' \<and>
     Input_Type inp \<in> {JobTypeTraining, JobTypeInference, JobTypeBenchmark} \<and>
     Input_Executor inp \<noteq> '''' \<and> Input_Command inp \<noteq> [] \<and>
     0 \<le> Spec_GPU (Input_ResourceSpec inp) \<and> 0 \<le> Input_MaxRetries inp"
  by (auto simp: CreateJobInput_Validate_def ResourceSpec_Validate_def)

section \<open>Executions\<close>

datatype ExecutionStatus =
    ExecutionStatusRunning
  | ExecutionStatusSucceeded
  | ExecutionStatusFailed

fun ExecutionStatus_string :: "ExecutionStatus \<Rightarrow> string" where
  "ExecutionStatus_string ExecutionStatusRunning = ''running''"
| "ExecutionStatus_string ExecutionStatusSucceeded = ''succeeded''"
| "ExecutionStatus_string ExecutionStatusFailed = ''failed''"

record Execution =
  Exec_ID :: string
  Exec_JobID :: string
  Exec_Attempt :: int
  Exec_Status :: ExecutionStatus
  Exec_Executor :: string
  Exec_TraceID :: string
  Exec_Logs :: string
  Exec_Manifest :: string
  Exec_ExitCode :: int
  Exec_Error :: string
  Exec_StartedAt :: gtime
  Exec_FinishedAt :: gtime

section \<open>Nodes\<close>

datatype NodeStatus =
    NodeStatusOnline
  | NodeStatusOffline
  | NodeStatusDrain

record GPUInfo =
  GPU_Index :: int
  GPU_Model :: string
  GPU_TotalMemMiB :: int
  GPU_UsedMemMiB :: int
  GPU_Utilization :: int

definition FreeMemMiB :: "GPUInfo \<Rightarrow> int" where
  "FreeMemMiB g = i64 (GPU_TotalMemMiB g - GPU_UsedMemMiB g)"

record NodeResource =
  Res_CPUCores :: int
  Res_MemoryMiB :: int
  Res_GPUs :: "GPUInfo list"
  Res_TotalGPU :: int
  Res_AvailGPU :: int
  Res_UpdatedAt :: gtime

record Node =
  Node_ID :: string
  Node_Hostname :: string
  Node_Status :: NodeStatus
  Node_Labels :: str_map
  Node_Resource :: NodeResource
  Node_LastHeartbeat :: gtime
  Node_CreatedAt :: gtime

definition IsSchedulable :: "Node \<Rightarrow> bool" where
  "IsSchedulable n \<longleftrightarrow> Node_Status n = NodeStatusOnline"

definition CanFitGPU :: "Node \<Rightarrow> int \<Rightarrow> bool" where
  "CanFitGPU n requested \<longleftrightarrow> Res_AvailGPU (Node_Resource n) \<ge> requested"

definition CanFitGPUMemory :: "Node \<Rightarrow> int \<Rightarrow> int \<Rightarrow> bool" where
  "CanFitGPUMemory n cnt minMemMiB \<longleftrightarrow>
     (if minMemMiB \<le> 0 then CanFitGPU n cnt
      else foldl (\<lambda>matched gpu. if FreeMemMiB gpu \<ge> minMemMiB then i64 (matched + 1) else matched)
             0 (Res_GPUs (Node_Resource n)) \<ge> cnt)"

definition Node_Validate :: "Node \<Rightarrow> error option" where
  "Node_Validate n =
     (if Node_ID n = '''' then Some (ErrorString ''node id is required'')
      else if Node_Hostname n = '''' then Some (ErrorString ''node hostname is required'')
      else None)"

text \<open>
  The counting loop counts: with an inventory that fits in memory it is the number of GPUs
  with enough free memory.
\<close>

lemma count_loop:
  "is_i64 (int m + int (length gs)) \<Longrightarrow>
   foldl (\<lambda>matched gpu. if P gpu then i64 (matched + 1) else matched) (int m) gs
     = int m + int (length (filter P gs))"
proof (induction gs arbitrary: m)
  case (Cons g gs)
  have "i64 (int m + 1) = int (Suc m)"
    using Cons.prems by (intro i64_id [THEN trans]) (auto simp: is_i64_def)
  moreover have "is_i64 (int m + int (length gs))" "is_i64 (int (Suc m) + int (length gs))"
    using Cons.prems by (auto simp: is_i64_def)
  ultimately show ?case using Cons.IH [of m] Cons.IH [of "Suc m"] by simp
qed simp

lemma CanFitGPUMemory_count:
  assumes "0 < minMemMiB" and "int (length (Res_GPUs (Node_Resource n))) < 2 ^ 63"
  shows "CanFitGPUMemory n cnt minMemMiB \<longleftrightarrow>
     cnt \<le> int (length (filter (\<lambda>g. minMemMiB \<le> FreeMemMiB g) (Res_GPUs (Node_Resource n))))"
  using assms count_loop [of 0 "Res_GPUs (Node_Resource n)" "\<lambda>g. minMemMiB \<le> FreeMemMiB g"]
  by (simp add: CanFitGPUMemory_def is_i64_def)

section \<open>Inference backends\<close>

record Backend =
  Backend_ID :: string
  Backend_Name :: string
  Backend_Endpoint :: string
  Backend_Models :: "string list"
  Backend_Weight :: int
  Backend_Healthy :: bool

fun supports_loop :: "string list \<Rightarrow> string \<Rightarrow> bool" where
  "supports_loop [] name = False"
| "supports_loop (m # ms) name = (if m = name then True else supports_loop ms name)"

definition SupportsModel :: "Backend \<Rightarrow> string \<Rightarrow> bool" where
  "SupportsModel b name = supports_loop (Backend_Models b) name"

lemma supports_loop_set [simp]: "supports_loop ms name \<longleftrightarrow> name \<in> set ms"
  by (induction ms) auto

lemma SupportsModel_iff: "SupportsModel b name \<longleftrightarrow> name \<in> set (Backend_Models b)"
  by (simp add: SupportsModel_def)

end
