(* ===== verification/Go_Sort.thy ===== *)
theory Go_Sort
  imports Prelude "HOL-Library.Sublist"
begin

text \<open>
  Sorting and priority queues. The contract every comparison function of the program
  meets is the locale \<open>strict_weak_order\<close>; \<open>sort_slice\<close> is \<^verbatim>\<open>sort.Slice\<close> and the
  \<open>heap_\<close> operations are \<^verbatim>\<open>container/heap\<close>, both from Go's standard library. The locale
  \<open>priority_queue\<close> is what a client of the heap relies on; it is interpreted on the heap
  operations below, once for every comparison.

  \<^verbatim>\<open>sort.Slice\<close> sorts slices of at most 12 elements by the insertion sort written here and
  longer ones by pattern-defeating quicksort, which yields a sorted permutation too but may
  order ties differently. No lemma of the development depends on the order of ties.
\<close>

section \<open>Subsequences\<close>

lemma subseq_set: "subseq xs ys \<Longrightarrow> set xs \<subseteq> set ys"
  by (induction rule: list_emb.induct) auto

lemma sorted_wrt_subseq: "subseq xs ys \<Longrightarrow> sorted_wrt P ys \<Longrightarrow> sorted_wrt P xs"
proof (induction rule: list_emb.induct)
  case (list_emb_Cons2 x y xs ys)
  then show ?case using subseq_set by fastforce
qed auto

section \<open>Strict weak orders\<close>

locale strict_weak_order =
  fixes less :: "'a \<Rightarrow> 'a \<Rightarrow> bool"
  assumes asym: "less x y \<Longrightarrow> \<not> less y x"
    and neg_trans: "\<not> less x y \<Longrightarrow> \<not> less y z \<Longrightarrow> \<not> less x z"
begin

lemma irrefl [simp]: "\<not> less x x"
  using asym by blast

lemma less_trans: "less x y \<Longrightarrow> less y z \<Longrightarrow> less x z"
  using asym neg_trans by blast

end

section \<open>sort.Slice\<close>

text \<open>
  The accumulator is the sorted prefix, last element first: \<open>slice_insert\<close> swaps the new
  element towards the front while it is less than its neighbour.
\<close>

fun slice_insert :: "('a \<Rightarrow> 'a \<Rightarrow> bool) \<Rightarrow> 'a \<Rightarrow> 'a list \<Rightarrow> 'a list" where
  "slice_insert lt x [] = [x]"
| "slice_insert lt x (y # ys) = (if lt x y then y # slice_insert lt x ys else x # y # ys)"

definition sort_slice :: "('a \<Rightarrow> 'a \<Rightarrow> bool) \<Rightarrow> 'a list \<Rightarrow> 'a list" where
  "sort_slice lt xs = rev (foldl (\<lambda>acc x. slice_insert lt x acc) [] xs)"

lemma mset_slice_insert [simp]: "mset (slice_insert lt x ys) = add_mset x (mset ys)"
  by (induction ys) auto

lemma mset_foldl_slice_insert:
  "mset (foldl (\<lambda>acc x. slice_insert lt x acc) ys xs) = mset xs + mset ys"
  by (induction xs arbitrary: ys) auto

lemma mset_sort_slice [simp]: "mset (sort_slice lt xs) = mset xs"
  by (simp add: sort_slice_def mset_foldl_slice_insert)

lemma set_sort_slice [simp]: "set (sort_slice lt xs) = set xs"
  by (metis mset_sort_slice set_mset_mset)

lemma length_sort_slice [simp]: "length (sort_slice lt xs) = length xs"
  by (metis mset_sort_slice size_mset)

lemma sort_slice_Nil_iff [simp]: "sort_slice lt xs = [] \<longleftrightarrow> xs = []"
  by (metis length_0_conv length_sort_slice)

lemma set_slice_insert [simp]: "set (slice_insert lt x ys) = insert x (set ys)"
  by (induction ys) auto

context strict_weak_order
begin

lemma sorted_slice_insert:
  "sorted_wrt (\<lambda>a b. \<not> less a b) ys \<Longrightarrow> sorted_wrt (\<lambda>a b. \<not> less a b) (slice_insert less x ys)"
proof (induction ys)
  case (Cons y ys)
  show ?case
  proof (cases "less x y")
    case True
    with Cons asym [OF True] show ?thesis by simp
  next
    case False
    with Cons.prems have "\<not> less x z" if "z \<in> set ys" for z
      using that neg_trans [OF False, of z] by simp
    with Cons.prems False show ?thesis by simp
  qed
qed simp

lemma sorted_foldl_slice_insert:
  "sorted_wrt (\<lambda>a b. \<not> less a b) ys \<Longrightarrow>
   sorted_wrt (\<lambda>a b. \<not> less a b) (foldl (\<lambda>acc x. slice_insert less x acc) ys xs)"
  by (induction xs arbitrary: ys) (auto simp: sorted_slice_insert)

lemma sorted_sort_slice: "sorted_wrt (\<lambda>a b. \<not> less b a) (sort_slice less xs)"
  by (simp add: sort_slice_def sorted_wrt_rev sorted_foldl_slice_insert)

lemma sort_slice_first_least:
  assumes "sort_slice less xs = y # ys" and "x \<in> set xs"
  shows "\<not> less x y"
proof -
  have "x = y \<or> x \<in> set ys"
    using assms set_sort_slice [of less xs] by auto
  with sorted_sort_slice [of xs] assms(1) show ?thesis by auto
qed

end

section \<open>container/heap\<close>

definition swap :: "'a list \<Rightarrow> nat \<Rightarrow> nat \<Rightarrow> 'a list" where
  "swap xs i j = xs[i := xs ! j, j := xs ! i]"

definition smaller_child :: "('a \<Rightarrow> 'a \<Rightarrow> bool) \<Rightarrow> 'a list \<Rightarrow> nat \<Rightarrow> nat \<Rightarrow> nat" where
  "smaller_child lt xs i n =
     (let j1 = 2 * i + 1
      in if j1 + 1 < n \<and> lt (xs ! (j1 + 1)) (xs ! j1) then j1 + 1 else j1)"

function heap_down :: "('a \<Rightarrow> 'a \<Rightarrow> bool) \<Rightarrow> 'a list \<Rightarrow> nat \<Rightarrow> nat \<Rightarrow> 'a list" where
  "heap_down lt xs i n =
     (if 2 * i + 1 \<ge> n then xs
      else let j = smaller_child lt xs i n
           in if \<not> lt (xs ! j) (xs ! i) then xs else heap_down lt (swap xs i j) j n)"
  by pat_completeness auto
termination
  by (relation "measure (\<lambda>(lt, xs, i, n). n - i)")
    (auto simp: smaller_child_def Let_def)

declare heap_down.simps [simp del]

definition heap_init :: "('a \<Rightarrow> 'a \<Rightarrow> bool) \<Rightarrow> 'a list \<Rightarrow> 'a list" where
  "heap_init lt xs =
     foldr (\<lambda>i ys. heap_down lt ys i (length xs)) [0..<length xs div 2] xs"

text \<open>Popping an empty heap panics in Go; here it is \<open>None\<close>.\<close>

definition heap_pop :: "('a \<Rightarrow> 'a \<Rightarrow> bool) \<Rightarrow> 'a list \<Rightarrow> ('a \<times> 'a list) option" where
  "heap_pop lt xs =
     (if xs = [] then None
      else let n = length xs - 1; ys = heap_down lt (swap xs 0 n) 0 n
           in Some (ys ! n, take n ys))"

lemma length_swap [simp]: "length (swap xs i j) = length xs"
  by (simp add: swap_def)

lemma mset_swap_nth:
  "i < length xs \<Longrightarrow> j < length xs \<Longrightarrow> mset (swap xs i j) = mset xs"
  by (simp add: swap_def mset_swap)

lemma nth_swap:
  "i < length xs \<Longrightarrow> j < length xs \<Longrightarrow>
   swap xs i j ! k = (if k = j then xs ! i else if k = i then xs ! j else xs ! k)"
  by (auto simp: swap_def nth_list_update)

lemma smaller_child_cases:
  "smaller_child lt xs i n = 2 * i + 1 \<or>
   smaller_child lt xs i n = 2 * i + 2 \<and> 2 * i + 2 < n"
  by (auto simp: smaller_child_def Let_def)

lemma smaller_child_bounds:
  assumes "2 * i + 1 < n"
  shows "smaller_child lt xs i n < n" and "i < smaller_child lt xs i n"
    and "(smaller_child lt xs i n - 1) div 2 = i"
  using assms smaller_child_cases [of lt xs i n] by auto

lemma heap_down_perm:
  "n \<le> length xs \<Longrightarrow>
   mset (heap_down lt xs i n) = mset xs \<and> length (heap_down lt xs i n) = length xs \<and>
   (\<forall>k \<ge> n. heap_down lt xs i n ! k = xs ! k)"
proof (induction lt xs i n rule: heap_down.induct)
  case (1 lt xs i n)
  let ?j = "smaller_child lt xs i n"
  show ?case
  proof (cases "2 * i + 1 \<ge> n \<or> \<not> lt (xs ! ?j) (xs ! i)")
    case True
    then show ?thesis by (subst (1 2 3) heap_down.simps) (auto simp: Let_def)
  next
    case False
    then have step: "heap_down lt xs i n = heap_down lt (swap xs i ?j) ?j n"
      by (subst heap_down.simps) (simp add: Let_def)
    from False have ij: "i < n" "?j < n" using smaller_child_bounds [of i n lt xs] by auto
    with 1(1) [of ?j] False 1(2) have
      "mset (heap_down lt (swap xs i ?j) ?j n) = mset (swap xs i ?j) \<and>
       length (heap_down lt (swap xs i ?j) ?j n) = length xs \<and>
       (\<forall>k \<ge> n. heap_down lt (swap xs i ?j) ?j n ! k = swap xs i ?j ! k)"
      by simp
    with ij 1(2) show ?thesis by (auto simp: step mset_swap_nth nth_swap)
  qed
qed

lemmas mset_heap_down [simp] = heap_down_perm [THEN conjunct1]
lemmas length_heap_down [simp] = heap_down_perm [THEN conjunct2, THEN conjunct1]

text \<open>
  The heap order on the first \<open>n\<close> elements below the index \<open>lo\<close>, and the same with the
  one violation at \<open>k\<close> that \<open>heap_down\<close> repairs.
\<close>

definition heap_from :: "('a \<Rightarrow> 'a \<Rightarrow> bool) \<Rightarrow> nat \<Rightarrow> 'a list \<Rightarrow> nat \<Rightarrow> bool" where
  "heap_from lt lo xs n \<longleftrightarrow>
     (\<forall>i. 0 < i \<and> i < n \<and> lo \<le> (i - 1) div 2 \<longrightarrow> \<not> lt (xs ! i) (xs ! ((i - 1) div 2)))"

definition heap_but :: "('a \<Rightarrow> 'a \<Rightarrow> bool) \<Rightarrow> nat \<Rightarrow> nat \<Rightarrow> 'a list \<Rightarrow> nat \<Rightarrow> bool" where
  "heap_but lt k lo xs n \<longleftrightarrow>
     (\<forall>i. 0 < i \<and> i < n \<and> lo \<le> (i - 1) div 2 \<and> (i - 1) div 2 \<noteq> k \<longrightarrow>
        \<not> lt (xs ! i) (xs ! ((i - 1) div 2))) \<and>
     (\<forall>i. 0 < i \<and> i < n \<and> (i - 1) div 2 = k \<and> 0 < k \<and> lo \<le> (k - 1) div 2 \<longrightarrow>
        \<not> lt (xs ! i) (xs ! ((k - 1) div 2)))"

lemma child_cases: "0 < i \<Longrightarrow> (i - 1) div 2 = k \<longleftrightarrow> i = 2 * k + 1 \<or> i = 2 * k + (2 :: nat)"
  by auto

context strict_weak_order
begin

lemma smaller_child_least:
  assumes "0 < i" "i < n" "(i - 1) div 2 = k"
  shows "\<not> less (xs ! i) (xs ! smaller_child less xs k n)"
  using assms child_cases [of i k] asym by (auto simp: smaller_child_def Let_def)

lemma heap_but_swap:
  assumes but: "heap_but less k lo xs n" and lo: "lo \<le> k" and len: "n \<le> length xs"
    and child: "2 * k + 1 < n" and lt: "less (xs ! smaller_child less xs k n) (xs ! k)"
  shows "heap_but less (smaller_child less xs k n) lo (swap xs k (smaller_child less xs k n)) n"
proof -
  let ?j = "smaller_child less xs k n"
  note j = smaller_child_bounds [OF child, of less xs]
  have nth: "swap xs k ?j ! i = (if i = ?j then xs ! k else if i = k then xs ! ?j else xs ! i)" for i
    using j child len by (intro nth_swap) auto
  have up: "\<not> less (swap xs k ?j ! i) (swap xs k ?j ! ((i - 1) div 2))"
    if i: "0 < i" "i < n" "lo \<le> (i - 1) div 2" "(i - 1) div 2 \<noteq> ?j" for i
  proof (cases "(i - 1) div 2 = k")
    case True
    then have "i \<noteq> k" using i(1) by auto
    then show ?thesis
      using True i j lt asym smaller_child_least [OF i(1,2) True, of xs] by (auto simp: nth)
  next
    case other: False
    then have "i \<noteq> ?j" using j(3) by auto
    moreover have "\<not> less (xs ! ?j) (xs ! ((k - 1) div 2))" if "i = k"
      using that but i j unfolding heap_but_def by (metis less_nat_zero_code neq0_conv)
    moreover have "\<not> less (xs ! i) (xs ! ((i - 1) div 2))"
      using other but i unfolding heap_but_def by blast
    ultimately show ?thesis using other i(4) by (auto simp: nth)
  qed
  have grand: "\<not> less (swap xs k ?j ! i) (swap xs k ?j ! ((?j - 1) div 2))"
    if i: "0 < i" "i < n" "(i - 1) div 2 = ?j" for i
  proof -
    have "?j < i" using i(1,3) by auto
    then have "\<not> less (xs ! i) (xs ! ?j)"
      using but i j lo unfolding heap_but_def by (metis less_imp_le_nat less_irrefl_nat order_trans)
    then show ?thesis using \<open>?j < i\<close> j by (simp add: nth)
  qed
  from up grand show ?thesis by (simp add: heap_but_def)
qed

lemma heap_but_done:
  assumes "heap_but less k lo xs n"
    and "2 * k + 1 < n \<Longrightarrow> \<not> less (xs ! smaller_child less xs k n) (xs ! k)"
  shows "heap_from less lo xs n"
proof -
  have "\<not> less (xs ! i) (xs ! k)" if "0 < i" "i < n" "(i - 1) div 2 = k" for i
  proof -
    have "2 * k + 1 < n" using that child_cases [of i k] by auto
    then show ?thesis
      using assms(2) smaller_child_least [OF that, of xs] neg_trans by blast
  qed
  with assms(1) show ?thesis unfolding heap_but_def heap_from_def by blast
qed

lemma heap_down_heap:
  "n \<le> length xs \<Longrightarrow> lo \<le> k \<Longrightarrow> heap_but less k lo xs n \<Longrightarrow>
   heap_from less lo (heap_down less xs k n) n"
proof (induction "n - k" arbitrary: xs k rule: less_induct)
  case (less k xs)
  let ?j = "smaller_child less xs k n"
  show ?case
  proof (cases "2 * k + 1 < n \<and> less (xs ! ?j) (xs ! k)")
    case True
    note j = smaller_child_bounds [OF True [THEN conjunct1], of less xs]
    have "heap_from less lo (heap_down less (swap xs k ?j) ?j n) n"
      using True j less.prems heap_but_swap by (intro less.hyps) auto
    with True show ?thesis by (subst heap_down.simps) (simp add: Let_def)
  next
    case False
    then have "heap_down less xs k n = xs"
      by (subst heap_down.simps) (auto simp: Let_def)
    with False less.prems(3) show ?thesis by (auto intro: heap_but_done)
  qed
qed

lemma heap_init_from:
  assumes "m \<le> length xs div 2"
  shows "heap_from less m (foldr (\<lambda>i ys. heap_down less ys i (length xs)) [m..<length xs div 2] xs)
           (length xs)"
  using assms
proof (induction m rule: inc_induct)
  case base
  show ?case by (auto simp: heap_from_def)
next
  case (step m)
  let ?ys = "foldr (\<lambda>i ys. heap_down less ys i (length xs)) [Suc m..<length xs div 2] xs"
  have len: "length ?ys = length xs"
  proof -
    have "length (foldr (\<lambda>i ys. heap_down less ys i (length xs)) is xs) = length xs" for "is"
      by (induction "is") simp_all
    then show ?thesis .
  qed
  have "heap_but less m m ?ys (length xs)"
    using step.IH unfolding heap_but_def heap_from_def by fastforce
  then have "heap_from less m (heap_down less ?ys m (length xs)) (length xs)"
    by (intro heap_down_heap) (simp_all add: len)
  with step.hyps show ?case by (simp add: upt_conv_Cons)
qed

lemma heap_init_heap: "heap_from less 0 (heap_init less xs) (length xs)"
  unfolding heap_init_def by (rule heap_init_from) simp

lemma heap_root_least:
  "heap_from less 0 xs n \<Longrightarrow> i < n \<Longrightarrow> \<not> less (xs ! i) (xs ! 0)"
proof (induction i rule: less_induct)
  case (less i)
  show ?case
  proof (cases "i = 0")
    case False
    then have "(i - 1) div 2 < i" by auto
    with less have "\<not> less (xs ! ((i - 1) div 2)) (xs ! 0)" by auto
    moreover have "\<not> less (xs ! i) (xs ! ((i - 1) div 2))"
      using less.prems False by (simp add: heap_from_def)
    ultimately show ?thesis using neg_trans by blast
  qed simp
qed

end

section \<open>Priority queues\<close>

text \<open>
  What a client of a queue relies on: an empty queue has nothing to pop, and a pop returns
  an element no other element precedes and leaves the others.
\<close>

locale priority_queue = strict_weak_order less for less :: "'a \<Rightarrow> 'a \<Rightarrow> bool" +
  fixes invar :: "'q \<Rightarrow> bool" and elems :: "'q \<Rightarrow> 'a multiset"
    and pop :: "'q \<Rightarrow> ('a \<times> 'q) option"
  assumes pop_None: "invar q \<Longrightarrow> pop q = None \<longleftrightarrow> elems q = {#}"
    and pop_invar: "invar q \<Longrightarrow> pop q = Some (x, q') \<Longrightarrow> invar q'"
    and pop_elems: "invar q \<Longrightarrow> pop q = Some (x, q') \<Longrightarrow> elems q = add_mset x (elems q')"
    and pop_least: "invar q \<Longrightarrow> pop q = Some (x, q') \<Longrightarrow> y \<in># elems q \<Longrightarrow> \<not> less y x"

fun drain :: "('q \<Rightarrow> ('a \<times> 'q) option) \<Rightarrow> nat \<Rightarrow> 'q \<Rightarrow> 'a list" where
  "drain pop 0 q = []"
| "drain pop (Suc n) q = (case pop q of None \<Rightarrow> [] | Some (x, q') \<Rightarrow> x # drain pop n q')"

context priority_queue
begin

lemma mset_drain: "invar q \<Longrightarrow> size (elems q) \<le> n \<Longrightarrow> mset (drain pop n q) = elems q"
proof (induction n arbitrary: q)
  case (Suc n)
  show ?case
  proof (cases "pop q")
    case None
    then have "elems q = {#}" using pop_None [OF Suc.prems(1)] by simp
    with None show ?thesis by simp
  next
    case (Some r)
    then obtain x q' where r: "pop q = Some (x, q')" by (cases r) simp
    with Suc.prems pop_elems [of q x q'] pop_invar [of q x q'] Suc.IH [of q'] show ?thesis
      by simp
  qed
qed simp

lemma drain_elems: "invar q \<Longrightarrow> x \<in> set (drain pop n q) \<Longrightarrow> x \<in># elems q"
proof (induction n arbitrary: q)
  case (Suc n)
  show ?case
  proof (cases "pop q")
    case (Some r)
    then obtain y q' where r: "pop q = Some (y, q')" by (cases r) simp
    with Suc pop_elems [OF Suc.prems(1) r] pop_invar [OF Suc.prems(1) r] show ?thesis by auto
  qed (use Suc.prems in simp)
qed simp

lemma sorted_drain: "invar q \<Longrightarrow> sorted_wrt (\<lambda>a b. \<not> less b a) (drain pop n q)"
proof (induction n arbitrary: q)
  case (Suc n)
  show ?case
  proof (cases "pop q")
    case (Some r)
    then obtain x q' where r: "pop q = Some (x, q')" by (cases r) simp
    note q' = pop_invar [OF Suc.prems r]
    have "\<not> less y x" if "y \<in> set (drain pop n q')" for y
      using pop_least [OF Suc.prems r] pop_elems [OF Suc.prems r] drain_elems [OF q' that]
      by simp
    with Suc.IH [OF q'] r show ?thesis by simp
  qed simp
qed simp

end

context strict_weak_order
begin

lemma heap_pop_Some:
  assumes heap: "heap_from less 0 xs (length xs)" and pop: "heap_pop less xs = Some (x, ys)"
  shows "x = xs ! 0" and "mset xs = add_mset x (mset ys)" and "heap_from less 0 ys (length ys)"
    and "length xs = Suc (length ys)"
proof -
  define n where "n = length xs - 1"
  let ?zs = "heap_down less (swap xs 0 n) 0 n"
  from pop have ne: "xs \<noteq> []" by (auto simp: heap_pop_def)
  then have n: "n < length xs" "length xs = Suc n" by (simp_all add: n_def)
  from pop ne have xy: "x = ?zs ! n" "ys = take n ?zs"
    by (simp_all add: heap_pop_def Let_def n_def)
  have perm: "mset ?zs = mset xs" "length ?zs = length xs" "?zs ! n = swap xs 0 n ! n"
    using n heap_down_perm [of n "swap xs 0 n" less 0] by (auto simp: mset_swap_nth)
  show "x = xs ! 0" using n perm(3) by (simp add: xy nth_swap)
  have "?zs = ys @ [x]"
    using n perm(2) by (simp add: xy take_Suc_conv_app_nth [symmetric])
  then show "mset xs = add_mset x (mset ys)"
    using perm(1) by (metis union_mset_add_mset_right mset_append mset_single_iff_right
        add_mset_add_single)
  show "length xs = Suc (length ys)" using n perm(2) by (simp add: xy)
  have "heap_but less 0 0 (swap xs 0 n) n"
    using heap n by (auto simp: heap_but_def heap_from_def nth_swap)
  then have "heap_from less 0 ?zs n" using n by (intro heap_down_heap) simp_all
  then show "heap_from less 0 ys (length ys)"
    using n perm(2) by (auto simp: heap_from_def xy)
qed

end

sublocale strict_weak_order \<subseteq>
  heap: priority_queue less "\<lambda>xs. heap_from less 0 xs (length xs)" mset "heap_pop less"
proof unfold_locales
  fix xs :: "'a list"
  show "heap_pop less xs = None \<longleftrightarrow> mset xs = {#}"
    by (simp add: heap_pop_def Let_def)
next
  fix xs ys :: "'a list" and x y
  assume heap: "heap_from less 0 xs (length xs)" and pop: "heap_pop less xs = Some (x, ys)"
  show "heap_from less 0 ys (length ys)" and "mset xs = add_mset x (mset ys)"
    using heap_pop_Some [OF heap pop] by simp_all
  assume "y \<in># mset xs"
  then obtain i where "i < length xs" "y = xs ! i" by (auto simp: in_set_conv_nth)
  with heap_root_least [OF heap] heap_pop_Some(1) [OF heap pop] show "\<not> less y x" by simp
qed

lemma mset_heap_init [simp]: "mset (heap_init lt xs) = mset xs"
  and length_heap_init [simp]: "length (heap_init lt xs) = length xs"
proof -
  have "mset (foldr (\<lambda>i ys. heap_down lt ys i (length xs)) is xs) = mset xs \<and>
        length (foldr (\<lambda>i ys. heap_down lt ys i (length xs)) is xs) = length xs" for "is"
    by (induction "is") simp_all
  then show "mset (heap_init lt xs) = mset xs" and "length (heap_init lt xs) = length xs"
    by (simp_all add: heap_init_def)
qed

lemma heap_pop_shrinks: "heap_pop lt xs = Some (x, ys) \<Longrightarrow> length xs = Suc (length ys)"
  by (auto simp: heap_pop_def Let_def split: if_splits)

end
