(* ===== verification/Store.thy ===== *)
theory Store
  imports Model Go_Sort
begin

text \<open>
  \<^verbatim>\<open>internal/store\<close>: the in-memory repository. A map that the code ranges over is the list
  of its entries; the order in which a range visits the keys is the argument \<open>ord\<close> of the
  listing operations, about which Go promises only that every key is visited once
  (\<open>iter_order\<close>). An operation that can fail returns \<open>Inl\<close> of the error and leaves the
  store as it was. The mutex serialises the operations, so each is one atomic step.

  The locale \<open>keyed_store\<close> is the part of the \<^verbatim>\<open>Repository\<close> interface that stores
  entities under their identifiers; it is interpreted for the jobs and for the nodes.
\<close>

section \<open>State\<close>

record MemoryStore =
  jobs :: "(string \<times> Job) list"
  executions :: "string \<rightharpoonup> Execution"
  jobIndex :: "string \<rightharpoonup> string list"
  nodes :: "(string \<times> Node) list"

definition NewMemoryStore :: MemoryStore where
  "NewMemoryStore = \<lparr>jobs = [], executions = Map.empty, jobIndex = Map.empty, nodes = []\<rparr>"

definition iter_order :: "(string list \<Rightarrow> string list) \<Rightarrow> bool" where
  "iter_order ord \<longleftrightarrow> (\<forall>ks. mset (ord ks) = mset ks)"

text \<open>The values of a map in the order a range over it visits them.\<close>

definition range_values :: "(string list \<Rightarrow> string list) \<Rightarrow> (string \<times> 'v) list \<Rightarrow> 'v list" where
  "range_values ord kvs = map (\<lambda>k. the (map_of kvs k)) (ord (map fst kvs))"

lemma mset_range_values:
  assumes "iter_order ord" and "distinct (map fst kvs)"
  shows "mset (range_values ord kvs) = mset (map snd kvs)"
proof -
  have "mset (range_values ord kvs) = image_mset (\<lambda>k. the (map_of kvs k)) (mset (map fst kvs))"
    using assms(1) by (simp add: range_values_def iter_order_def)
  also have "\<dots> = image_mset (\<lambda>e. the (map_of kvs (fst e))) (mset kvs)"
    by (simp add: multiset.map_comp comp_def)
  also have "\<dots> = image_mset snd (mset kvs)"
    using assms(2) by (intro image_mset_cong) (auto simp: map_of_eq_Some_iff)
  finally show ?thesis by simp
qed

lemma set_range_values:
  "iter_order ord \<Longrightarrow> distinct (map fst kvs) \<Longrightarrow> set (range_values ord kvs) = snd ` set kvs"
  using arg_cong [OF mset_range_values, of ord kvs set_mset] by simp

section \<open>Jobs\<close>

definition Memory_CreateJob :: "MemoryStore \<Rightarrow> Job \<Rightarrow> error + MemoryStore" where
  "Memory_CreateJob s job = Inr (s\<lparr>jobs := AList.update (Job_ID job) job (jobs s)\<rparr>)"

definition Memory_UpdateJob :: "MemoryStore \<Rightarrow> Job \<Rightarrow> error + MemoryStore" where
  "Memory_UpdateJob s job =
     (case map_of (jobs s) (Job_ID job) of
        None \<Rightarrow> Inl ErrNotFound
      | Some _ \<Rightarrow> Inr (s\<lparr>jobs := AList.update (Job_ID job) job (jobs s)\<rparr>))"

definition Memory_GetJob :: "MemoryStore \<Rightarrow> string \<Rightarrow> error + Job" where
  "Memory_GetJob s jid =
     (case map_of (jobs s) jid of None \<Rightarrow> Inl ErrNotFound | Some job \<Rightarrow> Inr job)"

definition ListJobs_less :: "Job \<Rightarrow> Job \<Rightarrow> bool" where
  "ListJobs_less a b =
     (if Job_Priority a = Job_Priority b then Job_CreatedAt a < Job_CreatedAt b
      else Job_Priority a > Job_Priority b)"

definition Memory_ListJobs :: "(string list \<Rightarrow> string list) \<Rightarrow> MemoryStore \<Rightarrow> error + Job list" where
  "Memory_ListJobs ord s = Inr (sort_slice ListJobs_less (range_values ord (jobs s)))"

section \<open>Executions\<close>

definition Memory_CreateExecution :: "MemoryStore \<Rightarrow> Execution \<Rightarrow> error + MemoryStore" where
  "Memory_CreateExecution s ex =
     (let ids = (case jobIndex s (Exec_JobID ex) of None \<Rightarrow> [] | Some ids \<Rightarrow> ids)
      in Inr (s\<lparr>executions := (executions s)(Exec_ID ex \<mapsto> ex),
                jobIndex := (jobIndex s)(Exec_JobID ex \<mapsto> ids @ [Exec_ID ex])\<rparr>))"

definition Memory_UpdateExecution :: "MemoryStore \<Rightarrow> Execution \<Rightarrow> error + MemoryStore" where
  "Memory_UpdateExecution s ex =
     (case executions s (Exec_ID ex) of
        None \<Rightarrow> Inl ErrNotFound
      | Some _ \<Rightarrow> Inr (s\<lparr>executions := (executions s)(Exec_ID ex \<mapsto> ex)\<rparr>))"

definition ListExecutions_less :: "Execution \<Rightarrow> Execution \<Rightarrow> bool" where
  "ListExecutions_less a b \<longleftrightarrow> Exec_Attempt a < Exec_Attempt b"

text \<open>
  Every indexed identifier has an execution (\<open>store_wf\<close> below); an identifier without one
  would contribute the zero execution in Go and is left out here.
\<close>

definition Memory_ListExecutions :: "MemoryStore \<Rightarrow> string \<Rightarrow> error + Execution list" where
  "Memory_ListExecutions s jobID =
     (let ids = (case jobIndex s jobID of None \<Rightarrow> [] | Some ids \<Rightarrow> ids)
      in Inr (sort_slice ListExecutions_less (List.map_filter (executions s) ids)))"

section \<open>Nodes\<close>

definition Memory_RegisterNode :: "MemoryStore \<Rightarrow> Node \<Rightarrow> error + MemoryStore" where
  "Memory_RegisterNode s node = Inr (s\<lparr>nodes := AList.update (Node_ID node) node (nodes s)\<rparr>)"

definition Memory_UpdateNode :: "MemoryStore \<Rightarrow> Node \<Rightarrow> error + MemoryStore" where
  "Memory_UpdateNode s node =
     (case map_of (nodes s) (Node_ID node) of
        None \<Rightarrow> Inl ErrNotFound
      | Some _ \<Rightarrow> Inr (s\<lparr>nodes := AList.update (Node_ID node) node (nodes s)\<rparr>))"

definition Memory_GetNode :: "MemoryStore \<Rightarrow> string \<Rightarrow> error + Node" where
  "Memory_GetNode s nid =
     (case map_of (nodes s) nid of None \<Rightarrow> Inl ErrNotFound | Some node \<Rightarrow> Inr node)"

definition Memory_ListOnlineNodes ::
  "(string list \<Rightarrow> string list) \<Rightarrow> MemoryStore \<Rightarrow> error + Node list" where
  "Memory_ListOnlineNodes ord s = Inr (filter IsSchedulable (range_values ord (nodes s)))"

definition set_avail :: "Node \<Rightarrow> int \<Rightarrow> Node" where
  "set_avail node n = node\<lparr>Node_Resource := (Node_Resource node)\<lparr>Res_AvailGPU := n\<rparr>\<rparr>"

definition Memory_AllocateGPU :: "MemoryStore \<Rightarrow> string \<Rightarrow> int \<Rightarrow> error + MemoryStore" where
  "Memory_AllocateGPU s nodeID cnt =
     (case map_of (nodes s) nodeID of
        None \<Rightarrow> Inl ErrNotFound
      | Some node \<Rightarrow>
          if Res_AvailGPU (Node_Resource node) < cnt then
            Inl (ErrorString (''insufficient GPU: avail='' @ itoa (Res_AvailGPU (Node_Resource node))
                   @ '', requested='' @ itoa cnt))
          else Inr (s\<lparr>nodes := AList.update nodeID
                 (set_avail node (i64 (Res_AvailGPU (Node_Resource node) - cnt))) (nodes s)\<rparr>))"

definition Memory_ReleaseGPU :: "MemoryStore \<Rightarrow> string \<Rightarrow> int \<Rightarrow> error + MemoryStore" where
  "Memory_ReleaseGPU s nodeID cnt =
     (case map_of (nodes s) nodeID of
        None \<Rightarrow> Inl ErrNotFound
      | Some node \<Rightarrow>
          (let avail = i64 (Res_AvailGPU (Node_Resource node) + cnt);
               capped = (if avail > Res_TotalGPU (Node_Resource node)
                         then Res_TotalGPU (Node_Resource node) else avail)
           in Inr (s\<lparr>nodes := AList.update nodeID (set_avail node capped) (nodes s)\<rparr>)))"

section \<open>Well-formed stores\<close>

text \<open>
  Jobs and nodes are stored under their own identifiers, each once; an execution is stored
  under its identifier and listed exactly in the index of its job.
\<close>

definition keyed_wf :: "('v \<Rightarrow> string) \<Rightarrow> (string \<times> 'v) list \<Rightarrow> bool" where
  "keyed_wf key kvs \<longleftrightarrow> distinct (map fst kvs) \<and> list_all (\<lambda>(k, v). key v = k) kvs"

definition index_of :: "MemoryStore \<Rightarrow> string \<Rightarrow> string list" where
  "index_of s jid = (case jobIndex s jid of None \<Rightarrow> [] | Some ids \<Rightarrow> ids)"

definition execs_wf :: "MemoryStore \<Rightarrow> bool" where
  "execs_wf s \<longleftrightarrow>
     (\<forall>eid ex. executions s eid = Some ex \<longrightarrow> Exec_ID ex = eid \<and> eid \<in> set (index_of s (Exec_JobID ex))) \<and>
     (\<forall>jid eid. eid \<in> set (index_of s jid) \<longrightarrow>
        (\<exists>ex. executions s eid = Some ex \<and> Exec_JobID ex = jid))"

definition store_wf :: "MemoryStore \<Rightarrow> bool" where
  "store_wf s \<longleftrightarrow> keyed_wf Job_ID (jobs s) \<and> keyed_wf Node_ID (nodes s) \<and> execs_wf s"

lemma keyed_wf_update: "keyed_wf key kvs \<Longrightarrow> keyed_wf key (AList.update (key v) v kvs)"
  by (auto simp: keyed_wf_def list_all_iff set_update_distinct distinct_update)

lemma keyed_wf_lookup: "keyed_wf key kvs \<Longrightarrow> map_of kvs k = Some v \<Longrightarrow> key v = k"
  by (auto simp: keyed_wf_def list_all_iff dest: map_of_SomeD)

lemma keyed_wf_distinct: "keyed_wf key kvs \<Longrightarrow> distinct (map fst kvs)"
  by (simp add: keyed_wf_def)

lemma store_wf_new [inv_intros]: "store_wf NewMemoryStore"
  by (simp add: store_wf_def NewMemoryStore_def keyed_wf_def execs_wf_def index_of_def)

section \<open>The repository contract\<close>

locale keyed_store =
  fixes key :: "'v \<Rightarrow> string" and invar :: "'s \<Rightarrow> bool"
    and lookup :: "'s \<Rightarrow> string \<Rightarrow> error + 'v"
    and put :: "'s \<Rightarrow> 'v \<Rightarrow> error + 's" and upd :: "'s \<Rightarrow> 'v \<Rightarrow> error + 's"
  assumes lookup_error: "lookup s k = Inl err \<Longrightarrow> err = ErrNotFound"
    and lookup_key: "invar s \<Longrightarrow> lookup s k = Inr v \<Longrightarrow> key v = k"
    and put_total: "\<exists>s'. put s v = Inr s'"
    and put_lookup: "put s v = Inr s' \<Longrightarrow> lookup s' k = (if k = key v then Inr v else lookup s k)"
    and put_invar: "invar s \<Longrightarrow> put s v = Inr s' \<Longrightarrow> invar s'"
    and upd_missing: "lookup s (key v) = Inl err \<Longrightarrow> upd s v = Inl ErrNotFound"
    and upd_present: "lookup s (key v) = Inr w \<Longrightarrow> upd s v = put s v"
begin

lemma upd_Inr: "upd s v = Inr s' \<Longrightarrow> put s v = Inr s' \<and> (\<exists>w. lookup s (key v) = Inr w)"
  by (cases "lookup s (key v)") (simp_all add: upd_missing upd_present)

lemma upd_lookup: "upd s v = Inr s' \<Longrightarrow> lookup s' k = (if k = key v then Inr v else lookup s k)"
  using upd_Inr put_lookup by blast

lemma upd_invar: "invar s \<Longrightarrow> upd s v = Inr s' \<Longrightarrow> invar s'"
  using upd_Inr put_invar by blast

lemma upd_error_iff: "upd s v = Inl err \<longleftrightarrow> err = ErrNotFound \<and> lookup s (key v) = Inl ErrNotFound"
proof (cases "lookup s (key v)")
  case (Inl e)
  then show ?thesis using lookup_error [OF Inl] upd_missing [OF Inl] by auto
next
  case (Inr w)
  then show ?thesis using upd_present [OF Inr] put_total [of s v] by auto
qed

text \<open>Fetch, change, store: what every service operation does. It cannot fail on the store.\<close>

lemma read_modify_write:
  assumes "invar s" and "lookup s k = Inr v" and "key v' = k"
  obtains s' where "upd s v' = Inr s'" and "invar s'" and "lookup s' k = Inr v'"
    and "\<And>k'. k' \<noteq> k \<Longrightarrow> lookup s' k' = lookup s k'"
proof -
  obtain s' where s': "put s v' = Inr s'" using put_total by blast
  with assms have "upd s v' = Inr s'" using upd_present by metis
  with s' assms that show thesis using put_lookup put_invar by (metis (full_types))
qed

text \<open>The last write to a key wins, and writes to different keys do not interfere.\<close>

lemma put_put_lookup:
  assumes "put s v = Inr s1" and "put s1 w = Inr s2"
  shows "lookup s2 k = (if k = key w then Inr w else if k = key v then Inr v else lookup s k)"
  using put_lookup [OF assms(1)] put_lookup [OF assms(2)] by simp

end

lemma store_wf_jobs: "store_wf s \<Longrightarrow> keyed_wf Job_ID js \<Longrightarrow> store_wf (s\<lparr>jobs := js\<rparr>)"
  by (simp add: store_wf_def execs_wf_def index_of_def)

lemma store_wf_nodes: "store_wf s \<Longrightarrow> keyed_wf Node_ID ns \<Longrightarrow> store_wf (s\<lparr>nodes := ns\<rparr>)"
  by (simp add: store_wf_def execs_wf_def index_of_def)

lemma store_wf_D:
  "store_wf s \<Longrightarrow> keyed_wf Job_ID (jobs s)" "store_wf s \<Longrightarrow> keyed_wf Node_ID (nodes s)"
  "store_wf s \<Longrightarrow> execs_wf s"
  by (simp_all add: store_wf_def)

lemma job_key: "store_wf s \<Longrightarrow> map_of (jobs s) k = Some job \<Longrightarrow> Job_ID job = k"
  by (rule keyed_wf_lookup [OF store_wf_D(1)])

lemma node_key: "store_wf s \<Longrightarrow> map_of (nodes s) k = Some node \<Longrightarrow> Node_ID node = k"
  by (rule keyed_wf_lookup [OF store_wf_D(2)])

lemma store_wf_distinct:
  "store_wf s \<Longrightarrow> distinct (map fst (jobs s))" "store_wf s \<Longrightarrow> distinct (map fst (nodes s))"
  by (simp_all add: store_wf_def keyed_wf_def)

lemma store_wf_put_job [inv_intros]:
  "store_wf s \<Longrightarrow> store_wf (s\<lparr>jobs := AList.update (Job_ID job) job (jobs s)\<rparr>)"
  by (intro store_wf_jobs keyed_wf_update store_wf_D)

lemma store_wf_put_node [inv_intros]:
  "store_wf s \<Longrightarrow> store_wf (s\<lparr>nodes := AList.update (Node_ID node) node (nodes s)\<rparr>)"
  by (intro store_wf_nodes keyed_wf_update store_wf_D)

interpretation job_store: keyed_store Job_ID store_wf Memory_GetJob Memory_CreateJob Memory_UpdateJob
  by unfold_locales
    (auto simp: Memory_GetJob_def Memory_CreateJob_def Memory_UpdateJob_def
      intro: job_key store_wf_put_job split: option.splits if_splits)

interpretation node_store: keyed_store Node_ID store_wf Memory_GetNode Memory_RegisterNode Memory_UpdateNode
  by unfold_locales
    (auto simp: Memory_GetNode_def Memory_RegisterNode_def Memory_UpdateNode_def
      intro: node_key store_wf_put_node split: option.splits if_splits)

section \<open>Listings\<close>

interpretation list_jobs: strict_weak_order ListJobs_less
  by unfold_locales (auto simp: ListJobs_less_def split: if_splits)

interpretation list_executions: strict_weak_order ListExecutions_less
  by unfold_locales (auto simp: ListExecutions_less_def)

lemma Memory_ListJobs_perm:
  "store_wf s \<Longrightarrow> iter_order ord \<Longrightarrow> Memory_ListJobs ord s = Inr js \<Longrightarrow> mset js = mset (map snd (jobs s))"
  by (auto simp: Memory_ListJobs_def mset_range_values store_wf_distinct)

lemma Memory_ListJobs_sorted:
  "Memory_ListJobs ord s = Inr js \<Longrightarrow> sorted_wrt (\<lambda>a b. \<not> ListJobs_less b a) js"
  by (auto simp: Memory_ListJobs_def list_jobs.sorted_sort_slice)

lemma Memory_ListExecutions_sorted:
  "Memory_ListExecutions s jid = Inr exs \<Longrightarrow> sorted (map Exec_Attempt exs)"
  using list_executions.sorted_sort_slice
  by (auto simp: Memory_ListExecutions_def ListExecutions_less_def Let_def sorted_map not_less)

lemma set_map_filter: "set (List.map_filter f xs) = {y. \<exists>x \<in> set xs. f x = Some y}"
  by (induction xs) (auto simp: List.map_filter_simps split: option.splits)

lemma Memory_ListExecutions_set:
  "execs_wf s \<Longrightarrow> Memory_ListExecutions s jid = Inr exs \<Longrightarrow>
   set exs = {ex. executions s (Exec_ID ex) = Some ex \<and> Exec_JobID ex = jid}"
  by (fastforce simp: Memory_ListExecutions_def execs_wf_def index_of_def Let_def set_map_filter)

lemma Memory_ListOnlineNodes_set:
  assumes "store_wf s" and "iter_order ord" and "Memory_ListOnlineNodes ord s = Inr ns"
  shows "set ns = {node. map_of (nodes s) (Node_ID node) = Some node \<and> IsSchedulable node}"
proof -
  note d = store_wf_distinct(2) [OF assms(1)]
  have "node \<in> snd ` set (nodes s) \<longleftrightarrow> map_of (nodes s) (Node_ID node) = Some node" for node
  proof
    assume "node \<in> snd ` set (nodes s)"
    then obtain k where "map_of (nodes s) k = Some node" using d by auto
    with node_key [OF assms(1) this] show "map_of (nodes s) (Node_ID node) = Some node" by simp
  qed (force dest: map_of_SomeD)
  with assms show ?thesis by (auto simp: Memory_ListOnlineNodes_def set_range_values d)
qed

section \<open>GPU accounting\<close>

text \<open>A node never offers more GPUs than it has, and never a negative number.\<close>

definition node_ok :: "Node \<Rightarrow> bool" where
  "node_ok node \<longleftrightarrow>
     0 \<le> Res_AvailGPU (Node_Resource node) \<and>
     Res_AvailGPU (Node_Resource node) \<le> Res_TotalGPU (Node_Resource node) \<and>
     is_i64 (Res_TotalGPU (Node_Resource node))"

definition gpu_wf :: "MemoryStore \<Rightarrow> bool" where
  "gpu_wf s \<longleftrightarrow> (\<forall>nid node. map_of (nodes s) nid = Some node \<longrightarrow> node_ok node)"

definition avail_gpu :: "MemoryStore \<Rightarrow> string \<Rightarrow> int" where
  "avail_gpu s nid =
     (case map_of (nodes s) nid of None \<Rightarrow> 0 | Some node \<Rightarrow> Res_AvailGPU (Node_Resource node))"

lemma set_avail_simps [simp]:
  "Node_ID (set_avail node n) = Node_ID node"
  "Res_AvailGPU (Node_Resource (set_avail node n)) = n"
  "Res_TotalGPU (Node_Resource (set_avail node n)) = Res_TotalGPU (Node_Resource node)"
  "Res_GPUs (Node_Resource (set_avail node n)) = Res_GPUs (Node_Resource node)"
  "Node_Status (set_avail node n) = Node_Status node"
  by (simp_all add: set_avail_def)

lemma set_avail_same [simp]: "set_avail node (Res_AvailGPU (Node_Resource node)) = node"
  by (simp add: set_avail_def)

lemma set_avail_twice [simp]: "set_avail (set_avail node m) n = set_avail node n"
  by (simp add: set_avail_def)

lemma node_ok_sub: "node_ok node \<Longrightarrow> 0 \<le> c \<Longrightarrow> c \<le> Res_AvailGPU (Node_Resource node) \<Longrightarrow>
   i64 (Res_AvailGPU (Node_Resource node) - c) = Res_AvailGPU (Node_Resource node) - c"
  by (auto simp: node_ok_def is_i64_def)

lemma Memory_AllocateGPU_Inr:
  assumes "Memory_AllocateGPU s nid c = Inr s'"
  obtains node where "map_of (nodes s) nid = Some node" "c \<le> Res_AvailGPU (Node_Resource node)"
    "s' = s\<lparr>nodes := AList.update nid (set_avail node (i64 (Res_AvailGPU (Node_Resource node) - c))) (nodes s)\<rparr>"
  using assms by (auto simp: Memory_AllocateGPU_def split: option.splits if_splits)

lemma Memory_AllocateGPU_wf [inv_intros]:
  assumes "store_wf s" and "Memory_AllocateGPU s nid c = Inr s'"
  shows "store_wf s'"
  using assms(2)
proof (rule Memory_AllocateGPU_Inr)
  fix node :: Node
  assume "map_of (nodes s) nid = Some node"
    and s': "s' = s\<lparr>nodes := AList.update nid (set_avail node (i64 (Res_AvailGPU (Node_Resource node) - c))) (nodes s)\<rparr>"
  with assms(1) have "nid = Node_ID node" by (simp add: node_key)
  with store_wf_put_node [OF assms(1), of "set_avail node (i64 (Res_AvailGPU (Node_Resource node) - c))"]
  show ?thesis by (simp add: s')
qed

lemma gpu_wf_put: "gpu_wf s \<Longrightarrow> node_ok node \<Longrightarrow> gpu_wf (s\<lparr>nodes := AList.update nid node (nodes s)\<rparr>)"
  by (simp add: gpu_wf_def)

lemma gpu_wf_node: "gpu_wf s \<Longrightarrow> map_of (nodes s) nid = Some node \<Longrightarrow> node_ok node"
  by (auto simp: gpu_wf_def)

lemma node_ok_set_avail:
  "node_ok node \<Longrightarrow> 0 \<le> n \<Longrightarrow> n \<le> Res_TotalGPU (Node_Resource node) \<Longrightarrow> node_ok (set_avail node n)"
  by (simp add: node_ok_def)

lemma Memory_AllocateGPU_gpu [inv_intros]:
  assumes "gpu_wf s" and "0 \<le> c" and "Memory_AllocateGPU s nid c = Inr s'"
  shows "gpu_wf s'"
  using assms(3)
proof (rule Memory_AllocateGPU_Inr)
  fix node :: Node
  assume node: "map_of (nodes s) nid = Some node" and c: "c \<le> Res_AvailGPU (Node_Resource node)"
    and s': "s' = s\<lparr>nodes := AList.update nid (set_avail node (i64 (Res_AvailGPU (Node_Resource node) - c))) (nodes s)\<rparr>"
  note ok = gpu_wf_node [OF assms(1) node]
  have "0 \<le> Res_AvailGPU (Node_Resource node) - c"
    and "Res_AvailGPU (Node_Resource node) - c \<le> Res_TotalGPU (Node_Resource node)"
    using ok c assms(2) by (auto simp: node_ok_def)
  then show ?thesis
    unfolding s' node_ok_sub [OF ok assms(2) c]
    by (intro gpu_wf_put node_ok_set_avail assms ok)
qed

lemma Memory_AllocateGPU_avail:
  "gpu_wf s \<Longrightarrow> 0 \<le> c \<Longrightarrow> Memory_AllocateGPU s nid c = Inr s' \<Longrightarrow>
   avail_gpu s' k = avail_gpu s k - (if k = nid then c else 0)"
  by (erule Memory_AllocateGPU_Inr) (auto simp: avail_gpu_def gpu_wf_def node_ok_sub)

lemma Memory_ReleaseGPU_Inr:
  assumes "Memory_ReleaseGPU s nid c = Inr s'"
  obtains node where "map_of (nodes s) nid = Some node"
    "s' = s\<lparr>nodes := AList.update nid (set_avail node
            (min (i64 (Res_AvailGPU (Node_Resource node) + c)) (Res_TotalGPU (Node_Resource node)))) (nodes s)\<rparr>"
  using assms by (auto simp: Memory_ReleaseGPU_def Let_def min_def split: option.splits)

lemma Memory_ReleaseGPU_gpu [inv_intros]:
  assumes "gpu_wf s" and "0 \<le> c" and "is_i64 (avail_gpu s nid + c)" and "Memory_ReleaseGPU s nid c = Inr s'"
  shows "gpu_wf s'"
  using assms(4)
proof (rule Memory_ReleaseGPU_Inr)
  fix node :: Node
  assume node: "map_of (nodes s) nid = Some node"
    and s': "s' = s\<lparr>nodes := AList.update nid (set_avail node
            (min (i64 (Res_AvailGPU (Node_Resource node) + c)) (Res_TotalGPU (Node_Resource node)))) (nodes s)\<rparr>"
  note ok = gpu_wf_node [OF assms(1) node]
  have "0 \<le> min (i64 (Res_AvailGPU (Node_Resource node) + c)) (Res_TotalGPU (Node_Resource node))"
    using ok assms(2,3) node by (auto simp: node_ok_def avail_gpu_def)
  then show ?thesis
    unfolding s' by (intro gpu_wf_put node_ok_set_avail assms ok) simp_all
qed

text \<open>Releasing what was just allocated restores the store.\<close>

lemma Memory_Release_Allocate:
  assumes "gpu_wf s" and "0 \<le> c" and "Memory_AllocateGPU s nid c = Inr s'"
  shows "Memory_ReleaseGPU s' nid c = Inr s"
  using assms(3)
proof (rule Memory_AllocateGPU_Inr)
  fix node :: Node
  let ?a = "Res_AvailGPU (Node_Resource node)"
  assume node: "map_of (nodes s) nid = Some node" and c: "c \<le> ?a"
    and s': "s' = s\<lparr>nodes := AList.update nid (set_avail node (i64 (?a - c))) (nodes s)\<rparr>"
  from assms(1) node have ok: "node_ok node" by (auto simp: gpu_wf_def)
  with assms(2) c have "i64 (?a - c) = ?a - c" by (intro node_ok_sub)
  moreover from ok have "i64 ?a = ?a" and "?a \<le> Res_TotalGPU (Node_Resource node)"
    by (auto simp: node_ok_def is_i64_def)
  moreover have "AList.update nid node (nodes s) = nodes s"
    using node by (rule update_id)
  ultimately show ?thesis
    by (simp add: s' Memory_ReleaseGPU_def Let_def update_twice)
qed

end
