(* ===== verification/Matcher.thy ===== *)
theory Matcher
  imports Store
begin

text \<open>
  The pure parts of \<^verbatim>\<open>internal/scheduler\<close>: the priority queue of jobs
  (\<^verbatim>\<open>priority_queue.go\<close> over \<^verbatim>\<open>container/heap\<close>), the choice of a node for a job
  (\<^verbatim>\<open>resource_matcher.go\<close>), the retry bookkeeping (\<^verbatim>\<open>retry.go\<close>) and the mock resource
  provider (\<^verbatim>\<open>resource.go\<close>).
\<close>

section \<open>The priority queue\<close>

type_synonym PriorityQueue = "Job list"

definition PQ_Len :: "PriorityQueue \<Rightarrow> nat" where
  "PQ_Len pq = length pq"

text \<open>\<^verbatim>\<open>Less(i, j)\<close> compares the jobs at two positions; here it takes the jobs.\<close>

definition PQ_Less :: "Job \<Rightarrow> Job \<Rightarrow> bool" where
  "PQ_Less a b =
     (if Job_Priority a = Job_Priority b then Job_CreatedAt a < Job_CreatedAt b
      else Job_Priority a > Job_Priority b)"

definition PQ_Swap :: "PriorityQueue \<Rightarrow> nat \<Rightarrow> nat \<Rightarrow> PriorityQueue" where
  "PQ_Swap pq i j = swap pq i j"

definition PQ_Push :: "PriorityQueue \<Rightarrow> Job \<Rightarrow> PriorityQueue" where
  "PQ_Push pq x = pq @ [x]"

definition PQ_Pop :: "PriorityQueue \<Rightarrow> (Job \<times> PriorityQueue) option" where
  "PQ_Pop pq = (if pq = [] then None else Some (last pq, butlast pq))"

definition NewPriorityQueue :: "Job list \<Rightarrow> PriorityQueue" where
  "NewPriorityQueue items = heap_init PQ_Less items"

interpretation pq: strict_weak_order PQ_Less
  by unfold_locales (auto simp: PQ_Less_def split: if_splits)

lemma NewPriorityQueue_heap:
  "heap_from PQ_Less 0 (NewPriorityQueue items) (length (NewPriorityQueue items))"
  using pq.heap_init_heap [of items] by (simp add: NewPriorityQueue_def)

text \<open>\<^verbatim>\<open>heap.Pop\<close> ends with the \<^verbatim>\<open>Pop\<close> method of the queue.\<close>

lemma heap_pop_PQ_Pop:
  assumes "xs \<noteq> []"
  shows "heap_pop lt xs =
    PQ_Pop (heap_down lt (PQ_Swap xs 0 (length xs - 1)) 0 (length xs - 1))" (is "_ = PQ_Pop ?ys")
proof -
  have len: "length ?ys = length xs" by (simp add: PQ_Swap_def)
  with assms have "?ys \<noteq> []" by (metis length_0_conv)
  with len show ?thesis
    using assms by (simp add: heap_pop_def PQ_Pop_def PQ_Swap_def Let_def last_conv_nth butlast_conv_take)
qed

section \<open>GPU memory requests\<close>

definition parseGPUMemoryMiB :: "string \<Rightarrow> int" where
  "parseGPUMemoryMiB s =
     (if s = '''' then 0
      else
        (case (if HasSuffix s ''Mi'' then Sscanf_d ''Mi'' s else None) of
           Some val \<Rightarrow> val
         | None \<Rightarrow>
             (case (if HasSuffix s ''Gi'' then Sscanf_d ''Gi'' s else None) of
                Some val \<Rightarrow> i64 (val * 1024)
              | None \<Rightarrow> (case Sscanf_d '''' s of Some val \<Rightarrow> val | None \<Rightarrow> 0))))"

lemma no_digit_first_unit [simp]:
  "no_digit_first ''Mi''" "no_digit_first ''Gi''" "no_digit_first ''''"
  by (simp_all add: no_digit_first_def is_digit_def)

lemma HasSuffix_unit [simp]: "\<not> HasSuffix (s @ ''Gi'') ''Mi''"
  by (simp add: HasSuffix_def)

lemma itoa_nonempty [simp]: "itoa z \<noteq> ''''"
  by (simp add: itoa_def)

lemma itoa_last_digit: "is_digit (last (itoa z))"
  by (simp add: itoa_def utoa_is_digit [OF last_in_set])

lemma HasSuffix_last: "HasSuffix s suf \<Longrightarrow> suf \<noteq> [] \<Longrightarrow> last s = last suf"
proof -
  assume "HasSuffix s suf" "suf \<noteq> []"
  then have "drop (length s - length suf) s = suf" "length s - length suf < length s"
    by (auto simp: HasSuffix_def intro!: diff_less simp flip: length_greater_0_conv)
  then show ?thesis by (metis last_drop)
qed

lemma not_HasSuffix_itoa [simp]: "\<not> HasSuffix (itoa z) ''Mi''" "\<not> HasSuffix (itoa z) ''Gi''"
  using HasSuffix_last [of "itoa z"] itoa_last_digit [of z] by (auto simp: is_digit_def)

section \<open>Node matching\<close>

datatype MatchStrategy = StrategyBestFit | StrategyFirstFit

record NodeScore =
  Score_Node :: Node
  Score_Residual :: int

definition node_fits :: "ResourceSpec \<Rightarrow> Node \<Rightarrow> bool" where
  "node_fits spec node \<longleftrightarrow>
     IsSchedulable node \<and> CanFitGPU node (Spec_GPU spec) \<and>
     \<not> (parseGPUMemoryMiB (Spec_GPUMemory spec) > 0 \<and>
        \<not> CanFitGPUMemory node (Spec_GPU spec) (parseGPUMemoryMiB (Spec_GPUMemory spec)))"

definition match_candidates :: "Node list \<Rightarrow> ResourceSpec \<Rightarrow> NodeScore list" where
  "match_candidates ns spec =
     map (\<lambda>node. \<lparr>Score_Node = node,
                   Score_Residual = i64 (Res_AvailGPU (Node_Resource node) - Spec_GPU spec)\<rparr>)
       (filter (node_fits spec) ns)"

definition score_less :: "NodeScore \<Rightarrow> NodeScore \<Rightarrow> bool" where
  "score_less a b \<longleftrightarrow> Score_Residual a < Score_Residual b"

definition MatchNode :: "Node list \<Rightarrow> ResourceSpec \<Rightarrow> MatchStrategy \<Rightarrow> error + Node" where
  "MatchNode ns spec strategy =
     (let candidates = match_candidates ns spec
      in if candidates = [] then
           Inl (ErrorString (''no node fits: need '' @ itoa (Spec_GPU spec) @ '' GPU(s) with '' @
                  itoa (parseGPUMemoryMiB (Spec_GPUMemory spec)) @ '' MiB each''))
         else
           (case strategy of
              StrategyFirstFit \<Rightarrow> Inr (Score_Node (hd candidates))
            | StrategyBestFit \<Rightarrow> Inr (Score_Node (hd (sort_slice score_less candidates)))))"

interpretation scores: strict_weak_order score_less
  by unfold_locales (auto simp: score_less_def)

lemma match_candidates_Nil: "match_candidates ns spec = [] \<longleftrightarrow> (\<forall>node \<in> set ns. \<not> node_fits spec node)"
  by (auto simp: match_candidates_def filter_empty_conv)

lemma MatchNode_Inl_iff:
  "(\<exists>err. MatchNode ns spec strategy = Inl err) \<longleftrightarrow> (\<forall>node \<in> set ns. \<not> node_fits spec node)"
  by (auto simp: MatchNode_def Let_def match_candidates_Nil split: MatchStrategy.splits)

lemma MatchNode_Inr:
  assumes "MatchNode ns spec strategy = Inr node"
  shows "node \<in> set ns" and "node_fits spec node"
proof -
  have ne: "match_candidates ns spec \<noteq> []"
    using assms by (auto simp: MatchNode_def Let_def split: if_splits)
  then have "hd (match_candidates ns spec) \<in> set (match_candidates ns spec)"
    and "hd (sort_slice score_less (match_candidates ns spec)) \<in> set (match_candidates ns spec)"
    using hd_in_set [of "sort_slice score_less (match_candidates ns spec)"] by simp_all
  with assms ne have "node \<in> Score_Node ` set (match_candidates ns spec)"
    by (auto simp: MatchNode_def Let_def split: MatchStrategy.splits)
  then show "node \<in> set ns" and "node_fits spec node"
    by (auto simp: match_candidates_def)
qed

lemma node_fits_residual:
  "node_ok node \<Longrightarrow> node_fits spec node \<Longrightarrow> 0 \<le> Spec_GPU spec \<Longrightarrow>
   i64 (Res_AvailGPU (Node_Resource node) - Spec_GPU spec) =
     Res_AvailGPU (Node_Resource node) - Spec_GPU spec"
  by (auto simp: node_fits_def CanFitGPU_def intro: node_ok_sub)

text \<open>Best fit takes a node that leaves the fewest GPUs free among all nodes that fit.\<close>

lemma MatchNode_BestFit_least:
  assumes "MatchNode ns spec StrategyBestFit = Inr node" and "other \<in> set ns" and "node_fits spec other"
    and "0 \<le> Spec_GPU spec" and "\<forall>n \<in> set ns. node_ok n"
  shows "Res_AvailGPU (Node_Resource node) \<le> Res_AvailGPU (Node_Resource other)"
proof -
  let ?cs = "match_candidates ns spec"
  let ?score = "\<lambda>node. \<lparr>Score_Node = node,
     Score_Residual = i64 (Res_AvailGPU (Node_Resource node) - Spec_GPU spec)\<rparr>"
  from assms(1) obtain c cs where c: "sort_slice score_less ?cs = c # cs" "Score_Node c = node"
    by (cases "sort_slice score_less ?cs") (auto simp: MatchNode_def Let_def split: if_splits)
  then have "c \<in> set ?cs" using set_sort_slice [of score_less ?cs] by auto
  then have c_score: "c = ?score node" using c(2) by (auto simp: match_candidates_def)
  have "?score other \<in> set ?cs" using assms(2,3) by (auto simp: match_candidates_def)
  with c(1) have "\<not> score_less (?score other) c" by (rule scores.sort_slice_first_least)
  moreover have "node_ok node" "node_ok other"
    using assms(2,5) MatchNode_Inr(1) [OF assms(1)] by auto
  ultimately show ?thesis
    using MatchNode_Inr(2) [OF assms(1)] assms(3,4)
    by (simp add: c_score score_less_def node_fits_residual)
qed

text \<open>First fit takes the first node, in listing order, that fits.\<close>

lemma MatchNode_FirstFit:
  "MatchNode ns spec StrategyFirstFit = Inr node \<longleftrightarrow> List.find (node_fits spec) ns = Some node"
  by (induction ns) (auto simp: MatchNode_def match_candidates_def Let_def)

section \<open>Retry bookkeeping\<close>

definition Scheduler_CanRetry :: "Job \<Rightarrow> bool" where
  "Scheduler_CanRetry job \<longleftrightarrow> Job_RetryCount job < Job_MaxRetries job"

definition MarkRetrying :: "gtime \<Rightarrow> Job \<Rightarrow> string \<Rightarrow> Job" where
  "MarkRetrying now job errText =
     job\<lparr>Job_RetryCount := i64 (Job_RetryCount job + 1), Job_Status := JobStatusRetrying,
         Job_LastError := errText, Job_UpdatedAt := now\<rparr>"

section \<open>Resource providers\<close>

record MockProvider =
  Mock_GPUs :: "GPUInfo list"
  Mock_CPUCores :: int
  Mock_MemoryMiB :: int

definition NewMockProvider :: "int \<Rightarrow> int \<Rightarrow> GPUInfo list \<Rightarrow> MockProvider" where
  "NewMockProvider cpuCores memoryMiB gpus =
     \<lparr>Mock_GPUs = gpus, Mock_CPUCores = cpuCores, Mock_MemoryMiB = memoryMiB\<rparr>"

definition CollectNodeResource :: "gtime \<Rightarrow> MockProvider \<Rightarrow> NodeResource" where
  "CollectNodeResource now m =
     \<lparr>Res_CPUCores = Mock_CPUCores m, Res_MemoryMiB = Mock_MemoryMiB m, Res_GPUs = Mock_GPUs m,
      Res_TotalGPU = int (length (Mock_GPUs m)),
      Res_AvailGPU = foldl (\<lambda>avail g. if GPU_Utilization g < 95 then i64 (avail + 1) else avail)
                       0 (Mock_GPUs m),
      Res_UpdatedAt = now\<rparr>"

text \<open>A snapshot of the provider is a resource a node may be registered with.\<close>

lemma CollectNodeResource_ok:
  assumes "int (length (Mock_GPUs m)) < 2 ^ 63" and "Node_Resource node = CollectNodeResource now m"
  shows "node_ok node"
  using assms count_loop [of 0 "Mock_GPUs m" "\<lambda>g. GPU_Utilization g < 95"]
  by (simp add: node_ok_def CollectNodeResource_def is_i64_def)

end
