(* ===== verification/Float64.thy ===== *)
theory Float64
  imports Complex_Main Prelude
begin

text \<open>
  Go's \<^verbatim>\<open>float64\<close>: a finite value is the rational number it denotes, and an operation is
  the exact operation followed by \<open>f64\<close>, rounding to the nearest binary64 value with ties
  to even. Subnormal results are included. Where a computation of the program can leave the
  finite range, its numbers are of type \<open>go_float\<close>, with infinities and NaN; elsewhere they
  are rationals. A
  multiplication and an addition are rounded separately, as the amd64 compiler does.
\<close>

section \<open>Binary exponents\<close>

fun bits :: "nat \<Rightarrow> nat" where
  "bits n = (if n = 0 then 0 else Suc (bits (n div 2)))"

declare bits.simps [simp del]

lemma bits_bounds: "0 < n \<Longrightarrow> 2 ^ (bits n - 1) \<le> n \<and> n < 2 ^ bits n"
proof (induction n rule: bits.induct)
  case (1 n)
  show ?case
  proof (cases "n div 2 = 0")
    case True
    with "1.prems" have "n = 1" by auto
    then show ?thesis by (simp add: bits.simps)
  next
    case False
    with 1 have IH: "2 ^ (bits (n div 2) - 1) \<le> n div 2 \<and> n div 2 < 2 ^ bits (n div 2)" by simp
    have "bits n = Suc (bits (n div 2))" using "1.prems" by (subst bits.simps) simp
    moreover have "0 < bits (n div 2)" using False by (subst bits.simps) simp
    then have "(2 :: nat) ^ bits (n div 2) = 2 * 2 ^ (bits (n div 2) - 1)"
      by (simp add: power_eq_if)
    ultimately show ?thesis using IH by (simp, linarith)
  qed
qed

text \<open>The exponent \<open>e\<close> with \<open>2\<close> to the \<open>e\<close> at most \<open>x\<close> and \<open>x\<close> below the next power.\<close>

definition exponent :: "rat \<Rightarrow> int" where
  "exponent x =
     (let (n, d) = quotient_of x; k = int (bits (nat n)) - int (bits (nat d))
      in if 2 powi k \<le> x then k else k - 1)"

lemma powi_Suc_rat: "(2 :: rat) powi (k + 1) = 2 * 2 powi k"
  by (simp add: power_int_add)

lemma powi_mono_rat: "j \<le> k \<Longrightarrow> (2 :: rat) powi j \<le> 2 powi k"
  by (rule power_int_increasing) simp_all

lemma powi_pos_rat [simp]: "0 < (2 :: rat) powi k"
  by simp

lemma powi_diff_nat: "(2 :: rat) powi (int a - int b) = 2 ^ a / 2 ^ b"
  by (simp add: power_int_diff)

lemma exponent_bounds:
  assumes "0 < x"
  shows "2 powi exponent x \<le> x" and "x < 2 powi (exponent x + 1)"
proof -
  obtain n d where q: "quotient_of x = (n, d)" by fastforce
  then have x: "x = of_int n / of_int d" and d: "0 < d"
    by (simp_all add: quotient_of_div quotient_of_denom_pos)
  with assms have n: "0 < n" by (simp add: zero_less_divide_iff)
  define bn bd where "bn = bits (nat n)" and "bd = bits (nat d)"
  have pos: "0 < bn" "0 < bd"
    using n d by (simp_all add: bn_def bd_def bits.simps)
  have nb: "2 ^ (bn - 1) \<le> nat n" "nat n < 2 ^ bn" "2 ^ (bd - 1) \<le> nat d" "nat d < 2 ^ bd"
    using bits_bounds [of "nat n"] bits_bounds [of "nat d"] n d by (simp_all add: bn_def bd_def)
  have of: "of_int n = (of_nat (nat n) :: rat)" "of_int d = (of_nat (nat d) :: rat)"
    using n d by simp_all
  have b: "(2 :: rat) ^ (bn - 1) \<le> of_int n" "of_int n < (2 :: rat) ^ bn"
      "(2 :: rat) ^ (bd - 1) \<le> of_int d" "of_int d < (2 :: rat) ^ bd"
    unfolding of using nb by (metis of_nat_le_iff of_nat_less_iff of_nat_power of_nat_numeral)+
  have up: "x < 2 powi (int bn - int bd + 1)"
  proof -
    have "x < 2 ^ bn / 2 ^ (bd - 1)"
      unfolding x using b n d by (intro frac_less) simp_all
    then show ?thesis using pos powi_diff_nat [of bn "bd - 1"] by (simp add: of_nat_diff algebra_simps)
  qed
  have low: "2 powi (int bn - int bd - 1) < x"
  proof -
    have "2 ^ (bn - 1) / 2 ^ bd < x"
      unfolding x using b n d by (intro frac_less2) simp_all
    then show ?thesis using pos powi_diff_nat [of "bn - 1" bd] by (simp add: of_nat_diff algebra_simps)
  qed
  from q have e: "exponent x = (if 2 powi (int bn - int bd) \<le> x then int bn - int bd else int bn - int bd - 1)"
    by (simp add: exponent_def bn_def bd_def Let_def)
  show "2 powi exponent x \<le> x" using low by (simp add: e)
  show "x < 2 powi (exponent x + 1)" using up by (simp add: e not_le)
qed

lemma exponent_mono:
  assumes "0 < x" and "x \<le> y"
  shows "exponent x \<le> exponent y"
proof (rule ccontr)
  assume "\<not> exponent x \<le> exponent y"
  then have "(2 :: rat) powi (exponent y + 1) \<le> 2 powi exponent x"
    by (intro powi_mono_rat) simp
  with exponent_bounds(2) [of y] exponent_bounds(1) [of x] assms show False by simp
qed

section \<open>Rounding\<close>

definition round_half_even :: "rat \<Rightarrow> int" where
  "round_half_even q =
     (let f = \<lfloor>q\<rfloor>; r = q - of_int f
      in if r < 1 / 2 then f else if r > 1 / 2 then f + 1 else if even f then f else f + 1)"

text \<open>The exponent of the last place: 53 significant bits, and no finer than the subnormals.\<close>

definition ulp_exponent :: "rat \<Rightarrow> int" where
  "ulp_exponent x = max (exponent \<bar>x\<bar> - 52) (- 1074)"

definition f64 :: "rat \<Rightarrow> rat" where
  "f64 x =
     (if x = 0 then 0
      else of_int (round_half_even (x / 2 powi ulp_exponent x)) * 2 powi ulp_exponent x)"

text \<open>A number is a binary64 value when rounding leaves it as it is.\<close>

definition is_f64 :: "rat \<Rightarrow> bool" where
  "is_f64 x \<longleftrightarrow> f64 x = x"

lemma round_half_even_of_int [simp]: "round_half_even (of_int n) = n"
  by (simp add: round_half_even_def Let_def)

lemma round_half_even_bounds: "\<lfloor>q\<rfloor> \<le> round_half_even q" "round_half_even q \<le> \<lfloor>q\<rfloor> + 1"
  by (simp_all add: round_half_even_def Let_def)

lemma round_half_even_mono:
  assumes "p \<le> q"
  shows "round_half_even p \<le> round_half_even q"
proof (cases "\<lfloor>p\<rfloor> = \<lfloor>q\<rfloor>")
  case True
  with assms show ?thesis by (auto simp: round_half_even_def Let_def)
next
  case False
  with floor_mono [OF assms] have "\<lfloor>p\<rfloor> + 1 \<le> \<lfloor>q\<rfloor>" by simp
  with round_half_even_bounds [of p] round_half_even_bounds [of q] show ?thesis by linarith
qed

lemma round_half_even_minus: "round_half_even (- q) = - round_half_even q"
proof (cases "q = of_int \<lfloor>q\<rfloor>")
  case True
  then show ?thesis by (metis of_int_minus round_half_even_of_int)
next
  case False
  then have "\<lfloor>- q\<rfloor> = - \<lfloor>q\<rfloor> - 1"
    by (simp add: floor_minus ceiling_altdef)
  then show ?thesis by (auto simp: round_half_even_def Let_def)
qed

lemma f64_0 [simp]: "f64 0 = 0"
  by (simp add: f64_def)

lemma f64_minus: "f64 (- x) = - f64 x"
  by (simp add: f64_def ulp_exponent_def round_half_even_minus)

lemma f64_nonneg:
  assumes "0 \<le> x"
  shows "0 \<le> f64 x"
proof -
  have "round_half_even 0 \<le> round_half_even (x / 2 powi ulp_exponent x)"
    using assms by (intro round_half_even_mono) simp
  moreover have "round_half_even 0 = 0" using round_half_even_of_int [of 0] by simp
  ultimately show ?thesis by (simp add: f64_def)
qed

lemma scaled_bounds:
  assumes "0 < x"
  shows "x / 2 powi ulp_exponent x < 2 ^ 53"
    and "- 1074 < ulp_exponent x \<Longrightarrow> 2 ^ 52 \<le> x / 2 powi ulp_exponent x"
proof -
  let ?u = "ulp_exponent x"
  have "x < 2 powi (exponent x + 1)" by (rule exponent_bounds [OF assms])
  also have "\<dots> \<le> 2 powi (53 + ?u)"
    using assms by (intro powi_mono_rat) (simp add: ulp_exponent_def)
  finally have "x < 2 ^ 53 * 2 powi ?u" by (simp add: power_int_add)
  then show "x / 2 powi ?u < 2 ^ 53" by (simp add: pos_divide_less_eq)
  assume "- 1074 < ?u"
  with assms have "52 + ?u = exponent x" by (simp add: ulp_exponent_def)
  then have "2 ^ 52 * 2 powi ?u \<le> x"
    using exponent_bounds(1) [OF assms] by (simp add: power_int_add flip: \<open>52 + ?u = exponent x\<close>)
  then show "2 ^ 52 \<le> x / 2 powi ?u" by (simp add: pos_le_divide_eq)
qed

lemma f64_upper: "0 < x \<Longrightarrow> f64 x \<le> 2 powi (53 + ulp_exponent x)"
proof -
  assume x: "0 < x"
  have "round_half_even (x / 2 powi ulp_exponent x) \<le> round_half_even (of_int (2 ^ 53))"
    using scaled_bounds(1) [OF x] by (intro round_half_even_mono) simp
  then have "round_half_even (x / 2 powi ulp_exponent x) \<le> 2 ^ 53" by (simp only: round_half_even_of_int)
  then have "(of_int (round_half_even (x / 2 powi ulp_exponent x)) :: rat) \<le> of_int (2 ^ 53)"
    by (simp only: of_int_le_iff)
  with x show ?thesis by (simp add: f64_def power_int_add)
qed

lemma f64_lower: "0 < x \<Longrightarrow> - 1074 < ulp_exponent x \<Longrightarrow> 2 powi (52 + ulp_exponent x) \<le> f64 x"
proof -
  assume x: "0 < x" "- 1074 < ulp_exponent x"
  have "round_half_even (of_int (2 ^ 52)) \<le> round_half_even (x / 2 powi ulp_exponent x)"
    using scaled_bounds(2) [OF x] by (intro round_half_even_mono) simp
  then have "2 ^ 52 \<le> round_half_even (x / 2 powi ulp_exponent x)" by (simp only: round_half_even_of_int)
  then have "(of_int (2 ^ 52) :: rat) \<le> of_int (round_half_even (x / 2 powi ulp_exponent x))"
    by (simp only: of_int_le_iff)
  with x show ?thesis by (simp add: f64_def power_int_add)
qed

lemma f64_mono_pos:
  assumes "0 < x" and "x \<le> y"
  shows "f64 x \<le> f64 y"
proof (cases "ulp_exponent x = ulp_exponent y")
  case True
  have "round_half_even (x / 2 powi ulp_exponent y) \<le> round_half_even (y / 2 powi ulp_exponent y)"
    using assms by (intro round_half_even_mono divide_right_mono) simp_all
  with assms True show ?thesis by (simp add: f64_def)
next
  case False
  have "ulp_exponent x \<le> ulp_exponent y"
    using assms exponent_mono [OF assms] by (simp add: ulp_exponent_def)
  with False have lt: "ulp_exponent x < ulp_exponent y" by simp
  have "f64 x \<le> 2 powi (53 + ulp_exponent x)" using assms by (intro f64_upper)
  also have "\<dots> \<le> 2 powi (52 + ulp_exponent y)" using lt by (intro powi_mono_rat) simp
  also have "\<dots> \<le> f64 y"
    using assms lt by (intro f64_lower) (simp_all add: ulp_exponent_def)
  finally show ?thesis .
qed

lemma f64_mono: "x \<le> y \<Longrightarrow> f64 x \<le> f64 y"
proof -
  assume le: "x \<le> y"
  consider "0 < x" | "x \<le> 0" "0 \<le> y" | "y < 0" by linarith
  then show ?thesis
  proof cases
    case 1
    then show ?thesis using le by (rule f64_mono_pos)
  next
    case 2
    then show ?thesis using f64_nonneg [of y] f64_nonneg [of "- x"] by (simp add: f64_minus)
  next
    case 3
    then show ?thesis using le f64_mono_pos [of "- y" "- x"] by (simp add: f64_minus)
  qed
qed

lemma f64_exact:
  assumes "x = of_int m * 2 powi k" and "ulp_exponent x \<le> k"
  shows "f64 x = x"
proof -
  let ?u = "ulp_exponent x"
  have "x / 2 powi ?u = of_int m * 2 powi (k - ?u)"
    using assms(1) by (simp add: power_int_diff)
  also have "\<dots> = of_int (m * 2 ^ nat (k - ?u))"
    using assms(2) by (simp add: power_int_def)
  finally have "round_half_even (x / 2 powi ?u) = m * 2 ^ nat (k - ?u)"
    by (simp only: round_half_even_of_int)
  moreover have "(of_int (m * 2 ^ nat (k - ?u)) :: rat) * 2 powi ?u = x"
    using \<open>x / 2 powi ?u = of_int m * 2 powi (k - ?u)\<close> assms(2)
    by (simp add: power_int_def field_simps)
  ultimately show ?thesis by (simp add: f64_def)
qed

lemma ulp_exponent_le:
  assumes "x \<noteq> 0" and "\<bar>x\<bar> < 2 powi (53 + u)" and "- 1074 \<le> u"
  shows "ulp_exponent x \<le> u"
proof -
  have "\<not> 53 + u \<le> exponent \<bar>x\<bar>"
  proof
    assume "53 + u \<le> exponent \<bar>x\<bar>"
    then have "(2 :: rat) powi (53 + u) \<le> 2 powi exponent \<bar>x\<bar>" by (rule powi_mono_rat)
    also have "\<dots> \<le> \<bar>x\<bar>" using assms(1) by (intro exponent_bounds) simp
    finally show False using assms(2) by simp
  qed
  with assms(3) show ?thesis by (simp add: ulp_exponent_def)
qed

lemma f64_of_int:
  assumes "\<bar>m\<bar> < 2 ^ 53"
  shows "f64 (of_int m) = of_int m"
proof (cases "m = 0")
  case False
  have "(of_int \<bar>m\<bar> :: rat) < of_int (2 ^ 53)" using assms by (simp only: of_int_less_iff)
  then have "\<bar>of_int m :: rat\<bar> < 2 powi (53 + 0)" by simp
  with False have "ulp_exponent (of_int m) \<le> 0" by (intro ulp_exponent_le) simp_all
  then show ?thesis by (intro f64_exact [of _ m 0]) simp_all
qed simp

lemma f64_idem_pos:
  assumes "0 < x"
  shows "f64 (f64 x) = f64 x"
proof -
  let ?u = "ulp_exponent x"
  let ?m = "round_half_even (x / 2 powi ?u)"
  have fx: "f64 x = of_int ?m * 2 powi ?u" using assms by (simp add: f64_def)
  have u: "- 1074 \<le> ?u" by (simp add: ulp_exponent_def)
  consider "f64 x = 0" | "f64 x \<noteq> 0" "f64 x < 2 powi (53 + ?u)" | "f64 x = 2 powi (53 + ?u)"
    using f64_upper [OF assms] by fastforce
  then show ?thesis
  proof cases
    case 2
    then have "\<bar>f64 x\<bar> < 2 powi (53 + ?u)" using f64_nonneg [of x] assms by simp
    with 2 u have "ulp_exponent (f64 x) \<le> ?u" by (intro ulp_exponent_le)
    with fx show ?thesis by (rule f64_exact)
  next
    case 3
    then have "\<bar>f64 x\<bar> < 2 powi (53 + (?u + 1))" by (simp add: power_int_add)
    with 3 u have "ulp_exponent (f64 x) \<le> ?u + 1" by (intro ulp_exponent_le) simp_all
    moreover from 3 have "f64 x = of_int (2 ^ 52) * 2 powi (?u + 1)" by (simp add: power_int_add)
    ultimately show ?thesis using f64_exact by blast
  qed simp
qed

lemma f64_idem [simp]: "f64 (f64 x) = f64 x"
proof (cases "0 < x")
  case False
  then have "x = 0 \<or> 0 < - x" by auto
  then show ?thesis using f64_idem_pos [of "- x"] by (auto simp: f64_minus)
qed (rule f64_idem_pos)

lemma is_f64_f64 [simp]: "is_f64 (f64 x)"
  by (simp add: is_f64_def)

lemma is_f64_of_int: "\<bar>m\<bar> < 2 ^ 53 \<Longrightarrow> is_f64 (of_int m)"
  by (simp add: is_f64_def f64_of_int)

lemma f64_le_f64: "x \<le> y \<Longrightarrow> is_f64 y \<Longrightarrow> f64 x \<le> y"
  using f64_mono [of x y] by (simp add: is_f64_def)

lemma f64_ge_f64: "y \<le> x \<Longrightarrow> is_f64 y \<Longrightarrow> y \<le> f64 x"
  using f64_mono [of y x] by (simp add: is_f64_def)

section \<open>Floating-point numbers with infinities\<close>

text \<open>
  \<open>to_float\<close> rounds an exact result and overflows to an infinity. Both zeros are \<open>Fin 0\<close>; the
  program never divides by one, and compares them as equal.
\<close>

datatype go_float = Fin rat | PInf | NInf | NaN

definition to_float :: "rat \<Rightarrow> go_float" where
  "to_float q = (if f64 q \<ge> 2 ^ 1024 then PInf else if f64 q \<le> - (2 ^ 1024) then NInf else Fin (f64 q))"

fun fl_add :: "go_float \<Rightarrow> go_float \<Rightarrow> go_float" where
  "fl_add (Fin a) (Fin b) = to_float (a + b)"
| "fl_add NaN _ = NaN"
| "fl_add _ NaN = NaN"
| "fl_add PInf NInf = NaN"
| "fl_add NInf PInf = NaN"
| "fl_add PInf _ = PInf"
| "fl_add NInf _ = NInf"
| "fl_add _ PInf = PInf"
| "fl_add _ NInf = NInf"

fun fl_sign :: "go_float \<Rightarrow> rat" where
  "fl_sign (Fin a) = sgn a"
| "fl_sign PInf = 1"
| "fl_sign NInf = - 1"
| "fl_sign NaN = 0"

text \<open>A product with an infinity has the sign of the factors; zero times infinity is NaN.\<close>

definition fl_mul :: "go_float \<Rightarrow> go_float \<Rightarrow> go_float" where
  "fl_mul x y =
     (case (x, y) of
        (Fin a, Fin b) \<Rightarrow> to_float (a * b)
      | _ \<Rightarrow> if fl_sign x * fl_sign y > 0 then PInf else if fl_sign x * fl_sign y < 0 then NInf else NaN)"

text \<open>Comparison: false when one side is NaN.\<close>

fun fl_less :: "go_float \<Rightarrow> go_float \<Rightarrow> bool" where
  "fl_less (Fin a) (Fin b) = (a < b)"
| "fl_less NaN _ = False"
| "fl_less _ NaN = False"
| "fl_less PInf _ = False"
| "fl_less _ NInf = False"
| "fl_less NInf _ = True"
| "fl_less _ PInf = True"

text \<open>
  \<^verbatim>\<open>float64(n)\<close> of a 64-bit integer, which is never infinite; \<^verbatim>\<open>math.Pow(2, n)\<close> of a natural
  number, exact until it overflows; and \<^verbatim>\<open>int64(x)\<close>, which truncates. Go leaves the result open
  for NaN and for numbers out of range; the amd64 instruction gives the smallest integer.
\<close>

definition fl_of_int :: "int \<Rightarrow> go_float" where
  "fl_of_int n = Fin (f64 (of_int n))"

definition math_Pow2 :: "nat \<Rightarrow> go_float" where
  "math_Pow2 n = (if n < 1024 then Fin (2 ^ n) else PInf)"

definition trunc :: "rat \<Rightarrow> int" where
  "trunc x = (if 0 \<le> x then \<lfloor>x\<rfloor> else - \<lfloor>- x\<rfloor>)"

definition int64_of :: "go_float \<Rightarrow> int" where
  "int64_of x =
     (case x of
        Fin q \<Rightarrow> if is_i64 (trunc q) then trunc q else - (2 ^ 63)
      | _ \<Rightarrow> - (2 ^ 63))"

lemma to_float_Fin: "\<bar>f64 q\<bar> < 2 ^ 1024 \<Longrightarrow> to_float q = Fin (f64 q)"
  by (auto simp: to_float_def abs_less_iff)

text \<open>A nonnegative result is finite or positive infinity.\<close>

lemma to_float_nonneg:
  assumes "0 \<le> q"
  obtains "to_float q = Fin (f64 q)" | "to_float q = PInf"
proof (cases "f64 q < 2 ^ 1024")
  case True
  with f64_nonneg [OF assms] show thesis by (intro that(1) to_float_Fin) simp
next
  case False
  then show thesis by (intro that(2)) (simp add: to_float_def)
qed

text \<open>Product with and quotient by a positive finite number.\<close>

fun fl_scale :: "go_float \<Rightarrow> rat \<Rightarrow> go_float" where
  "fl_scale (Fin a) q = to_float (a * q)"
| "fl_scale x _ = x"

fun fl_positive :: "go_float \<Rightarrow> bool" where
  "fl_positive (Fin a) = (a > 0)"
| "fl_positive PInf = True"
| "fl_positive _ = False"

fun fl_finite :: "go_float \<Rightarrow> bool" where
  "fl_finite (Fin _) = True"
| "fl_finite _ = False"

section \<open>Durations\<close>

text \<open>
  A \<^verbatim>\<open>time.Duration\<close> is a count of nanoseconds. \<open>Sub\<close> saturates at the ends of the
  64-bit range, and \<open>Seconds\<close> adds the whole seconds and the rest as floats.
\<close>

type_synonym duration = int

definition quot :: "int \<Rightarrow> int \<Rightarrow> int" where
  "quot a b = sgn a * sgn b * (\<bar>a\<bar> div \<bar>b\<bar>)"

definition time_Sub :: "gtime \<Rightarrow> gtime \<Rightarrow> duration" where
  "time_Sub t u = max (- (2 ^ 63)) (min (2 ^ 63 - 1) (t - u))"

definition Seconds :: "duration \<Rightarrow> rat" where
  "Seconds d =
     (let sec = quot d (10 ^ 9); nsec = d - sec * 10 ^ 9
      in f64 (f64 (of_int sec) + f64 (f64 (of_int nsec) / 10 ^ 9)))"

lemma Seconds_nonneg: "0 \<le> d \<Longrightarrow> 0 \<le> Seconds d"
proof -
  assume d: "0 \<le> d"
  have "quot d (10 ^ 9) = d div 10 ^ 9"
    using d by (cases "d = 0") (simp_all add: quot_def)
  then have "0 \<le> quot d (10 ^ 9)" and "0 \<le> d - quot d (10 ^ 9) * 10 ^ 9"
    using d by (simp_all add: minus_div_mult_eq_mod)
  then show ?thesis
    by (auto simp: Seconds_def Let_def intro!: f64_nonneg add_nonneg_nonneg divide_nonneg_nonneg)
qed

end
