(* ===== verification/Telemetry.thy ===== *)
theory Telemetry
  imports Float64 Go_Text
begin

text \<open>
  \<^verbatim>\<open>internal/telemetry\<close>: the job counters with their Prometheus rendering, and the trace
  timelines. Each method runs under its mutex and is one atomic step. The instant of a
  span and the random bytes of a trace identifier are arguments: they come from the clock
  and from \<^verbatim>\<open>crypto/rand\<close>.
\<close>

section \<open>Metrics\<close>

record Metrics =
  submitted :: int
  scheduled :: int
  running :: int
  succeeded :: int
  failed :: int
  retried :: int
  cancelled :: int
  executionCount :: int
  totalRuntimeSec :: rat

definition NewMetrics :: Metrics where
  "NewMetrics = \<lparr>submitted = 0, scheduled = 0, running = 0, succeeded = 0, failed = 0,
     retried = 0, cancelled = 0, executionCount = 0, totalRuntimeSec = 0\<rparr>"

definition IncSubmitted :: "Metrics \<Rightarrow> Metrics" where
  "IncSubmitted m = m\<lparr>submitted := i64 (submitted m + 1)\<rparr>"

definition IncScheduled :: "Metrics \<Rightarrow> Metrics" where
  "IncScheduled m = m\<lparr>scheduled := i64 (scheduled m + 1)\<rparr>"

definition IncRunning :: "Metrics \<Rightarrow> Metrics" where
  "IncRunning m = m\<lparr>running := i64 (running m + 1)\<rparr>"

definition IncSucceeded :: "Metrics \<Rightarrow> Metrics" where
  "IncSucceeded m = m\<lparr>succeeded := i64 (succeeded m + 1)\<rparr>"

definition IncFailed :: "Metrics \<Rightarrow> Metrics" where
  "IncFailed m = m\<lparr>failed := i64 (failed m + 1)\<rparr>"

definition IncRetried :: "Metrics \<Rightarrow> Metrics" where
  "IncRetried m = m\<lparr>retried := i64 (retried m + 1)\<rparr>"

definition IncCancelled :: "Metrics \<Rightarrow> Metrics" where
  "IncCancelled m = m\<lparr>cancelled := i64 (cancelled m + 1)\<rparr>"

definition ObserveRuntime :: "Metrics \<Rightarrow> duration \<Rightarrow> Metrics" where
  "ObserveRuntime m d =
     m\<lparr>executionCount := i64 (executionCount m + 1),
       totalRuntimeSec := f64 (totalRuntimeSec m + Seconds d)\<rparr>"

lemmas metric_defs =
  IncSubmitted_def IncScheduled_def IncRunning_def IncSucceeded_def IncFailed_def
  IncRetried_def IncCancelled_def ObserveRuntime_def

text \<open>\<^verbatim>\<open>%.6f\<close>: the exact value of the float rounded to six decimals, ties to even.\<close>

definition pad_zeros :: "nat \<Rightarrow> string \<Rightarrow> string" where
  "pad_zeros n s = replicate (n - length s) (CHR ''0'') @ s"

definition format_fixed :: "nat \<Rightarrow> rat \<Rightarrow> string" where
  "format_fixed p x =
     (let n = nat (round_half_even (\<bar>x\<bar> * 10 ^ p))
      in (if x < 0 then ''-'' else '''') @ utoa (n div 10 ^ p) @ ''.'' @ pad_zeros p (utoa (n mod 10 ^ p)))"

abbreviation newline :: string where
  "newline \<equiv> [char_of (10 :: nat)]"

definition RenderPrometheus :: "Metrics \<Rightarrow> string" where
  "RenderPrometheus m =
     Join newline
       [''# HELP ai_jobs_submitted_total Total submitted jobs.'',
        ''# TYPE ai_jobs_submitted_total counter'',
        ''ai_jobs_submitted_total '' @ itoa (submitted m),
        ''# HELP ai_jobs_scheduled_total Total scheduled jobs.'',
        ''# TYPE ai_jobs_scheduled_total counter'',
        ''ai_jobs_scheduled_total '' @ itoa (scheduled m),
        ''# HELP ai_jobs_running_total Total running jobs observed.'',
        ''# TYPE ai_jobs_running_total counter'',
        ''ai_jobs_running_total '' @ itoa (running m),
        ''# HELP ai_jobs_succeeded_total Total succeeded jobs.'',
        ''# TYPE ai_jobs_succeeded_total counter'',
        ''ai_jobs_succeeded_total '' @ itoa (succeeded m),
        ''# HELP ai_jobs_failed_total Total failed jobs.'',
        ''# TYPE ai_jobs_failed_total counter'',
        ''ai_jobs_failed_total '' @ itoa (failed m),
        ''# HELP ai_jobs_retried_total Total retries requested.'',
        ''# TYPE ai_jobs_retried_total counter'',
        ''ai_jobs_retried_total '' @ itoa (retried m),
        ''# HELP ai_jobs_cancelled_total Total cancelled jobs.'',
        ''# TYPE ai_jobs_cancelled_total counter'',
        ''ai_jobs_cancelled_total '' @ itoa (cancelled m),
        ''# HELP ai_job_runtime_seconds_sum Sum of job runtime seconds.'',
        ''# TYPE ai_job_runtime_seconds_sum counter'',
        ''ai_job_runtime_seconds_sum '' @ format_fixed 6 (totalRuntimeSec m),
        ''# HELP ai_job_runtime_seconds_count Count of observed executions.'',
        ''# TYPE ai_job_runtime_seconds_count counter'',
        ''ai_job_runtime_seconds_count '' @ itoa (executionCount m)] @ newline"

section \<open>Traces\<close>

record SpanRecord =
  Span_Name :: string
  Span_Timestamp :: gtime
  Span_Fields :: "(string \<times> string) list"

type_synonym Tracer = "string \<rightharpoonup> SpanRecord list"

definition NewTracer :: Tracer where
  "NewTracer = Map.empty"

definition Tracer_Add ::
  "Tracer \<Rightarrow> gtime \<Rightarrow> string \<Rightarrow> string \<Rightarrow> (string \<times> string) list \<Rightarrow> Tracer" where
  "Tracer_Add t now traceID name flds =
     (let records = (case t traceID of None \<Rightarrow> [] | Some rs \<Rightarrow> rs)
      in t(traceID \<mapsto> records @ [\<lparr>Span_Name = name, Span_Timestamp = now, Span_Fields = flds\<rparr>]))"

definition Tracer_Snapshot :: "Tracer \<Rightarrow> string \<Rightarrow> SpanRecord list" where
  "Tracer_Snapshot t traceID = (case t traceID of None \<Rightarrow> [] | Some rs \<Rightarrow> rs)"

definition hex_encode :: "8 word list \<Rightarrow> string" where
  "hex_encode bs = concat (map (\<lambda>b. hex_byte (unat b)) bs)"

text \<open>
  \<^verbatim>\<open>randomHex(16)\<close>: \<open>rnd\<close> is what \<^verbatim>\<open>rand.Read\<close> delivers, \<open>None\<close> for its error, and
  \<open>stamp\<close> the formatted instant the fallback encodes instead.
\<close>

definition randomHex :: "8 word list option \<Rightarrow> 8 word list \<Rightarrow> string" where
  "randomHex rnd stamp = (case rnd of None \<Rightarrow> hex_encode stamp | Some buf \<Rightarrow> hex_encode buf)"

definition Tracer_NewTrace :: "Tracer \<Rightarrow> gtime \<Rightarrow> string \<Rightarrow> string \<Rightarrow> Tracer" where
  "Tracer_NewTrace t now traceID rootSpan =
     Tracer_Add t now traceID rootSpan [(''event'', ''trace_created'')]"

text \<open>Adding a span appends it to its own timeline and leaves the others.\<close>

lemma Snapshot_Add:
  "Tracer_Snapshot (Tracer_Add t now tid name flds) k =
     Tracer_Snapshot t k @
     (if k = tid then [\<lparr>Span_Name = name, Span_Timestamp = now, Span_Fields = flds\<rparr>] else [])"
  by (simp add: Tracer_Snapshot_def Tracer_Add_def Let_def split: option.splits)

lemma length_hex_encode: "length (hex_encode bs) = 2 * length bs"
  by (induction bs) (simp_all add: hex_encode_def hex_byte_def)

text \<open>The float total never decreases when runtimes are not negative.\<close>

lemma ObserveRuntime_mono:
  assumes "0 \<le> d" and "is_f64 (totalRuntimeSec m)"
  shows "totalRuntimeSec m \<le> totalRuntimeSec (ObserveRuntime m d)"
  using assms Seconds_nonneg [OF assms(1)]
  by (auto simp: ObserveRuntime_def intro: f64_ge_f64)

end
