(* ===== verification/World.thy ===== *)
theory World
  imports Matcher Telemetry
begin

text \<open>
  The state the services share, and the outside world they read. \<^verbatim>\<open>time.Now\<close>,
  \<^verbatim>\<open>crypto/rand\<close> and the order of a map range are answered by an \<open>environ\<close>: the answer
  to the \<open>n\<close>-th question is any value the environment gives for \<open>n\<close>, and \<open>tick\<close> counts
  the questions. \<open>sequence\<close> is the number of calls of \<^verbatim>\<open>atomic.AddUint64\<close> made so far;
  the counter of \<^verbatim>\<open>service/id.go\<close> holds it modulo \<open>2 ^ 64\<close>.
\<close>

record environ =
  env_clock :: "nat \<Rightarrow> gtime"
  env_random :: "nat \<Rightarrow> 8 word list option"
  env_stamp :: "nat \<Rightarrow> 8 word list"
  env_order :: "nat \<Rightarrow> string list \<Rightarrow> string list"

record World =
  repo :: MemoryStore
  metrics :: Metrics
  tracer :: Tracer
  strategy :: MatchStrategy
  sequence :: nat
  environment :: environ
  tick :: nat

definition env_ok :: "environ \<Rightarrow> bool" where
  "env_ok env \<longleftrightarrow> (\<forall>n. iter_order (env_order env n))"

definition new_world :: "environ \<Rightarrow> World" where
  "new_world env = \<lparr>repo = NewMemoryStore, metrics = NewMetrics, tracer = NewTracer,
     strategy = StrategyBestFit, sequence = 0, environment = env, tick = 0\<rparr>"

section \<open>Questions to the environment\<close>

definition time_Now :: "World \<Rightarrow> gtime \<times> World" where
  "time_Now w = (env_clock (environment w) (tick w), w\<lparr>tick := Suc (tick w)\<rparr>)"

definition map_order :: "World \<Rightarrow> (string list \<Rightarrow> string list) \<times> World" where
  "map_order w = (env_order (environment w) (tick w), w\<lparr>tick := Suc (tick w)\<rparr>)"

definition random_hex :: "World \<Rightarrow> string \<times> World" where
  "random_hex w = (randomHex (env_random (environment w) (tick w)) (env_stamp (environment w) (tick w)),
     w\<lparr>tick := Suc (tick w)\<rparr>)"

section \<open>Telemetry of the services\<close>

definition count_metric :: "(Metrics \<Rightarrow> Metrics) \<Rightarrow> World \<Rightarrow> World" where
  "count_metric inc w = w\<lparr>metrics := inc (metrics w)\<rparr>"

definition trace_add :: "World \<Rightarrow> string \<Rightarrow> string \<Rightarrow> (string \<times> string) list \<Rightarrow> World" where
  "trace_add w traceID name flds =
     (let (now, w1) = time_Now w
      in w1\<lparr>tracer := Tracer_Add (tracer w1) now traceID name flds\<rparr>)"

definition new_trace :: "World \<Rightarrow> string \<Rightarrow> string \<times> World" where
  "new_trace w rootSpan =
     (let (traceID, w1) = random_hex w; (now, w2) = time_Now w1
      in (traceID, w2\<lparr>tracer := Tracer_NewTrace (tracer w2) now traceID rootSpan\<rparr>))"

section \<open>Identifiers\<close>

definition nextID :: "World \<Rightarrow> string \<Rightarrow> string \<times> World" where
  "nextID w pre =
     (let w1 = w\<lparr>sequence := Suc (sequence w)\<rparr>;
          val = sequence w1 mod 2 ^ 64;
          (now, w2) = time_Now w1
      in (pre @ ''-'' @ itoa now @ ''-'' @ utoa val, w2))"

text \<open>What the environment cannot touch.\<close>

lemma time_Now_frame [simp, frame_simps]:
  "repo (snd (time_Now w)) = repo w" "metrics (snd (time_Now w)) = metrics w"
  "tracer (snd (time_Now w)) = tracer w" "strategy (snd (time_Now w)) = strategy w"
  "sequence (snd (time_Now w)) = sequence w" "environment (snd (time_Now w)) = environment w"
  by (simp_all add: time_Now_def)

lemma map_order_frame [simp, frame_simps]:
  "repo (snd (map_order w)) = repo w" "metrics (snd (map_order w)) = metrics w"
  "tracer (snd (map_order w)) = tracer w" "strategy (snd (map_order w)) = strategy w"
  "sequence (snd (map_order w)) = sequence w" "environment (snd (map_order w)) = environment w"
  by (simp_all add: map_order_def)

lemma map_order_ok [simp]: "env_ok (environment w) \<Longrightarrow> iter_order (fst (map_order w))"
  by (simp add: map_order_def env_ok_def)

lemma count_metric_frame [simp, frame_simps]:
  "repo (count_metric inc w) = repo w" "metrics (count_metric inc w) = inc (metrics w)"
  "tracer (count_metric inc w) = tracer w" "strategy (count_metric inc w) = strategy w"
  "sequence (count_metric inc w) = sequence w" "environment (count_metric inc w) = environment w"
  by (simp_all add: count_metric_def)

lemma trace_add_frame [simp, frame_simps]:
  "repo (trace_add w tid name flds) = repo w" "metrics (trace_add w tid name flds) = metrics w"
  "strategy (trace_add w tid name flds) = strategy w"
  "sequence (trace_add w tid name flds) = sequence w"
  "environment (trace_add w tid name flds) = environment w"
  by (simp_all add: trace_add_def time_Now_def)

lemma new_trace_frame [simp, frame_simps]:
  "repo (snd (new_trace w sp)) = repo w" "metrics (snd (new_trace w sp)) = metrics w"
  "strategy (snd (new_trace w sp)) = strategy w"
  "sequence (snd (new_trace w sp)) = sequence w"
  "environment (snd (new_trace w sp)) = environment w"
  by (simp_all add: new_trace_def time_Now_def random_hex_def)

lemma nextID_frame [simp, frame_simps]:
  "repo (snd (nextID w pre)) = repo w" "metrics (snd (nextID w pre)) = metrics w"
  "tracer (snd (nextID w pre)) = tracer w" "strategy (snd (nextID w pre)) = strategy w"
  "sequence (snd (nextID w pre)) = Suc (sequence w)"
  "environment (snd (nextID w pre)) = environment w"
  by (simp_all add: nextID_def time_Now_def Let_def)

text \<open>The number an identifier ends with, read back after its last hyphen.\<close>

definition id_seq :: "string \<Rightarrow> nat" where
  "id_seq s = digits_val (last (Split CHR ''-'' s))"

lemma last_Split_append: "sep \<notin> set b \<Longrightarrow> last (Split sep (a @ sep # b)) = b"
  by (simp add: Split_append_sep Split_no_sep)

lemma id_seq_utoa: "id_seq (a @ ''-'' @ utoa n) = n"
  using last_Split_append [of "CHR ''-''" "utoa n" a] by (simp add: id_seq_def)

lemma id_seq_nextID: "id_seq (fst (nextID w pre)) = Suc (sequence w) mod 2 ^ 64"
  using id_seq_utoa [of "pre @ ''-'' @ itoa (fst (time_Now (w\<lparr>sequence := Suc (sequence w)\<rparr>)))"]
  by (simp add: nextID_def Let_def split_beta)

end
