(* ===== verification/Lifecycle.thy ===== *)
theory Lifecycle
  imports Matcher
begin

text \<open>
  The abstract specification of the platform: how the stored jobs, executions and nodes may
  change, one rule per step of a job's life, with the guards of the code and without its
  control flow. The dispatcher and the services are shown to refine it: every operation is
  a sequence of these steps (\<^verbatim>\<open>Dispatcher\<close>, \<^verbatim>\<open>Services\<close>). The invariants and the
  evolution of a job are proved here, once, by rule induction on the steps.
\<close>

section \<open>Transition systems\<close>

locale invariant_system =
  fixes step :: "'s \<Rightarrow> 's \<Rightarrow> bool" and inv :: "'s \<Rightarrow> bool"
  assumes step_inv: "inv s \<Longrightarrow> step s t \<Longrightarrow> inv t"
begin

lemma steps_inv: "step\<^sup>*\<^sup>* s t \<Longrightarrow> inv s \<Longrightarrow> inv t"
  by (induction rule: rtranclp_induct) (auto intro: step_inv)

end

locale evolution_system = invariant_system +
  fixes evolves :: "'s \<Rightarrow> 's \<Rightarrow> bool"
  assumes evolves_refl: "evolves s s"
    and evolves_trans: "evolves s t \<Longrightarrow> evolves t u \<Longrightarrow> evolves s u"
    and step_evolves: "inv s \<Longrightarrow> step s t \<Longrightarrow> evolves s t"
begin

lemma steps_evolve: "step\<^sup>*\<^sup>* s t \<Longrightarrow> inv s \<Longrightarrow> evolves s t"
proof (induction rule: rtranclp_induct)
  case (step t u)
  then have "inv t" by (blast intro: steps_inv)
  with step show ?case by (blast intro: evolves_trans step_evolves)
qed (rule evolves_refl)

end

section \<open>Changes of the store\<close>

definition find_job :: "MemoryStore \<Rightarrow> string \<Rightarrow> Job option" where
  "find_job s jid = map_of (jobs s) jid"

definition put_job :: "MemoryStore \<Rightarrow> Job \<Rightarrow> MemoryStore" where
  "put_job s job = s\<lparr>jobs := AList.update (Job_ID job) job (jobs s)\<rparr>"

definition put_execution :: "MemoryStore \<Rightarrow> Execution \<Rightarrow> MemoryStore" where
  "put_execution s ex = s\<lparr>executions := (executions s)(Exec_ID ex \<mapsto> ex)\<rparr>"

definition add_execution :: "MemoryStore \<Rightarrow> Execution \<Rightarrow> MemoryStore" where
  "add_execution s ex =
     s\<lparr>executions := (executions s)(Exec_ID ex \<mapsto> ex),
       jobIndex := (jobIndex s)(Exec_JobID ex \<mapsto> index_of s (Exec_JobID ex) @ [Exec_ID ex])\<rparr>"

definition mark_scheduled :: "gtime \<Rightarrow> string \<Rightarrow> Job \<Rightarrow> Job" where
  "mark_scheduled t nid job =
     (let job1 = job\<lparr>Job_Status := JobStatusScheduled, Job_UpdatedAt := t\<rparr>
      in if nid \<noteq> '''' then
           job1\<lparr>Job_Metadata := Some (AList.update ''assigned_node'' nid (map_entries (Job_Metadata job1)))\<rparr>
         else job1)"

lemma find_put_job [simp]:
  "find_job (put_job s job) jid = (if jid = Job_ID job then Some job else find_job s jid)"
  by (simp add: find_job_def put_job_def)

lemma find_job_frame [simp]:
  "find_job (put_execution s ex) jid = find_job s jid"
  "find_job (add_execution s ex) jid = find_job s jid"
  by (simp_all add: find_job_def put_execution_def add_execution_def)

lemma executions_frame [simp]:
  "executions (put_job s job) = executions s"
  "executions (put_execution s ex) = (executions s)(Exec_ID ex \<mapsto> ex)"
  "executions (add_execution s ex) = (executions s)(Exec_ID ex \<mapsto> ex)"
  by (simp_all add: put_job_def put_execution_def add_execution_def)

lemma index_of_frame [simp]:
  "index_of (put_job s job) jid = index_of s jid"
  "index_of (put_execution s ex) jid = index_of s jid"
  "index_of (add_execution s ex) jid =
     (if jid = Exec_JobID ex then index_of s jid @ [Exec_ID ex] else index_of s jid)"
  by (simp_all add: index_of_def put_job_def put_execution_def add_execution_def)

lemma nodes_frame [simp]:
  "nodes (put_job s job) = nodes s" "nodes (put_execution s ex) = nodes s"
  "nodes (add_execution s ex) = nodes s"
  by (simp_all add: put_job_def put_execution_def add_execution_def)

lemma jobs_frame [simp]:
  "jobs (put_execution s ex) = jobs s" "jobs (add_execution s ex) = jobs s"
  by (simp_all add: put_execution_def add_execution_def)

lemma mark_scheduled_simps [simp]:
  "Job_ID (mark_scheduled t nid job) = Job_ID job"
  "Job_Status (mark_scheduled t nid job) = JobStatusScheduled"
  "Job_RetryCount (mark_scheduled t nid job) = Job_RetryCount job"
  "Job_MaxRetries (mark_scheduled t nid job) = Job_MaxRetries job"
  "Job_ResourceSpec (mark_scheduled t nid job) = Job_ResourceSpec job"
  "Job_TraceID (mark_scheduled t nid job) = Job_TraceID job"
  "Job_Executor (mark_scheduled t nid job) = Job_Executor job"
  by (simp_all add: mark_scheduled_def Let_def)

section \<open>The steps\<close>

definition job_new :: "Job \<Rightarrow> bool" where
  "job_new job \<longleftrightarrow>
     Job_Status job = JobStatusPending \<and> Job_RetryCount job = 0 \<and>
     0 \<le> Job_MaxRetries job \<and> is_i64 (Job_MaxRetries job) \<and> 0 \<le> Spec_GPU (Job_ResourceSpec job)"

definition exec_new :: "Job \<Rightarrow> Execution \<Rightarrow> bool" where
  "exec_new job ex \<longleftrightarrow>
     Exec_JobID ex = Job_ID job \<and> Exec_Attempt ex = i64 (Job_RetryCount job + 1) \<and>
     Exec_Status ex = ExecutionStatusRunning"

definition exec_done :: "Execution \<Rightarrow> ExecutionStatus \<Rightarrow> Execution \<Rightarrow> bool" where
  "exec_done ex st ex' \<longleftrightarrow>
     Exec_Status ex = ExecutionStatusRunning \<and> Exec_Status ex' = st \<and>
     Exec_ID ex' = Exec_ID ex \<and> Exec_JobID ex' = Exec_JobID ex \<and> Exec_Attempt ex' = Exec_Attempt ex"

inductive lifecycle_step :: "MemoryStore \<Rightarrow> MemoryStore \<Rightarrow> bool" where
  submit: "find_job s (Job_ID job) = None \<Longrightarrow> job_new job \<Longrightarrow> lifecycle_step s (put_job s job)"
| schedule_cpu: "find_job s jid = Some job \<Longrightarrow> CanSchedule job \<Longrightarrow> Spec_GPU (Job_ResourceSpec job) \<le> 0 \<Longrightarrow>
    lifecycle_step s (put_job s (mark_scheduled t '''' job))"
| schedule_gpu: "find_job s jid = Some job \<Longrightarrow> CanSchedule job \<Longrightarrow> 0 < Spec_GPU (Job_ResourceSpec job) \<Longrightarrow>
    map_of (nodes s) nid = Some node \<Longrightarrow> node_fits (Job_ResourceSpec job) node \<Longrightarrow>
    Memory_AllocateGPU s nid (Spec_GPU (Job_ResourceSpec job)) = Inr s1 \<Longrightarrow>
    lifecycle_step s (put_job s1 (mark_scheduled t nid job))"
| start: "find_job s jid = Some job \<Longrightarrow> CanRun job \<Longrightarrow> executions s (Exec_ID ex) = None \<Longrightarrow> exec_new job ex \<Longrightarrow>
    lifecycle_step s (put_job (add_execution s ex) (job\<lparr>Job_Status := JobStatusRunning, Job_UpdatedAt := t\<rparr>))"
| succeed: "find_job s jid = Some job \<Longrightarrow> Job_Status job = JobStatusRunning \<Longrightarrow>
    executions s eid = Some ex \<Longrightarrow> Exec_JobID ex = jid \<Longrightarrow> exec_done ex ExecutionStatusSucceeded ex' \<Longrightarrow>
    lifecycle_step s (put_job (put_execution s ex')
      (job\<lparr>Job_Status := JobStatusSucceeded, Job_UpdatedAt := t, Job_LastError := ''''\<rparr>))"
| retry: "find_job s jid = Some job \<Longrightarrow> Job_Status job = JobStatusRunning \<Longrightarrow> Scheduler_CanRetry job \<Longrightarrow>
    executions s eid = Some ex \<Longrightarrow> Exec_JobID ex = jid \<Longrightarrow> exec_done ex ExecutionStatusFailed ex' \<Longrightarrow>
    lifecycle_step s (put_job (put_execution s ex') (MarkRetrying t job msg))"
| fail: "find_job s jid = Some job \<Longrightarrow> Job_Status job = JobStatusRunning \<Longrightarrow> \<not> Scheduler_CanRetry job \<Longrightarrow>
    executions s eid = Some ex \<Longrightarrow> Exec_JobID ex = jid \<Longrightarrow> exec_done ex ExecutionStatusFailed ex' \<Longrightarrow>
    lifecycle_step s (put_job (put_execution s ex')
      (job\<lparr>Job_Status := JobStatusFailed, Job_LastError := msg, Job_UpdatedAt := t\<rparr>))"
| cancel: "find_job s jid = Some job \<Longrightarrow> CanCancel job \<Longrightarrow>
    lifecycle_step s (put_job s (job\<lparr>Job_Status := JobStatusCancelled, Job_UpdatedAt := t\<rparr>))"
| requeue: "find_job s jid = Some job \<Longrightarrow> CanRetry job \<Longrightarrow>
    lifecycle_step s (put_job s (job\<lparr>Job_Status := JobStatusPending, Job_LastError := '''', Job_UpdatedAt := t\<rparr>))"

section \<open>Invariants\<close>

definition job_ok :: "Job \<Rightarrow> bool" where
  "job_ok job \<longleftrightarrow>
     0 \<le> Job_RetryCount job \<and> Job_RetryCount job \<le> Job_MaxRetries job \<and> is_i64 (Job_MaxRetries job) \<and>
     0 \<le> Spec_GPU (Job_ResourceSpec job) \<and>
     (Job_Status job = JobStatusRetrying \<longrightarrow> 0 < Job_RetryCount job)"

definition jobs_ok :: "MemoryStore \<Rightarrow> bool" where
  "jobs_ok s \<longleftrightarrow> (\<forall>jid job. find_job s jid = Some job \<longrightarrow> job_ok job)"

text \<open>
  The executions agree with the jobs: an execution belongs to a stored job and its attempt
  number is at most the retries counted so far plus one; a running job has exactly one
  running execution, and a job in any other status (or no job at all) has none.
\<close>

definition running_of :: "MemoryStore \<Rightarrow> string \<Rightarrow> string set" where
  "running_of s jid =
     {eid. \<exists>ex. executions s eid = Some ex \<and> Exec_JobID ex = jid \<and> Exec_Status ex = ExecutionStatusRunning}"

definition is_running :: "MemoryStore \<Rightarrow> string \<Rightarrow> bool" where
  "is_running s jid \<longleftrightarrow> (\<exists>job. find_job s jid = Some job \<and> Job_Status job = JobStatusRunning)"

definition attempts_ok :: "MemoryStore \<Rightarrow> bool" where
  "attempts_ok s \<longleftrightarrow>
     (\<forall>eid ex. executions s eid = Some ex \<longrightarrow>
        (\<exists>job. find_job s (Exec_JobID ex) = Some job \<and> Exec_Attempt ex \<le> Job_RetryCount job + 1))"

definition runs_ok :: "MemoryStore \<Rightarrow> bool" where
  "runs_ok s \<longleftrightarrow>
     (\<forall>jid. (is_running s jid \<longrightarrow> (\<exists>eid. running_of s jid = {eid})) \<and>
            (\<not> is_running s jid \<longrightarrow> running_of s jid = {})) \<and> attempts_ok s"

definition store_ok :: "MemoryStore \<Rightarrow> bool" where
  "store_ok s \<longleftrightarrow> store_wf s \<and> gpu_wf s \<and> jobs_ok s \<and> runs_ok s"

lemma store_ok_new: "store_ok NewMemoryStore"
  unfolding store_ok_def
  by (intro conjI store_wf_new) (simp_all add: gpu_wf_def jobs_ok_def runs_ok_def attempts_ok_def
      is_running_def running_of_def find_job_def NewMemoryStore_def)

lemma find_job_key: "store_wf s \<Longrightarrow> find_job s jid = Some job \<Longrightarrow> Job_ID job = jid"
  by (simp add: find_job_def job_key)

lemma store_wf_put_job' [inv_intros]: "store_wf s \<Longrightarrow> store_wf (put_job s job)"
  by (simp add: put_job_def store_wf_put_job)

lemma execs_wf_D:
  assumes "execs_wf s"
  shows "executions s eid = Some ex \<Longrightarrow> Exec_ID ex = eid"
    and "executions s eid = Some ex \<Longrightarrow> eid \<in> set (index_of s jid) \<longleftrightarrow> Exec_JobID ex = jid"
    and "eid \<in> set (index_of s jid) \<Longrightarrow> \<exists>ex. executions s eid = Some ex"
  using assms by (force simp: execs_wf_def)+

lemma store_wf_put_execution [inv_intros]:
  assumes "store_wf s" and "executions s (Exec_ID ex') = Some ex" and "Exec_JobID ex' = Exec_JobID ex"
  shows "store_wf (put_execution s ex')"
proof -
  note D = execs_wf_D [OF store_wf_D(3) [OF assms(1)]]
  have "execs_wf (put_execution s ex')"
    using assms(2,3) D(1,2) by (auto simp: execs_wf_def) (metis D(2,3))
  with assms(1) show ?thesis by (simp add: store_wf_def)
qed

lemma store_wf_add_execution [inv_intros]:
  "store_wf s \<Longrightarrow> executions s (Exec_ID ex) = None \<Longrightarrow> store_wf (add_execution s ex)"
  by (fastforce simp: store_wf_def execs_wf_def)

lemma gpu_wf_frame [simp]:
  "gpu_wf (put_job s job) = gpu_wf s" "gpu_wf (put_execution s ex) = gpu_wf s"
  "gpu_wf (add_execution s ex) = gpu_wf s"
  by (simp_all add: gpu_wf_def)

lemma jobs_ok_put_job [inv_intros]: "jobs_ok s \<Longrightarrow> job_ok job \<Longrightarrow> jobs_ok (put_job s job)"
  by (simp add: jobs_ok_def)

lemma jobs_ok_frame [simp]:
  "jobs_ok (put_execution s ex) = jobs_ok s" "jobs_ok (add_execution s ex) = jobs_ok s"
  by (simp_all add: jobs_ok_def)

lemma jobs_ok_find: "jobs_ok s \<Longrightarrow> find_job s jid = Some job \<Longrightarrow> job_ok job"
  by (auto simp: jobs_ok_def)

lemma Memory_AllocateGPU_jobs:
  "Memory_AllocateGPU s nid c = Inr s' \<Longrightarrow>
   jobs s' = jobs s \<and> executions s' = executions s \<and> jobIndex s' = jobIndex s"
  by (auto elim: Memory_AllocateGPU_Inr)

lemma find_job_allocate: "Memory_AllocateGPU s nid c = Inr s' \<Longrightarrow> find_job s' = find_job s"
  by (auto simp: find_job_def fun_eq_iff dest: Memory_AllocateGPU_jobs)

lemma jobs_ok_allocate: "Memory_AllocateGPU s nid c = Inr s' \<Longrightarrow> jobs_ok s' = jobs_ok s"
  by (simp add: jobs_ok_def find_job_allocate)

lemma job_ok_MarkRetrying: "job_ok job \<Longrightarrow> Scheduler_CanRetry job \<Longrightarrow> job_ok (MarkRetrying t job msg)"
  by (auto simp: job_ok_def Scheduler_CanRetry_def MarkRetrying_def is_i64_def)

lemma store_wf_exec_done [inv_intros]:
  assumes "store_wf s" and "executions s eid = Some ex" and "exec_done ex st ex'"
  shows "store_wf (put_execution s ex')"
  using assms execs_wf_D(1) [OF store_wf_D(3) [OF assms(1)] assms(2)]
  by (intro store_wf_put_execution) (auto simp: exec_done_def)

lemma lifecycle_store_wf: "lifecycle_step s t \<Longrightarrow> store_wf s \<Longrightarrow> store_wf t"
  by (induction rule: lifecycle_step.induct) (blast intro: inv_intros)+

lemma job_ok_new: "job_new job \<Longrightarrow> job_ok job"
  by (simp add: job_new_def job_ok_def)

lemma job_ok_status:
  assumes "job_ok job" and "Job_RetryCount job' = Job_RetryCount job" and "Job_MaxRetries job' = Job_MaxRetries job"
    and "Job_ResourceSpec job' = Job_ResourceSpec job" and "Job_Status job' \<noteq> JobStatusRetrying"
  shows "job_ok job'"
  using assms by (simp add: job_ok_def)

lemma lifecycle_jobs_ok: "lifecycle_step s t \<Longrightarrow> jobs_ok s \<Longrightarrow> jobs_ok t"
  by (induction rule: lifecycle_step.induct)
    (auto intro!: jobs_ok_put_job intro: job_ok_status [OF jobs_ok_find] job_ok_MarkRetrying jobs_ok_find
       simp: jobs_ok_allocate job_ok_new)

lemma lifecycle_gpu_wf: "lifecycle_step s t \<Longrightarrow> jobs_ok s \<Longrightarrow> gpu_wf s \<Longrightarrow> gpu_wf t"
  by (induction rule: lifecycle_step.induct) (auto intro: Memory_AllocateGPU_gpu less_imp_le)

text \<open>How the running executions of a job change with the store.\<close>

lemma running_of_frame [simp]: "running_of (put_job s job) jid = running_of s jid"
  by (simp add: running_of_def)

lemma running_of_start:
  "executions s (Exec_ID ex) = None \<Longrightarrow> exec_new job ex \<Longrightarrow>
   running_of (add_execution s ex) jid =
     (if jid = Job_ID job then insert (Exec_ID ex) (running_of s jid) else running_of s jid)"
  by (auto simp: running_of_def exec_new_def)

lemma running_of_done:
  "executions s eid = Some ex \<Longrightarrow> Exec_ID ex = eid \<Longrightarrow> exec_done ex st ex' \<Longrightarrow>
   st \<noteq> ExecutionStatusRunning \<Longrightarrow>
   running_of (put_execution s ex') jid = running_of s jid - {eid}"
  by (auto simp: running_of_def exec_done_def)

lemma is_running_put_job [simp]:
  "is_running (put_job s job) jid =
     (if jid = Job_ID job then Job_Status job = JobStatusRunning else is_running s jid)"
  by (simp add: is_running_def)

lemma is_running_frame [simp]:
  "is_running (put_execution s ex) jid = is_running s jid"
  "is_running (add_execution s ex) jid = is_running s jid"
  by (simp_all add: is_running_def)

lemma attempts_ok_put_job:
  assumes "attempts_ok s" and "\<And>old. find_job s (Job_ID job) = Some old \<Longrightarrow> Job_RetryCount old \<le> Job_RetryCount job"
  shows "attempts_ok (put_job s job)"
  using assms by (fastforce simp: attempts_ok_def)

lemma attempts_ok_put_execution:
  "attempts_ok s \<Longrightarrow> executions s (Exec_ID ex') = Some ex \<Longrightarrow> Exec_JobID ex' = Exec_JobID ex \<Longrightarrow>
   Exec_Attempt ex' = Exec_Attempt ex \<Longrightarrow> attempts_ok (put_execution s ex')"
  by (auto simp: attempts_ok_def)

lemma attempts_ok_add_execution:
  "attempts_ok s \<Longrightarrow> find_job s (Exec_JobID ex) = Some job \<Longrightarrow> Exec_Attempt ex \<le> Job_RetryCount job + 1 \<Longrightarrow>
   attempts_ok (add_execution s ex)"
  by (auto simp: attempts_ok_def)

lemma runs_ok_D:
  assumes "runs_ok s"
  shows "is_running s jid \<Longrightarrow> eid \<in> running_of s jid \<Longrightarrow> running_of s jid = {eid}"
    and "\<not> is_running s jid \<Longrightarrow> running_of s jid = {}"
    and "attempts_ok s"
  using assms by (auto simp: runs_ok_def)

lemma runs_ok_put_idle:
  assumes "runs_ok s" and "\<not> is_running s (Job_ID job)" and "Job_Status job \<noteq> JobStatusRunning"
    and "\<And>old. find_job s (Job_ID job) = Some old \<Longrightarrow> Job_RetryCount old \<le> Job_RetryCount job"
  shows "runs_ok (put_job s job)"
  using assms by (auto simp: runs_ok_def attempts_ok_put_job)

lemma i64_le: "0 \<le> z \<Longrightarrow> i64 (z + 1) \<le> z + 1"
  using zmod_le_nonneg_dividend [of "z + 1 + 2 ^ 63" "2 ^ 64"] by (simp add: i64_def add.commute)

lemma runs_ok_start:
  assumes "store_wf s" and "runs_ok s" and "jobs_ok s" and "find_job s jid = Some job" and "CanRun job"
    and "executions s (Exec_ID ex) = None" and "exec_new job ex"
  shows "runs_ok (put_job (add_execution s ex) (job\<lparr>Job_Status := JobStatusRunning, Job_UpdatedAt := t\<rparr>))"
proof -
  have key: "Job_ID job = jid" using assms(1,4) by (rule find_job_key)
  then have "\<not> is_running s (Job_ID job)" using assms(4,5) by (simp add: is_running_def CanRun_def)
  then have "running_of s (Job_ID job) = {}" by (rule runs_ok_D(2) [OF assms(2)])
  moreover have "Exec_Attempt ex \<le> Job_RetryCount job + 1"
    using jobs_ok_find [OF assms(3,4)] assms(7) by (simp add: exec_new_def job_ok_def i64_le)
  then have "attempts_ok (add_execution s ex)"
    using assms(2,4,7) key by (intro attempts_ok_add_execution runs_ok_D(3)) (auto simp: exec_new_def)
  ultimately show ?thesis
    using assms key by (auto simp: runs_ok_def running_of_start intro!: attempts_ok_put_job)
qed

lemma runs_ok_done:
  assumes "store_wf s" and "runs_ok s" and "find_job s jid = Some job" and "Job_Status job = JobStatusRunning"
    and "executions s eid = Some ex" and "Exec_JobID ex = jid" and "exec_done ex st ex'"
    and "st \<noteq> ExecutionStatusRunning" and "Job_ID job' = Job_ID job" and "Job_Status job' \<noteq> JobStatusRunning"
    and "Job_RetryCount job \<le> Job_RetryCount job'"
  shows "runs_ok (put_job (put_execution s ex') job')"
proof -
  have key: "Job_ID job = jid" using assms(1,3) by (rule find_job_key)
  have eid: "Exec_ID ex = eid" using assms(5) by (rule execs_wf_D(1) [OF store_wf_D(3) [OF assms(1)]])
  have "eid \<in> running_of s jid" using assms(5-7) by (auto simp: running_of_def exec_done_def)
  moreover have "is_running s jid" using assms(3,4) by (simp add: is_running_def)
  ultimately have one: "running_of s jid = {eid}" by (intro runs_ok_D [OF assms(2)])
  have other: "eid \<notin> running_of s k" if "k \<noteq> jid" for k
    using that assms(5,6) by (auto simp: running_of_def)
  have "attempts_ok (put_execution s ex')"
    using assms eid by (intro attempts_ok_put_execution runs_ok_D(3)) (auto simp: exec_done_def)
  with assms key one other show ?thesis
    by (auto simp: runs_ok_def running_of_done [OF assms(5) eid assms(7,8)] intro!: attempts_ok_put_job)
qed

lemma runs_ok_frame_allocate:
  "Memory_AllocateGPU s nid c = Inr s' \<Longrightarrow> runs_ok s' = runs_ok s"
  by (simp add: runs_ok_def attempts_ok_def is_running_def running_of_def find_job_allocate
        Memory_AllocateGPU_jobs)

lemma lifecycle_runs_ok:
  "lifecycle_step s t \<Longrightarrow> store_wf s \<Longrightarrow> jobs_ok s \<Longrightarrow> runs_ok s \<Longrightarrow> runs_ok t"
proof (induction rule: lifecycle_step.induct)
  case (submit s job)
  then show ?case by (intro runs_ok_put_idle) (auto simp: is_running_def job_new_def)
next
  case (schedule_cpu s jid job t)
  then show ?case
    by (intro runs_ok_put_idle) (auto simp: is_running_def CanSchedule_def find_job_key)
next
  case (schedule_gpu s jid job nid node s1 t)
  then show ?case
    by (intro runs_ok_put_idle)
      (auto simp: is_running_def CanSchedule_def find_job_key find_job_allocate runs_ok_frame_allocate)
next
  case (start s jid job ex t)
  then show ?case by (intro runs_ok_start)
next
  case (succeed s jid job eid ex ex' t)
  then show ?case by (intro runs_ok_done [where st = ExecutionStatusSucceeded]) auto
next
  case (retry s jid job eid ex ex' t msg)
  have "job_ok job" using retry.prems(2) retry.hyps(1) by (rule jobs_ok_find)
  then have "Job_RetryCount job \<le> Job_RetryCount (MarkRetrying t job msg)"
    using retry.hyps(3) by (auto simp: job_ok_def MarkRetrying_def Scheduler_CanRetry_def is_i64_def)
  with retry show ?case
    by (intro runs_ok_done [where st = ExecutionStatusFailed]) (auto simp: MarkRetrying_def)
next
  case (fail s jid job eid ex ex' t msg)
  then show ?case by (intro runs_ok_done [where st = ExecutionStatusFailed]) auto
next
  case (cancel s jid job t)
  then show ?case
    by (intro runs_ok_put_idle) (auto simp: is_running_def CanCancel_def find_job_key)
next
  case (requeue s jid job t)
  then show ?case
    by (intro runs_ok_put_idle) (auto simp: is_running_def CanRetry_def find_job_key)
qed

section \<open>How a job evolves\<close>

inductive status_move :: "JobStatus \<Rightarrow> JobStatus \<Rightarrow> bool" where
  "status_move JobStatusPending JobStatusScheduled"
| "status_move JobStatusRetrying JobStatusScheduled"
| "status_move JobStatusScheduled JobStatusRunning"
| "status_move JobStatusRunning JobStatusSucceeded"
| "status_move JobStatusRunning JobStatusRetrying"
| "status_move JobStatusRunning JobStatusFailed"
| "status_move JobStatusPending JobStatusCancelled"
| "status_move JobStatusScheduled JobStatusCancelled"
| "status_move JobStatusRetrying JobStatusCancelled"
| "status_move JobStatusFailed JobStatusPending"
| "status_move JobStatusRetrying JobStatusPending"

code_pred status_move .

inductive_simps status_move_iff: "status_move a b"
inductive_cases status_move_SucceededE: "status_move JobStatusSucceeded b"
inductive_cases status_move_CancelledE: "status_move JobStatusCancelled b"

lemma status_moves_final:
  assumes "status_move\<^sup>*\<^sup>* a b"
  shows "a = JobStatusSucceeded \<or> a = JobStatusCancelled \<Longrightarrow> b = a"
  using assms
  by (induction rule: rtranclp_induct) (auto elim: status_move_SucceededE status_move_CancelledE)

text \<open>
  What a job asked for never changes; only its progress does. Of the metadata of the request,
  the scheduler writes one entry, the name of the node; every other entry stays as it is.
\<close>

definition other_metadata :: "Job \<Rightarrow> (string \<times> string) list" where
  "other_metadata job = AList.delete ''assigned_node'' (map_entries (Job_Metadata job))"

definition same_fields :: "Job \<Rightarrow> Job \<Rightarrow> bool" where
  "same_fields job job' \<longleftrightarrow>
     job'\<lparr>Job_Status := Job_Status job, Job_Metadata := Job_Metadata job,
          Job_RetryCount := Job_RetryCount job, Job_LastError := Job_LastError job,
          Job_UpdatedAt := Job_UpdatedAt job\<rparr> = job"

definition same_request :: "Job \<Rightarrow> Job \<Rightarrow> bool" where
  "same_request job job' \<longleftrightarrow> same_fields job job' \<and> other_metadata job' = other_metadata job"

definition job_evolves :: "Job \<Rightarrow> Job \<Rightarrow> bool" where
  "job_evolves job job' \<longleftrightarrow>
     same_request job job' \<and> status_move\<^sup>*\<^sup>* (Job_Status job) (Job_Status job') \<and>
     Job_RetryCount job \<le> Job_RetryCount job'"

definition exec_evolves :: "Execution \<Rightarrow> Execution \<Rightarrow> bool" where
  "exec_evolves ex ex' \<longleftrightarrow>
     ex' = ex \<or> exec_done ex ExecutionStatusSucceeded ex' \<or> exec_done ex ExecutionStatusFailed ex'"

definition node_evolves :: "Node \<Rightarrow> Node \<Rightarrow> bool" where
  "node_evolves node node' \<longleftrightarrow>
     node' = set_avail node (Res_AvailGPU (Node_Resource node')) \<and>
     Res_AvailGPU (Node_Resource node') \<le> Res_AvailGPU (Node_Resource node)"

definition nodes_evolve :: "MemoryStore \<Rightarrow> MemoryStore \<Rightarrow> bool" where
  "nodes_evolve s t \<longleftrightarrow> (\<forall>nid. rel_option node_evolves (map_of (nodes s) nid) (map_of (nodes t) nid))"

text \<open>Every entry of one map has a related entry in the other.\<close>

definition entries_evolve :: "('v \<Rightarrow> 'v \<Rightarrow> bool) \<Rightarrow> (string \<rightharpoonup> 'v) \<Rightarrow> (string \<rightharpoonup> 'v) \<Rightarrow> bool" where
  "entries_evolve R m m' \<longleftrightarrow> (\<forall>k v. m k = Some v \<longrightarrow> (\<exists>v'. m' k = Some v' \<and> R v v'))"

definition store_evolves :: "MemoryStore \<Rightarrow> MemoryStore \<Rightarrow> bool" where
  "store_evolves s t \<longleftrightarrow>
     entries_evolve job_evolves (find_job s) (find_job t) \<and>
     entries_evolve exec_evolves (executions s) (executions t) \<and> nodes_evolve s t"

lemma entries_evolve_refl: "(\<And>v. R v v) \<Longrightarrow> entries_evolve R m m"
  by (simp add: entries_evolve_def)

lemma entries_evolve_trans:
  assumes "\<And>a b c. R a b \<Longrightarrow> R b c \<Longrightarrow> R a c" and "entries_evolve R m m'" and "entries_evolve R m' m''"
  shows "entries_evolve R m m''"
  unfolding entries_evolve_def
proof (intro allI impI)
  fix k v
  assume "m k = Some v"
  with assms(2) obtain v' where v': "m' k = Some v'" "R v v'" by (auto simp: entries_evolve_def)
  with assms(3) obtain v'' where "m'' k = Some v''" "R v' v''" by (auto simp: entries_evolve_def)
  with v'(2) assms(1) show "\<exists>v''. m'' k = Some v'' \<and> R v v''" by blast
qed

lemma entries_evolve_find: "entries_evolve R m m' \<Longrightarrow> m k = Some v \<Longrightarrow> \<exists>v'. m' k = Some v' \<and> R v v'"
  by (simp add: entries_evolve_def)

lemma same_fields_refl [simp]: "same_fields job job"
  by (simp add: same_fields_def)

lemma same_fields_trans: "same_fields a b \<Longrightarrow> same_fields b c \<Longrightarrow> same_fields a c"
  unfolding same_fields_def by (cases a; cases b; cases c) simp

lemma same_request_refl [simp]: "same_request job job"
  by (simp add: same_request_def)

lemma same_request_trans: "same_request a b \<Longrightarrow> same_request b c \<Longrightarrow> same_request a c"
  by (auto simp: same_request_def intro: same_fields_trans)

lemma same_request_fields: "same_request a b \<Longrightarrow> same_fields a b"
  by (simp add: same_request_def)

lemma job_evolves_refl [simp]: "job_evolves job job"
  by (simp add: job_evolves_def)

lemma job_evolves_trans: "job_evolves a b \<Longrightarrow> job_evolves b c \<Longrightarrow> job_evolves a c"
  by (auto simp: job_evolves_def intro: same_request_trans)

lemma exec_evolves_trans: "exec_evolves a b \<Longrightarrow> exec_evolves b c \<Longrightarrow> exec_evolves a c"
  by (auto simp: exec_evolves_def exec_done_def)

lemma node_evolves_refl [simp]: "node_evolves node node"
  by (simp add: node_evolves_def)

lemma node_evolves_trans: "node_evolves a b \<Longrightarrow> node_evolves b c \<Longrightarrow> node_evolves a c"
  unfolding node_evolves_def by (metis order_trans set_avail_twice)

lemma nodes_evolve_same [simp]: "nodes t = nodes s \<Longrightarrow> nodes_evolve s t"
  by (simp add: nodes_evolve_def option.rel_refl)

lemma nodes_evolve_trans: "nodes_evolve s t \<Longrightarrow> nodes_evolve t u \<Longrightarrow> nodes_evolve s u"
  unfolding nodes_evolve_def
  by (rule allI, drule spec, drule spec) (rule transpD [OF option.rel_transp]; auto intro: transpI node_evolves_trans)

lemma nodes_evolve_avail: "nodes_evolve s t \<Longrightarrow> avail_gpu t nid \<le> avail_gpu s nid"
  by (auto simp: nodes_evolve_def avail_gpu_def node_evolves_def dest!: spec [of _ nid]
        split: option.splits)

lemma nodes_evolve_allocate:
  assumes "gpu_wf s" and "0 \<le> c" and "Memory_AllocateGPU s nid c = Inr s'"
  shows "nodes_evolve s s'"
  using assms(3)
proof (rule Memory_AllocateGPU_Inr)
  fix node :: Node
  assume node: "map_of (nodes s) nid = Some node" and c: "c \<le> Res_AvailGPU (Node_Resource node)"
    and s': "s' = s\<lparr>nodes := AList.update nid (set_avail node (i64 (Res_AvailGPU (Node_Resource node) - c))) (nodes s)\<rparr>"
  have "i64 (Res_AvailGPU (Node_Resource node) - c) = Res_AvailGPU (Node_Resource node) - c"
    using gpu_wf_node [OF assms(1) node] assms(2) c by (rule node_ok_sub)
  with node assms(2) show ?thesis
    by (simp add: nodes_evolve_def s' option.rel_refl) (simp add: node_evolves_def)
qed

lemma nodes_evolve_cong [simp]:
  "nodes_evolve s (put_job t job) = nodes_evolve s t"
  "nodes_evolve s (put_execution t ex) = nodes_evolve s t"
  "nodes_evolve s (add_execution t ex) = nodes_evolve s t"
  by (simp_all add: nodes_evolve_def)

lemma store_evolves_refl: "store_evolves s s"
  by (simp add: store_evolves_def entries_evolve_refl exec_evolves_def)

lemma store_evolves_trans: "store_evolves s t \<Longrightarrow> store_evolves t u \<Longrightarrow> store_evolves s u"
  unfolding store_evolves_def
  by (meson entries_evolve_trans job_evolves_trans exec_evolves_trans nodes_evolve_trans)

lemma entries_evolve_put_job:
  "find_job t = find_job s \<Longrightarrow>
   (\<And>job. find_job s (Job_ID job') = Some job \<Longrightarrow> job_evolves job job') \<Longrightarrow>
   entries_evolve job_evolves (find_job s) (find_job (put_job t job'))"
  by (simp add: entries_evolve_def)

lemma find_job_execution [simp]: "find_job (put_execution s ex) = find_job s" "find_job (add_execution s ex) = find_job s"
  by (simp_all add: fun_eq_iff)

lemma job_evolves_move:
  "status_move (Job_Status job) (Job_Status job') \<Longrightarrow> same_request job job' \<Longrightarrow>
   Job_RetryCount job \<le> Job_RetryCount job' \<Longrightarrow> job_evolves job job'"
  by (simp add: job_evolves_def r_into_rtranclp)

lemma same_request_mark_scheduled: "same_request job (mark_scheduled t nid job)"
  by (simp add: same_request_def same_fields_def other_metadata_def mark_scheduled_def Let_def delete_update_same)

lemma same_request_MarkRetrying: "same_request job (MarkRetrying t job msg)"
  by (simp add: same_request_def same_fields_def other_metadata_def MarkRetrying_def)

lemmas same_fields_mark_scheduled = same_request_mark_scheduled [THEN same_request_fields]
lemmas same_fields_MarkRetrying = same_request_MarkRetrying [THEN same_request_fields]

lemma MarkRetrying_count:
  "job_ok job \<Longrightarrow> Scheduler_CanRetry job \<Longrightarrow> Job_RetryCount (MarkRetrying t job msg) = Job_RetryCount job + 1"
  by (auto simp: job_ok_def MarkRetrying_def Scheduler_CanRetry_def is_i64_def)

lemma execs_evolve_done:
  assumes "store_wf s" and "executions s eid = Some ex" and "exec_done ex st ex'"
    and "st = ExecutionStatusSucceeded \<or> st = ExecutionStatusFailed"
  shows "entries_evolve exec_evolves (executions s) (executions (put_execution s ex'))"
proof -
  have "Exec_ID ex = eid" using assms(2) by (rule execs_wf_D(1) [OF store_wf_D(3) [OF assms(1)]])
  with assms(2-4) show ?thesis by (auto simp: entries_evolve_def exec_evolves_def exec_done_def)
qed

lemma execs_evolve_refl [simp]: "entries_evolve exec_evolves m m"
  by (rule entries_evolve_refl) (simp add: exec_evolves_def)

text \<open>A step replaces one stored job by the job it evolves to.\<close>

lemma store_evolves_put_job:
  assumes "store_wf s" and "find_job s jid = Some job" and "find_job t = find_job s" and "Job_ID job' = Job_ID job"
    and "status_move (Job_Status job) (Job_Status job')" and "same_request job job'"
    and "Job_RetryCount job \<le> Job_RetryCount job'"
    and "entries_evolve exec_evolves (executions s) (executions t)" and "nodes_evolve s t"
  shows "store_evolves s (put_job t job')"
proof -
  have "Job_ID job' = jid" using find_job_key [OF assms(1,2)] assms(4) by simp
  then show ?thesis
    using assms by (auto simp: store_evolves_def intro!: entries_evolve_put_job job_evolves_move)
qed

lemma lifecycle_evolves: "lifecycle_step s t \<Longrightarrow> store_ok s \<Longrightarrow> store_evolves s t"
proof (induction rule: lifecycle_step.induct)
  case (submit s job)
  then show ?case
    by (auto simp: store_evolves_def intro!: entries_evolve_put_job)
next
  case (schedule_gpu s jid job nid node s1 t)
  then show ?case
    by (intro store_evolves_put_job [where job = job])
      (auto simp: store_ok_def find_job_allocate Memory_AllocateGPU_jobs status_move_iff CanSchedule_def
        intro: same_request_mark_scheduled nodes_evolve_allocate less_imp_le)
next
  case (retry s jid job eid ex ex' t msg)
  then have "job_ok job" by (auto simp: store_ok_def intro: jobs_ok_find)
  with retry show ?case
    by (intro store_evolves_put_job [where job = job] execs_evolve_done)
      (auto simp: store_ok_def status_move_iff same_request_MarkRetrying MarkRetrying_count,
       auto simp: MarkRetrying_def)
next
  case (start s jid job ex t)
  then show ?case
    by (intro store_evolves_put_job [where job = job])
      (auto simp: store_ok_def status_move_iff CanRun_def same_request_def same_fields_def other_metadata_def entries_evolve_def exec_evolves_def)
next
  case (schedule_cpu s jid job t)
  then show ?case
    by (intro store_evolves_put_job [where job = job])
      (auto simp: store_ok_def status_move_iff CanSchedule_def same_request_mark_scheduled)
next
  case (succeed s jid job eid ex ex' t)
  then show ?case
    by (intro store_evolves_put_job [where job = job] execs_evolve_done)
      (auto simp: store_ok_def status_move_iff same_request_def same_fields_def other_metadata_def)
next
  case (fail s jid job eid ex ex' t msg)
  then show ?case
    by (intro store_evolves_put_job [where job = job] execs_evolve_done)
      (auto simp: store_ok_def status_move_iff same_request_def same_fields_def other_metadata_def)
next
  case (cancel s jid job t)
  then show ?case
    by (intro store_evolves_put_job [where job = job])
      (auto simp: store_ok_def status_move_iff CanCancel_def same_request_def same_fields_def other_metadata_def)
next
  case (requeue s jid job t)
  then show ?case
    by (intro store_evolves_put_job [where job = job])
      (auto simp: store_ok_def status_move_iff CanRetry_def same_request_def same_fields_def other_metadata_def)
qed

lemma lifecycle_store_ok: "lifecycle_step s t \<Longrightarrow> store_ok s \<Longrightarrow> store_ok t"
  unfolding store_ok_def
  using lifecycle_store_wf lifecycle_gpu_wf lifecycle_jobs_ok lifecycle_runs_ok by blast

interpretation lifecycle: evolution_system lifecycle_step store_ok store_evolves
  by unfold_locales (blast intro: lifecycle_store_ok lifecycle_evolves store_evolves_refl store_evolves_trans)+

end
