(* ===== verification/Dispatcher.thy ===== *)
theory Dispatcher
  imports World Lifecycle "HOL-Library.Sublist"
begin

text \<open>
  \<^verbatim>\<open>internal/scheduler/dispatcher.go\<close>. An operation takes the world and returns its result,
  \<open>Inl\<close> for the error, with the world after it. The refinement lemmas show that what the
  dispatcher does to the store is a sequence of steps of the specification in
  \<^verbatim>\<open>Lifecycle\<close>; the last sections are about the choice and the order of the placements.
\<close>

section \<open>Placing one job\<close>

definition SetStrategy :: "World \<Rightarrow> MatchStrategy \<Rightarrow> World" where
  "SetStrategy w s = w\<lparr>strategy := s\<rparr>"

definition markScheduled :: "World \<Rightarrow> Job \<Rightarrow> string \<Rightarrow> (error + Job) \<times> World" where
  "markScheduled w job nodeID =
     (let job1 = job\<lparr>Job_Status := JobStatusScheduled\<rparr>;
          (now, w1) = time_Now w;
          job2 = job1\<lparr>Job_UpdatedAt := now\<rparr>;
          job3 = (if nodeID \<noteq> '''' then
                    job2\<lparr>Job_Metadata := Some (AList.update ''assigned_node'' nodeID (map_entries (Job_Metadata job2)))\<rparr>
                  else job2)
      in case Memory_UpdateJob (repo w1) job3 of
           Inl err \<Rightarrow> (Inl (wrapf (''update scheduled job '' @ Job_ID job3) err), w1)
         | Inr s \<Rightarrow>
             (let w2 = count_metric IncScheduled (w1\<lparr>repo := s\<rparr>);
                  attrs = [(''job_id'', Job_ID job3)] @ (if nodeID \<noteq> '''' then [(''node_id'', nodeID)] else [])
              in (Inr job3, trace_add w2 (Job_TraceID job3) ''job.schedule'' attrs)))"

definition placeGPUJob :: "World \<Rightarrow> Job \<Rightarrow> (error + Job) \<times> World" where
  "placeGPUJob w job =
     (let (ord, w1) = map_order w
      in case Memory_ListOnlineNodes ord (repo w1) of
           Inl err \<Rightarrow> (Inl (wrapf ''list online nodes'' err), w1)
         | Inr ns \<Rightarrow>
             (case MatchNode ns (Job_ResourceSpec job) (strategy w1) of
                Inl err \<Rightarrow> (Inl (wrapf (''match node for job '' @ Job_ID job) err), w1)
              | Inr target \<Rightarrow>
                  (case Memory_AllocateGPU (repo w1) (Node_ID target) (Spec_GPU (Job_ResourceSpec job)) of
                     Inl err \<Rightarrow> (Inl (wrapf (''allocate GPU on '' @ Node_ID target) err), w1)
                   | Inr s \<Rightarrow> markScheduled (w1\<lparr>repo := s\<rparr>) job (Node_ID target))))"

definition placeJob :: "World \<Rightarrow> Job \<Rightarrow> (error + Job) \<times> World" where
  "placeJob w job =
     (if \<not> CanSchedule job then
        (Inl (ErrorString (''job '' @ Job_ID job @ '' cannot be scheduled from status '' @
           JobStatus_string (Job_Status job))), w)
      else if Spec_GPU (Job_ResourceSpec job) > 0 then placeGPUJob w job
      else markScheduled w job '''')"

definition ScheduleJob :: "World \<Rightarrow> string \<Rightarrow> (error + Job) \<times> World" where
  "ScheduleJob w jid =
     (case Memory_GetJob (repo w) jid of
        Inl err \<Rightarrow> (Inl (wrapf (''get job '' @ jid) err), w)
      | Inr job \<Rightarrow> placeJob w job)"

section \<open>Placing all pending jobs\<close>

definition filterSchedulable :: "Job list \<Rightarrow> Job list" where
  "filterSchedulable js = filter CanSchedule js"

function schedule_loop :: "World \<Rightarrow> PriorityQueue \<Rightarrow> int \<Rightarrow> Job list \<Rightarrow> Job list \<times> World" where
  "schedule_loop w queue limit acc =
     (if PQ_Len queue > 0 \<and> int (length acc) < limit then
        (case heap_pop PQ_Less queue of
           None \<Rightarrow> (acc, w)
         | Some (job, queue') \<Rightarrow>
             (case placeJob w job of
                (Inl placeErr, w1) \<Rightarrow>
                  schedule_loop
                    (trace_add w1 (Job_TraceID job) ''job.schedule.skip''
                      [(''job_id'', Job_ID job), (''reason'', Error placeErr)]) queue' limit acc
              | (Inr placed, w1) \<Rightarrow> schedule_loop w1 queue' limit (acc @ [placed])))
      else (acc, w))"
  by pat_completeness auto
termination
  by (relation "measure (\<lambda>(w, queue, limit, acc). length queue)") (auto dest!: heap_pop_shrinks)

declare schedule_loop.simps [simp del]

text \<open>
  \<^verbatim>\<open>make([]model.Job, 0, limit)\<close> panics when the capacity is negative or its bytes exceed
  the address space: a \<^verbatim>\<open>model.Job\<close> is 328 bytes and the limit of an allocation is
  \<open>2 ^ 48\<close> on the 64-bit platforms.
\<close>

definition job_cap_ok :: "int \<Rightarrow> bool" where
  "job_cap_ok limit \<longleftrightarrow> 0 \<le> limit \<and> limit * 328 \<le> 2 ^ 48"

definition SchedulePending :: "World \<Rightarrow> int \<Rightarrow> (error + Job list) \<times> World" where
  "SchedulePending w limit =
     (let (ord, w1) = map_order w
      in case Memory_ListJobs ord (repo w1) of
           Inl err \<Rightarrow> (Inl (wrapf ''list jobs'' err), w1)
         | Inr js \<Rightarrow>
             (let candidates = filterSchedulable js; queue = NewPriorityQueue candidates
              in if \<not> job_cap_ok limit then (Inl (GoPanic ''runtime error: makeslice: cap out of range''), w1)
                 else (case schedule_loop w1 queue limit [] of (placed, w2) \<Rightarrow> (Inr placed, w2))))"

definition ReleaseJobResources :: "World \<Rightarrow> Job \<Rightarrow> error option \<times> World" where
  "ReleaseJobResources w job =
     (let nodeID = map_get (Job_Metadata job) ''assigned_node''
      in if nodeID = '''' \<or> Spec_GPU (Job_ResourceSpec job) = 0 then (None, w)
         else (case Memory_ReleaseGPU (repo w) nodeID (Spec_GPU (Job_ResourceSpec job)) of
                 Inl err \<Rightarrow> (Some err, w)
               | Inr s \<Rightarrow> (None, w\<lparr>repo := s\<rparr>)))"

section \<open>Refinement\<close>

text \<open>The dispatcher makes no identifiers and does not touch its configuration.\<close>

definition same_config :: "World \<Rightarrow> World \<Rightarrow> bool" where
  "same_config w w' \<longleftrightarrow>
     strategy w' = strategy w \<and> sequence w' = sequence w \<and> environment w' = environment w"

lemma same_config_trans: "same_config w w1 \<Longrightarrow> same_config w1 w2 \<Longrightarrow> same_config w w2"
  by (simp add: same_config_def)

lemma same_config_simps [simp]:
  "same_config w w" "same_config w (snd (map_order w))" "same_config w (trace_add w tid name flds)"
  by (simp_all add: same_config_def)

lemma markScheduled_stored:
  assumes "find_job (repo w) (Job_ID job) = Some old"
  obtains t w' where "markScheduled w job nid = (Inr (mark_scheduled t nid job), w')"
    and "repo w' = put_job (repo w) (mark_scheduled t nid job)"
    and "metrics w' = IncScheduled (metrics w)" and "same_config w w'"
proof
  let ?t = "fst (time_Now w)" and ?w1 = "snd (time_Now w)"
  let ?job = "mark_scheduled ?t nid job"
  let ?attrs = "[(''job_id'', Job_ID job)] @ (if nid \<noteq> '''' then [(''node_id'', nid)] else [])"
  let ?w2 = "trace_add (count_metric IncScheduled (?w1\<lparr>repo := put_job (repo w) ?job\<rparr>))
       (Job_TraceID job) ''job.schedule'' ?attrs"
  have "Memory_UpdateJob (repo w) ?job = Inr (put_job (repo w) ?job)"
    using assms by (simp add: Memory_UpdateJob_def find_job_def put_job_def)
  then show "markScheduled w job nid = (Inr ?job, ?w2)"
    by (simp add: markScheduled_def mark_scheduled_def Let_def split_beta)
  show "repo ?w2 = put_job (repo w) ?job" "metrics ?w2 = IncScheduled (metrics w)" "same_config w ?w2"
    by (simp_all add: same_config_def)
qed

text \<open>
  What placing a stored job does: it fails and leaves the store, or it is one scheduling
  step of the specification that replaces the job by its scheduled version.
\<close>

definition place_failed :: "World \<Rightarrow> World \<Rightarrow> bool" where
  "place_failed w w' \<longleftrightarrow> repo w' = repo w \<and> metrics w' = metrics w \<and> same_config w w'"

definition placed_on :: "MemoryStore \<Rightarrow> Job \<Rightarrow> string \<Rightarrow> MemoryStore \<Rightarrow> bool" where
  "placed_on s job nid s' \<longleftrightarrow>
     (if Spec_GPU (Job_ResourceSpec job) \<le> 0 then nid = '''' \<and> nodes s' = nodes s
      else Memory_AllocateGPU s nid (Spec_GPU (Job_ResourceSpec job)) = Inr (s\<lparr>nodes := nodes s'\<rparr>) \<and>
        (\<exists>node. map_of (nodes s) nid = Some node \<and> node_fits (Job_ResourceSpec job) node))"

definition placed_as :: "World \<Rightarrow> Job \<Rightarrow> Job \<Rightarrow> World \<Rightarrow> bool" where
  "placed_as w job job' w' \<longleftrightarrow>
     lifecycle_step (repo w) (repo w') \<and> same_config w w' \<and> metrics w' = IncScheduled (metrics w) \<and>
     find_job (repo w') = (find_job (repo w))(Job_ID job \<mapsto> job') \<and>
     executions (repo w') = executions (repo w) \<and>
     CanSchedule job \<and>
     (\<exists>t nid. job' = mark_scheduled t nid job \<and> placed_on (repo w) job nid (repo w'))"

definition can_place :: "MemoryStore \<Rightarrow> Job \<Rightarrow> bool" where
  "can_place s job \<longleftrightarrow> CanSchedule job \<and>
     (0 < Spec_GPU (Job_ResourceSpec job) \<longrightarrow>
        (\<exists>nid node. map_of (nodes s) nid = Some node \<and> node_fits (Job_ResourceSpec job) node))"

lemma find_put_job_fun: "find_job (put_job s job) = (find_job s)(Job_ID job \<mapsto> job)"
  by (simp add: fun_eq_iff)

lemma placeGPUJob_cases:
  assumes wf: "store_wf (repo w)" and env: "env_ok (environment w)"
    and job: "find_job (repo w) (Job_ID job) = Some job" and can: "CanSchedule job"
    and gpu: "0 < Spec_GPU (Job_ResourceSpec job)"
  shows "if can_place (repo w) job then \<exists>job' w'. placeGPUJob w job = (Inr job', w') \<and> placed_as w job job' w'
    else \<exists>err w'. placeGPUJob w job = (Inl err, w') \<and> place_failed w w'"
proof -
  obtain ord w1 where ord: "map_order w = (ord, w1)" by fastforce
  with map_order_frame [of w] map_order_ok [OF env]
  have w1: "repo w1 = repo w" "metrics w1 = metrics w" "same_config w w1" and it: "iter_order ord"
    by (simp_all add: same_config_def)
  obtain ns where ns: "Memory_ListOnlineNodes ord (repo w) = Inr ns" by (simp add: Memory_ListOnlineNodes_def)
  note online = Memory_ListOnlineNodes_set [OF wf it ns]
  let ?spec = "Job_ResourceSpec job"
  have some: "can_place (repo w) job \<longleftrightarrow> (\<exists>node \<in> set ns. node_fits ?spec node)"
    using can gpu wf by (auto simp: can_place_def online node_fits_def dest: node_key)
  show ?thesis
  proof (cases "MatchNode ns ?spec (strategy w1)")
    case (Inl err)
    with MatchNode_Inl_iff [of ns ?spec "strategy w1"] some have "\<not> can_place (repo w) job" by auto
    then show ?thesis using Inl w1 ns by (auto simp: placeGPUJob_def ord place_failed_def)
  next
    case (Inr target)
    note target = MatchNode_Inr [OF Inr]
    let ?nid = "Node_ID target"
    have node: "map_of (nodes (repo w)) ?nid = Some target" using target(1) by (simp add: online)
    moreover have "Spec_GPU ?spec \<le> Res_AvailGPU (Node_Resource target)"
      using target(2) by (simp add: node_fits_def CanFitGPU_def)
    ultimately obtain s where s: "Memory_AllocateGPU (repo w) ?nid (Spec_GPU ?spec) = Inr s"
      by (auto simp: Memory_AllocateGPU_def)
    let ?w1 = "w1\<lparr>repo := s\<rparr>"
    have fs: "find_job s = find_job (repo w)" using s by (rule find_job_allocate)
    with job have "find_job (repo ?w1) (Job_ID job) = Some job" by simp
    then obtain t w' where w': "markScheduled ?w1 job ?nid = (Inr (mark_scheduled t ?nid job), w')"
      "repo w' = put_job s (mark_scheduled t ?nid job)" "metrics w' = IncScheduled (metrics ?w1)"
      "same_config ?w1 w'"
      by (rule markScheduled_stored) simp
    have "s = repo w\<lparr>nodes := nodes s\<rparr>" using s by (auto elim: Memory_AllocateGPU_Inr)
    moreover have "lifecycle_step (repo w) (repo w')"
      unfolding w'(2) using job can gpu node target(2) s by (rule lifecycle_step.schedule_gpu)
    ultimately have "placed_as w job (mark_scheduled t ?nid job) w'"
      using w' w1 s can gpu node target(2) fs Memory_AllocateGPU_jobs [OF s]
      by (auto simp: placed_as_def placed_on_def same_config_def find_put_job_fun
           intro!: exI [of _ t] exI [of _ ?nid])
    moreover have "placeGPUJob w job = (Inr (mark_scheduled t ?nid job), w')"
      using w'(1) w1 ns Inr s by (simp add: placeGPUJob_def ord)
    ultimately show ?thesis using some target by auto
  qed
qed

lemma placeJob_cases:
  assumes "store_wf (repo w)" and "env_ok (environment w)" and job: "find_job (repo w) (Job_ID job) = Some job"
  shows "if can_place (repo w) job then \<exists>job' w'. placeJob w job = (Inr job', w') \<and> placed_as w job job' w'
    else \<exists>err w'. placeJob w job = (Inl err, w') \<and> place_failed w w'"
proof -
  consider "\<not> CanSchedule job" | "CanSchedule job" "0 < Spec_GPU (Job_ResourceSpec job)"
    | "CanSchedule job" "Spec_GPU (Job_ResourceSpec job) \<le> 0"
    by linarith
  then show ?thesis
  proof cases
    case 2
    then show ?thesis using placeGPUJob_cases [OF assms] by (simp add: placeJob_def)
  next
    case 3
    from job obtain t w' where w': "markScheduled w job '''' = (Inr (mark_scheduled t '''' job), w')"
      "repo w' = put_job (repo w) (mark_scheduled t '''' job)" "metrics w' = IncScheduled (metrics w)"
      "same_config w w'"
      by (rule markScheduled_stored)
    have "lifecycle_step (repo w) (repo w')"
      unfolding w'(2) using job 3 by (rule lifecycle_step.schedule_cpu)
    with w' 3 have "placed_as w job (mark_scheduled t '''' job) w'"
      by (auto simp: placed_as_def placed_on_def find_put_job_fun)
    with w' 3 show ?thesis by (auto simp: placeJob_def can_place_def)
  qed (auto simp: placeJob_def can_place_def place_failed_def)
qed

lemma placeJob_Inr:
  assumes "store_wf (repo w)" and "env_ok (environment w)" and "find_job (repo w) (Job_ID job) = Some job"
    and "placeJob w job = (Inr job', w')"
  shows "placed_as w job job' w'" and "can_place (repo w) job"
  using placeJob_cases [OF assms(1-3)] assms(4) by (auto split: if_splits)

lemma placeJob_Inl:
  assumes "store_wf (repo w)" and "env_ok (environment w)" and "find_job (repo w) (Job_ID job) = Some job"
    and "placeJob w job = (Inl err, w')"
  shows "place_failed w w'" and "\<not> can_place (repo w) job"
  using placeJob_cases [OF assms(1-3)] assms(4) by (auto split: if_splits)

lemma find_job_stored: "store_wf s \<Longrightarrow> find_job s jid = Some job \<Longrightarrow> find_job s (Job_ID job) = Some job"
  using find_job_key by blast

lemma ScheduleJob_cases:
  assumes "store_wf (repo w)" and "env_ok (environment w)" and "ScheduleJob w jid = (r, w')"
  shows "case r of
      Inl err \<Rightarrow> place_failed w w' \<and> (\<forall>job. find_job (repo w) jid = Some job \<longrightarrow> \<not> can_place (repo w) job)
    | Inr job' \<Rightarrow> \<exists>job. find_job (repo w) jid = Some job \<and> can_place (repo w) job \<and> placed_as w job job' w'"
proof (cases "find_job (repo w) jid")
  case None
  with assms(3) show ?thesis
    by (auto simp: ScheduleJob_def Memory_GetJob_def find_job_def place_failed_def)
next
  case (Some job)
  with assms(3) have "placeJob w job = (r, w')"
    by (simp add: ScheduleJob_def Memory_GetJob_def find_job_def)
  with Some placeJob_Inr [OF assms(1,2) find_job_stored] placeJob_Inl [OF assms(1,2) find_job_stored]
  show ?thesis using assms(1) by (cases r) auto
qed

section \<open>The loop over the queue\<close>

text \<open>The same placements over the list of jobs the queue delivers.\<close>

fun place_list :: "World \<Rightarrow> Job list \<Rightarrow> int \<Rightarrow> Job list \<Rightarrow> Job list \<times> World" where
  "place_list w [] limit acc = (acc, w)"
| "place_list w (job # js) limit acc =
     (if int (length acc) < limit then
        (case placeJob w job of
           (Inl err, w1) \<Rightarrow>
             place_list (trace_add w1 (Job_TraceID job) ''job.schedule.skip''
               [(''job_id'', Job_ID job), (''reason'', Error err)]) js limit acc
         | (Inr placed, w1) \<Rightarrow> place_list w1 js limit (acc @ [placed]))
      else (acc, w))"

lemma place_list_full: "limit \<le> int (length acc) \<Longrightarrow> place_list w js limit acc = (acc, w)"
  by (cases js) auto

lemma schedule_loop_place_list:
  "schedule_loop w queue limit acc = place_list w (drain (heap_pop PQ_Less) (length queue) queue) limit acc"
proof (induction w queue limit acc rule: schedule_loop.induct)
  case (1 w queue limit acc)
  show ?case
  proof (cases "heap_pop PQ_Less queue")
    case None
    then show ?thesis by (cases queue) (simp_all add: schedule_loop.simps [of w] PQ_Len_def)
  next
    case (Some jq)
    obtain job queue' where jq: "jq = (job, queue')" by fastforce
    with Some have len: "length queue = Suc (length queue')" by (simp add: heap_pop_shrinks)
    show ?thesis
    proof (cases "int (length acc) < limit")
      case True
      with 1 [OF conjI] Some jq len show ?thesis
        by (simp add: schedule_loop.simps [of w queue] PQ_Len_def split: prod.splits sum.splits)
    next
      case False
      then show ?thesis
        by (simp add: schedule_loop.simps [of w queue] place_list_full)
    qed
  qed
qed

text \<open>
  A run of placements as a relation: \<open>n\<close> is the room left below the limit. Every property
  of the loop is a rule induction over it.
\<close>

inductive place_run :: "World \<Rightarrow> Job list \<Rightarrow> nat \<Rightarrow> Job list \<Rightarrow> World \<Rightarrow> bool" where
  stop: "js = [] \<or> n = 0 \<Longrightarrow> place_run w js n [] w"
| skip: "\<not> can_place (repo w) job \<Longrightarrow> place_failed w w1 \<Longrightarrow> place_run w1 js (Suc n) ps w' \<Longrightarrow>
    place_run w (job # js) (Suc n) ps w'"
| place: "can_place (repo w) job \<Longrightarrow> placed_as w job job' w1 \<Longrightarrow> place_run w1 js n ps w' \<Longrightarrow>
    place_run w (job # js) (Suc n) (job' # ps) w'"

inductive_cases place_run_NilE: "place_run w [] n ps w'"

text \<open>The jobs still in the queue are stored as they were listed.\<close>

definition queued :: "MemoryStore \<Rightarrow> Job list \<Rightarrow> bool" where
  "queued s js \<longleftrightarrow> distinct (map Job_ID js) \<and> (\<forall>job \<in> set js. find_job s (Job_ID job) = Some job)"

definition world_ok :: "World \<Rightarrow> bool" where
  "world_ok w \<longleftrightarrow> store_ok (repo w) \<and> env_ok (environment w)"

lemma world_ok_D: "world_ok w \<Longrightarrow> store_ok (repo w)" "world_ok w \<Longrightarrow> env_ok (environment w)"
  "world_ok w \<Longrightarrow> store_wf (repo w)"
  by (simp_all add: world_ok_def store_ok_def)

lemma world_ok_steps:
  "world_ok w \<Longrightarrow> lifecycle_step\<^sup>*\<^sup>* (repo w) (repo w') \<Longrightarrow> same_config w w' \<Longrightarrow> world_ok w'"
  by (auto simp: world_ok_def same_config_def intro: lifecycle.steps_inv)

lemma placed_as_D:
  assumes "placed_as w job job' w'"
  shows "lifecycle_step (repo w) (repo w')" and "same_config w w'"
    and "metrics w' = IncScheduled (metrics w)"
    and "find_job (repo w') = (find_job (repo w))(Job_ID job \<mapsto> job')"
    and "CanSchedule job" and "\<exists>t nid. job' = mark_scheduled t nid job \<and> placed_on (repo w) job nid (repo w')"
  using assms unfolding placed_as_def by blast+

lemma placed_as_world: "world_ok w \<Longrightarrow> placed_as w job job' w' \<Longrightarrow> world_ok w'"
  using world_ok_steps placed_as_D(1,2) by blast

lemma placed_as_id: "placed_as w job job' w' \<Longrightarrow> Job_ID job' = Job_ID job"
  using placed_as_D(6) by fastforce

lemma queued_placed: "queued (repo w) (job # js) \<Longrightarrow> placed_as w job job' w' \<Longrightarrow> queued (repo w') js"
  unfolding queued_def by (metis (no_types, lifting) placed_as_D(4) fun_upd_other distinct.simps(2)
      image_eqI list.set_intros(2) list.simps(9) list.set_map)

lemma place_failed_trace: "place_failed w w1 \<Longrightarrow> place_failed w (trace_add w1 tid name flds)"
  by (simp add: place_failed_def same_config_def)

lemma place_failed_D: "place_failed w w' \<Longrightarrow> repo w' = repo w" "place_failed w w' \<Longrightarrow> same_config w w'"
  "place_failed w w' \<Longrightarrow> metrics w' = metrics w" "place_failed w w' \<Longrightarrow> world_ok w' = world_ok w"
  by (simp_all add: place_failed_def world_ok_def same_config_def)

lemma place_list_run:
  "world_ok w \<Longrightarrow> queued (repo w) js \<Longrightarrow> place_list w js limit acc = (res, w') \<Longrightarrow>
   \<exists>ps. res = acc @ ps \<and> place_run w js (nat (limit - int (length acc))) ps w'"
proof (induction w js limit acc rule: place_list.induct)
  case (2 w job js limit acc)
  note ok = world_ok_D(3,2) [OF "2.prems"(1)]
  from "2.prems"(2) have job: "find_job (repo w) (Job_ID job) = Some job" and js: "queued (repo w) js"
    by (auto simp: queued_def)
  show ?case
  proof (cases "int (length acc) < limit")
    case True
    then obtain n where n: "nat (limit - int (length acc)) = Suc n" by (metis Suc_pred zero_less_nat_eq diff_gt_0_iff_gt)
    obtain r w1 where r: "placeJob w job = (r, w1)" by fastforce
    show ?thesis
    proof (cases r)
      case (Inl err)
      note failed = placeJob_Inl [OF ok job r [unfolded Inl]]
      let ?w2 = "trace_add w1 (Job_TraceID job) ''job.schedule.skip''
          [(''job_id'', Job_ID job), (''reason'', Error err)]"
      have failed': "place_failed w ?w2" by (rule place_failed_trace [OF failed(1)])
      have "world_ok ?w2" "queued (repo ?w2) js"
        using "2.prems"(1) js place_failed_D(4) [OF failed'] place_failed_D(1) [OF failed'] by simp_all
      with "2.IH"(1) [OF True r [symmetric] Inl] "2.prems"(3) True r Inl
      obtain ps where "res = acc @ ps" "place_run ?w2 js (Suc n) ps w'"
        by (auto simp: n)
      with failed(2) failed' n show ?thesis by (auto intro: place_run.skip)
    next
      case (Inr job')
      note placed = placeJob_Inr [OF ok job r [unfolded Inr]]
      have "nat (limit - int (length (acc @ [job']))) = n" using n by simp
      moreover have "world_ok w1" "queued (repo w1) js"
        using "2.prems"(1,2) placed(1) by (blast intro: placed_as_world queued_placed)+
      ultimately obtain ps where "res = acc @ job' # ps" "place_run w1 js n ps w'"
        using "2.IH"(2) [OF True r [symmetric] Inr] "2.prems"(3) True r Inr by auto
      with placed n show ?thesis by (auto intro: place_run.place)
    qed
  next
    case False
    with "2.prems" show ?thesis by (auto intro: place_run.stop)
  qed
qed (auto intro: place_run.stop)

section \<open>What a run of placements does\<close>

lemma place_run_steps:
  "place_run w js n ps w' \<Longrightarrow> lifecycle_step\<^sup>*\<^sup>* (repo w) (repo w') \<and> same_config w w'"
proof (induction rule: place_run.induct)
  case (skip w job w1 js n ps w')
  then show ?case using place_failed_D(1,2) same_config_trans by (metis (no_types))
next
  case (place w job job' w1 js n ps w')
  then show ?case using placed_as_D(1,2) same_config_trans converse_rtranclp_into_rtranclp by (metis (no_types))
qed simp

lemma place_run_length: "place_run w js n ps w' \<Longrightarrow> length ps \<le> n"
  by (induction rule: place_run.induct) auto

definition marks :: "Job \<Rightarrow> Job \<Rightarrow> bool" where
  "marks job job' \<longleftrightarrow> (\<exists>t nid. job' = mark_scheduled t nid job)"

lemma marks_keys: "marks a b \<Longrightarrow> Job_ID b = Job_ID a \<and> Job_Priority b = Job_Priority a \<and> Job_CreatedAt b = Job_CreatedAt a"
  by (auto simp: marks_def mark_scheduled_def Let_def)

lemma marks_id: "list_all2 marks js ps \<Longrightarrow> map Job_ID ps = map Job_ID js"
  by (induction rule: list_all2_induct) (simp_all add: marks_keys)

lemma marks_order: "marks a a' \<Longrightarrow> marks b b' \<Longrightarrow> PQ_Less a' b' = PQ_Less a b"
  by (simp add: PQ_Less_def marks_keys)

lemma marks_member: "list_all2 marks js ps \<Longrightarrow> p \<in> set ps \<Longrightarrow> \<exists>j \<in> set js. marks j p"
  by (induction rule: list_all2_induct) auto

lemma sorted_marks:
  "list_all2 marks js ps \<Longrightarrow> sorted_wrt (\<lambda>a b. \<not> PQ_Less b a) js \<Longrightarrow> sorted_wrt (\<lambda>a b. \<not> PQ_Less b a) ps"
proof (induction rule: list_all2_induct)
  case (Cons j js p ps)
  have "\<not> PQ_Less q p" if "q \<in> set ps" for q
    using marks_member [OF Cons.hyps(2) that] Cons.hyps(1) Cons.prems marks_order by fastforce
  with Cons show ?case by auto
qed simp

lemma place_run_marks:
  "place_run w js n ps w' \<Longrightarrow> \<exists>js'. subseq js' js \<and> list_all2 marks js' ps"
proof (induction rule: place_run.induct)
  case (place w job job' w1 js n ps w')
  then obtain js' where "subseq js' js" "list_all2 marks js' ps" by blast
  moreover have "marks job job'" using placed_as_D(6) [OF place.hyps(2)] by (auto simp: marks_def)
  ultimately show ?case by (intro exI [of _ "job # js'"]) simp
qed (auto intro: subseq_Cons')

lemma place_run_metrics:
  "place_run w js n ps w' \<Longrightarrow> metrics w' = (IncScheduled ^^ length ps) (metrics w)"
proof (induction rule: place_run.induct)
  case (skip w job w1 js n ps w')
  then show ?case by (simp add: place_failed_D(3))
next
  case (place w job job' w1 js n ps w')
  then show ?case by (simp add: placed_as_D(3) funpow_swap1)
qed simp

text \<open>A job that no node fits keeps waiting: free GPUs only shrink while jobs are placed.\<close>

lemma node_fits_antimono: "node_evolves a b \<Longrightarrow> node_fits spec b \<Longrightarrow> node_fits spec a"
proof -
  assume "node_evolves a b" and fits: "node_fits spec b"
  then have b: "b = set_avail a (Res_AvailGPU (Node_Resource b))"
    and le: "Res_AvailGPU (Node_Resource b) \<le> Res_AvailGPU (Node_Resource a)"
    by (simp_all add: node_evolves_def)
  from b have "Node_Status b = Node_Status a" "Res_GPUs (Node_Resource b) = Res_GPUs (Node_Resource a)"
    by (metis set_avail_simps(5), metis set_avail_simps(4))
  with le fits show ?thesis
    by (auto simp: node_fits_def IsSchedulable_def CanFitGPU_def CanFitGPUMemory_def)
qed

lemma can_place_antimono:
  assumes "nodes_evolve s t" and "can_place t job"
  shows "can_place s job"
proof (cases "0 < Spec_GPU (Job_ResourceSpec job)")
  case True
  with assms(2) obtain nid node where "map_of (nodes t) nid = Some node" "node_fits (Job_ResourceSpec job) node"
    by (auto simp: can_place_def)
  moreover have "rel_option node_evolves (map_of (nodes s) nid) (map_of (nodes t) nid)"
    using assms(1) by (simp add: nodes_evolve_def)
  ultimately obtain node0 where "map_of (nodes s) nid = Some node0" "node_fits (Job_ResourceSpec job) node0"
    by (cases "map_of (nodes s) nid") (auto dest: node_fits_antimono)
  with True assms(2) show ?thesis by (auto simp: can_place_def)
qed (use assms in \<open>simp add: can_place_def\<close>)

lemma steps_nodes_evolve: "lifecycle_step\<^sup>*\<^sup>* s t \<Longrightarrow> store_ok s \<Longrightarrow> nodes_evolve s t"
  using lifecycle.steps_evolve by (auto simp: store_evolves_def)

lemma place_run_exhausts:
  "place_run w js n ps w' \<Longrightarrow> world_ok w \<Longrightarrow> length ps < n \<Longrightarrow> job \<in> set js \<Longrightarrow>
   Job_ID job \<notin> Job_ID ` set ps \<Longrightarrow> \<not> can_place (repo w') job"
proof (induction rule: place_run.induct)
  case (skip w j w1 js n ps w')
  have w1: "world_ok w1" "repo w1 = repo w"
    using skip.prems(1) place_failed_D(1,4) [OF skip.hyps(2)] by simp_all
  show ?case
  proof (cases "job = j")
    case True
    have "nodes_evolve (repo w) (repo w')"
      using place_run_steps [OF skip.hyps(3)] w1 world_ok_D(1) steps_nodes_evolve by metis
    with True skip.hyps(1) show ?thesis using can_place_antimono by blast
  next
    case False
    with skip w1 show ?thesis by auto
  qed
next
  case (place w j j' w1 js n ps w')
  have "Job_ID job \<noteq> Job_ID j" using place.prems(4) placed_as_id [OF place.hyps(2)] by auto
  with place placed_as_world show ?case by auto
qed auto

text \<open>The placed jobs are stored as they are returned, and nothing else changes.\<close>

lemma place_run_find:
  "place_run w js n ps w' \<Longrightarrow> distinct (map Job_ID js) \<Longrightarrow>
   find_job (repo w') jid =
     (case find (\<lambda>job. Job_ID job = jid) ps of None \<Rightarrow> find_job (repo w) jid | Some job \<Rightarrow> Some job)"
proof (induction rule: place_run.induct)
  case (skip w job w1 js n ps w')
  then show ?case unfolding place_failed_D(1) [OF skip.hyps(2)] by simp
next
  case (place w job job' w1 js n ps w')
  obtain js' where js': "subseq js' js" "list_all2 marks js' ps" using place_run_marks place.hyps(3) by blast
  have "map Job_ID ps = map Job_ID js'" using js'(2) by (rule marks_id)
  then have "Job_ID ` set ps \<subseteq> Job_ID ` set js"
    using js'(1) by (metis image_mono list.set_map subseq_set)
  with place.prems have "Job_ID job \<notin> Job_ID ` set ps" by auto
  then have "find (\<lambda>j. Job_ID j = Job_ID job) ps = None" unfolding find_None_iff by (metis image_eqI)
  with place.IH place.prems show ?case
    by (auto simp: placed_as_D(4) [OF place.hyps(2)] placed_as_id [OF place.hyps(2)] split: option.splits)
qed simp

section \<open>GPU accounting of a run\<close>

definition assigned_node :: "Job \<Rightarrow> string" where
  "assigned_node job = map_get (Job_Metadata job) ''assigned_node''"

definition gpus_on :: "string \<Rightarrow> Job list \<Rightarrow> int" where
  "gpus_on nid ps =
     sum_list (map Spec_GPU (map Job_ResourceSpec
       (filter (\<lambda>job. 0 < Spec_GPU (Job_ResourceSpec job) \<and> assigned_node job = nid) ps)))"

lemma assigned_mark_scheduled: "nid \<noteq> '''' \<Longrightarrow> assigned_node (mark_scheduled t nid job) = nid"
  by (simp add: assigned_node_def mark_scheduled_def Let_def)

lemma placed_as_avail:
  assumes "world_ok w" and "placed_as w job job' w'" and "map_of (nodes (repo w)) '''' = None"
  shows "avail_gpu (repo w') nid = avail_gpu (repo w) nid - gpus_on nid [job']"
proof -
  from placed_as_D(6) [OF assms(2)] obtain t k
    where job': "job' = mark_scheduled t k job" and on: "placed_on (repo w) job k (repo w')" by blast
  show ?thesis
  proof (cases "0 < Spec_GPU (Job_ResourceSpec job)")
    case True
    with on assms(3) have k: "k \<noteq> ''''"
      and alloc: "Memory_AllocateGPU (repo w) k (Spec_GPU (Job_ResourceSpec job)) = Inr (repo w\<lparr>nodes := nodes (repo w')\<rparr>)"
      by (auto simp: placed_on_def)
    have "gpu_wf (repo w)" using assms(1) by (simp add: world_ok_def store_ok_def)
    from Memory_AllocateGPU_avail [OF this less_imp_le [OF True] alloc, of nid] True k job' show ?thesis
      by (simp add: avail_gpu_def gpus_on_def assigned_mark_scheduled)
  next
    case False
    with on job' show ?thesis by (simp add: placed_on_def avail_gpu_def gpus_on_def)
  qed
qed

lemma nodes_evolve_None: "nodes_evolve s t \<Longrightarrow> map_of (nodes s) nid = None \<Longrightarrow> map_of (nodes t) nid = None"
  unfolding nodes_evolve_def by (metis option.rel_distinct(1) option.exhaust)

lemma gpus_on_Cons: "gpus_on nid (job # ps) = gpus_on nid [job] + gpus_on nid ps"
  by (simp add: gpus_on_def)

lemma place_run_avail:
  "place_run w js n ps w' \<Longrightarrow> world_ok w \<Longrightarrow> map_of (nodes (repo w)) '''' = None \<Longrightarrow>
   avail_gpu (repo w') nid = avail_gpu (repo w) nid - gpus_on nid ps"
proof (induction rule: place_run.induct)
  case (stop js n w)
  then show ?case by (simp add: gpus_on_def)
next
  case (skip w job w1 js n ps w')
  then show ?case using place_failed_D(1,4) [OF skip.hyps(2)] by simp
next
  case (place w job job' w1 js n ps w')
  have "nodes_evolve (repo w) (repo w1)"
    using placed_as_D(1) [OF place.hyps(2)] world_ok_D(1) [OF place.prems(1)] steps_nodes_evolve by blast
  then have "map_of (nodes (repo w1)) '''' = None" using place.prems(2) by (rule nodes_evolve_None)
  then have "avail_gpu (repo w') nid = avail_gpu (repo w1) nid - gpus_on nid ps"
    using place.IH placed_as_world [OF place.prems(1) place.hyps(2)] by blast
  also have "avail_gpu (repo w1) nid = avail_gpu (repo w) nid - gpus_on nid [job']"
    using place.prems(1) place.hyps(2) place.prems(2) by (rule placed_as_avail)
  finally show ?case using gpus_on_Cons [of nid job' ps] by simp
qed

section \<open>Scheduling all pending jobs\<close>

text \<open>The jobs in the order the queue delivers them.\<close>

definition pop_order :: "Job list \<Rightarrow> Job list" where
  "pop_order js = drain (heap_pop PQ_Less) (length js) (NewPriorityQueue js)"

lemma length_NewPriorityQueue [simp]: "length (NewPriorityQueue js) = length js"
  by (simp add: NewPriorityQueue_def)

lemma mset_pop_order: "mset (pop_order js) = mset js"
  unfolding pop_order_def
  using pq.heap.mset_drain [OF NewPriorityQueue_heap, of js "length js"] by (simp add: NewPriorityQueue_def)

lemma sorted_pop_order: "sorted_wrt (\<lambda>a b. \<not> PQ_Less b a) (pop_order js)"
  unfolding pop_order_def by (rule pq.heap.sorted_drain [OF NewPriorityQueue_heap])

lemma distinct_job_ids: "store_wf s \<Longrightarrow> distinct (map Job_ID (map snd (jobs s)))"
proof -
  assume wf: "store_wf s"
  then have "\<forall>x \<in> set (jobs s). Job_ID (snd x) = fst x"
    by (auto simp: store_wf_def keyed_wf_def list_all_iff)
  then have "map Job_ID (map snd (jobs s)) = map fst (jobs s)" by simp
  with store_wf_distinct(1) [OF wf] show ?thesis by (simp only:)
qed

lemma stored_job: "store_wf s \<Longrightarrow> job \<in> snd ` set (jobs s) \<longleftrightarrow> find_job s (Job_ID job) = Some job"
proof
  assume wf: "store_wf s" and "job \<in> snd ` set (jobs s)"
  then obtain k where "map_of (jobs s) k = Some job" using store_wf_distinct(1) [OF wf] by auto
  with job_key [OF wf this] show "find_job s (Job_ID job) = Some job" by (simp add: find_job_def)
qed (force simp: find_job_def dest: map_of_SomeD)

definition schedulable :: "MemoryStore \<Rightarrow> Job \<Rightarrow> bool" where
  "schedulable s job \<longleftrightarrow> find_job s (Job_ID job) = Some job \<and> CanSchedule job"

lemma SchedulePending_run:
  assumes "world_ok w" and "SchedulePending w limit = (Inr ps, w')"
  obtains js w1 where "place_run w1 js (nat limit) ps w'" and "world_ok w1" and "same_config w w1"
    and "repo w1 = repo w" and "metrics w1 = metrics w"
    and "distinct (map Job_ID js)" and "set js = {job. schedulable (repo w) job}"
    and "sorted_wrt (\<lambda>a b. \<not> PQ_Less b a) js" and "0 \<le> limit"
proof -
  obtain ord w1 where ord: "map_order w = (ord, w1)" by fastforce
  with map_order_frame [of w] map_order_ok [OF world_ok_D(2) [OF assms(1)]]
  have w1: "repo w1 = repo w" "metrics w1 = metrics w" "same_config w w1" and it: "iter_order ord"
    by (simp_all add: same_config_def)
  have ok1: "world_ok w1" using assms(1) w1 by (simp add: world_ok_def same_config_def)
  obtain all where all: "Memory_ListJobs ord (repo w) = Inr all" by (simp add: Memory_ListJobs_def)
  note wf = world_ok_D(3) [OF assms(1)]
  have mset: "mset all = mset (map snd (jobs (repo w)))" using wf it all by (rule Memory_ListJobs_perm)
  let ?js = "pop_order (filter CanSchedule all)"
  have loop: "schedule_loop w1 (NewPriorityQueue (filter CanSchedule all)) limit [] = (ps, w')" and "0 \<le> limit"
    using assms(2) all by (auto simp: SchedulePending_def ord w1 filterSchedulable_def job_cap_ok_def
        split: if_splits prod.splits)
  have dist: "distinct (map Job_ID all)"
    using distinct_job_ids [OF wf] mset by (metis mset_map mset_eq_imp_distinct_iff)
  then have distjs: "distinct (map Job_ID ?js)"
    using mset_pop_order [of "filter CanSchedule all"]
    by (metis mset_map mset_eq_imp_distinct_iff distinct_map_filter)
  have setjs: "set ?js = {job. schedulable (repo w) job}"
    using arg_cong [OF mset, of set_mset] arg_cong [OF mset_pop_order [of "filter CanSchedule all"], of set_mset]
      stored_job [OF wf] by (auto simp: schedulable_def)
  have "queued (repo w1) ?js" using distjs setjs w1 by (auto simp: queued_def schedulable_def)
  moreover have "place_list w1 ?js limit [] = (ps, w')"
    using loop by (simp add: schedule_loop_place_list pop_order_def)
  ultimately have "place_run w1 ?js (nat limit) ps w'"
    using place_list_run [OF ok1, of ?js limit "[]" ps w'] by auto
  then show thesis using ok1 w1 distjs setjs sorted_pop_order \<open>0 \<le> limit\<close> by (intro that)
qed

end
