(* ===== verification/Json.thy ===== *)
theory Json
  imports Go_Text
begin

text \<open>
  What the program uses of \<^verbatim>\<open>encoding/json\<close> to print: values, the escaping of strings and
  \<^verbatim>\<open>MarshalIndent(v, "", "  ")\<close>. A string is its UTF-8 bytes. The entries of an object are
  listed in the order they are printed, which for a Go map is the order of its keys.
\<close>

datatype json =
    JNull
  | JString string
  | JInt int
  | JArray "json list"
  | JObject "(string \<times> json) list"

section \<open>UTF-8\<close>

definition byte_in :: "nat \<Rightarrow> nat \<Rightarrow> nat list \<Rightarrow> nat \<Rightarrow> bool" where
  "byte_in lo hi bs i \<longleftrightarrow> i < length bs \<and> lo \<le> bs ! i \<and> bs ! i \<le> hi"

text \<open>
  \<^verbatim>\<open>utf8.DecodeRuneInString\<close>: the number of bytes of the rune at the front, or \<open>0\<close> when the
  bytes are not the shortest encoding of a rune.
\<close>

definition rune_size :: "nat list \<Rightarrow> nat" where
  "rune_size bs =
     (case bs of
        [] \<Rightarrow> 0
      | b # _ \<Rightarrow>
          if b < 128 then 1
          else if 194 \<le> b \<and> b \<le> 223 then (if byte_in 128 191 bs 1 then 2 else 0)
          else if 224 \<le> b \<and> b \<le> 239 then
            (if byte_in (if b = 224 then 160 else 128) (if b = 237 then 159 else 191) bs 1
                \<and> byte_in 128 191 bs 2 then 3 else 0)
          else if 240 \<le> b \<and> b \<le> 244 then
            (if byte_in (if b = 240 then 144 else 128) (if b = 244 then 143 else 191) bs 1
                \<and> byte_in 128 191 bs 2 \<and> byte_in 128 191 bs 3 then 4 else 0)
          else 0)"

lemma rune_size_le: "rune_size bs \<le> length bs"
  by (auto simp: rune_size_def byte_in_def Suc_le_eq split: list.splits)

section \<open>Strings\<close>

abbreviation backslash :: char where
  "backslash \<equiv> char_of (92 :: nat)"

abbreviation dquote :: char where
  "dquote \<equiv> char_of (34 :: nat)"

text \<open>One byte below 128, with the characters that are unsafe in HTML escaped.\<close>

definition json_ascii :: "nat \<Rightarrow> string" where
  "json_ascii b =
     (if b = 34 \<or> b = 92 then [backslash, char_of b]
      else if b = 8 then [backslash, CHR ''b''] else if b = 12 then [backslash, CHR ''f'']
      else if b = 10 then [backslash, CHR ''n''] else if b = 13 then [backslash, CHR ''r'']
      else if b = 9 then [backslash, CHR ''t'']
      else if b < 32 \<or> b = 60 \<or> b = 62 \<or> b = 38 then [backslash] @ ''u00'' @ hex_byte b
      else [char_of b])"

function json_bytes :: "nat list \<Rightarrow> string" where
  "json_bytes [] = ''''"
| "json_bytes (b # bs) =
     (if b < 128 then json_ascii b @ json_bytes bs
      else (let n = rune_size (b # bs)
            in if n = 0 then [backslash] @ ''ufffd'' @ json_bytes bs
               else if take n (b # bs) = [226, 128, 168] then [backslash] @ ''u2028'' @ json_bytes (drop (n - 1) bs)
               else if take n (b # bs) = [226, 128, 169] then [backslash] @ ''u2029'' @ json_bytes (drop (n - 1) bs)
               else map char_of (take n (b # bs)) @ json_bytes (drop (n - 1) bs)))"
  by pat_completeness auto
termination
  by (relation "measure length") auto

definition json_string :: "string \<Rightarrow> string" where
  "json_string s = [dquote] @ json_bytes (map of_char s) @ [dquote]"

section \<open>Values\<close>

definition indent_line :: "nat \<Rightarrow> string" where
  "indent_line depth = [char_of (10 :: nat)] @ concat (replicate depth ''  '')"

fun marshal_indent :: "nat \<Rightarrow> json \<Rightarrow> string" where
  "marshal_indent depth JNull = ''null''"
| "marshal_indent depth (JString s) = json_string s"
| "marshal_indent depth (JInt z) = itoa z"
| "marshal_indent depth (JArray vs) =
     (if vs = [] then ''[]''
      else ''['' @ Join '','' (map (\<lambda>v. indent_line (Suc depth) @ marshal_indent (Suc depth) v) vs) @
           indent_line depth @ '']'')"
| "marshal_indent depth (JObject kvs) =
     (if kvs = [] then ''{}''
      else ''{'' @ Join '','' (map (\<lambda>(k, v). indent_line (Suc depth) @ json_string k @ '': '' @
              marshal_indent (Suc depth) v) kvs) @
           indent_line depth @ ''}'')"

definition MarshalIndent :: "json \<Rightarrow> string" where
  "MarshalIndent v = marshal_indent 0 v"

section \<open>Escaping is safe\<close>

text \<open>
  The printed string carries no control character and no HTML-sensitive character, and a
  quote in it always follows a backslash: the scan below, the one a reader makes to find
  the closing quote, consumes all of it.
\<close>

fun string_body :: "string \<Rightarrow> bool" where
  "string_body [] = True"
| "string_body [c] = ((of_char c :: nat) \<noteq> 34 \<and> (of_char c :: nat) \<noteq> 92)"
| "string_body (c # d # cs) =
     (if (of_char c :: nat) = 34 then False
      else if (of_char c :: nat) = 92 then string_body cs
      else string_body (d # cs))"

definition plain_char :: "char \<Rightarrow> bool" where
  "plain_char c \<longleftrightarrow> 32 \<le> (of_char c :: nat) \<and> (of_char c :: nat) \<notin> {38, 60, 62}"

definition string_safe :: "string \<Rightarrow> bool" where
  "string_safe s \<longleftrightarrow> string_body s \<and> list_all plain_char s"

lemma string_body_append: "string_body xs \<Longrightarrow> string_body (xs @ ys) = string_body ys"
proof (induction xs rule: string_body.induct)
  case (2 c)
  then show ?case by (cases ys) simp_all
qed (auto split: if_splits)

lemma string_safe_append [simp]: "string_safe xs \<Longrightarrow> string_safe (xs @ ys) = string_safe ys"
  by (simp add: string_safe_def string_body_append)

lemma string_safe_Nil [simp]: "string_safe []"
  by (simp add: string_safe_def)

lemma string_safe_Cons:
  "plain_char c \<Longrightarrow> (of_char c :: nat) \<noteq> 34 \<Longrightarrow> (of_char c :: nat) \<noteq> 92 \<Longrightarrow> string_safe (c # cs) = string_safe cs"
  by (cases cs) (simp_all add: string_safe_def)

lemma string_safe_escape: "plain_char c \<Longrightarrow> string_safe (backslash # c # cs) = string_safe cs"
  by (simp add: string_safe_def plain_char_def)

lemma hex_char_code: "d < 16 \<Longrightarrow> (of_char (hex_char d) :: nat) = (if d < 10 then 48 + d else 87 + d)"
  by (simp add: hex_char_def)

lemma json_ascii_safe: "b < 128 \<Longrightarrow> string_safe (json_ascii b)"
  by (auto simp: json_ascii_def hex_byte_def string_safe_Cons string_safe_escape plain_char_def hex_char_code)

lemma rune_size_tail:
  assumes "0 < i" and "i < rune_size (b # bs)" and "128 \<le> b"
  shows "128 \<le> (b # bs) ! i"
proof -
  have "rune_size (b # bs) \<le> 4" by (simp add: rune_size_def)
  with assms(1,2) have "i = 1 \<or> i = 2 \<or> i = 3" by linarith
  then show ?thesis
    using assms by (auto simp: rune_size_def byte_in_def split: if_splits)
qed

lemma string_safe_high: "\<forall>x \<in> set xs. 128 \<le> x \<and> x < (256 :: nat) \<Longrightarrow> string_safe (map char_of xs)"
  by (induction xs) (simp_all add: string_safe_Cons plain_char_def)

lemma rune_safe:
  assumes "128 \<le> b" and "\<forall>x \<in> set (b # bs). x < 256"
  shows "string_safe (map char_of (take (rune_size (b # bs)) (b # bs)))"
proof (rule string_safe_high, intro ballI conjI)
  fix x assume x: "x \<in> set (take (rune_size (b # bs)) (b # bs))"
  then show "x < 256" using assms(2) in_set_takeD by fastforce
  from x obtain i where "i < rune_size (b # bs)" "x = (b # bs) ! i" by (auto simp: in_set_conv_nth)
  with assms(1) rune_size_tail [of i b bs] show "128 \<le> x" by (cases i) auto
qed

lemma json_bytes_safe: "\<forall>x \<in> set bs. x < 256 \<Longrightarrow> string_safe (json_bytes bs)"
proof (induction bs rule: json_bytes.induct)
  case (2 b bs)
  have rest: "\<forall>x \<in> set (drop n bs). x < 256" for n using 2 by (auto dest: in_set_dropD)
  show ?case
  proof (cases "b < 128")
    case True
    with 2 show ?thesis by (simp add: json_ascii_safe)
  next
    case False
    with 2 rest rune_safe [of b bs] show ?thesis
      by (simp add: Let_def string_safe_Cons string_safe_escape plain_char_def del: take_Cons')
  qed
qed simp

end
