(* ===== verification/Worker.thy ===== *)
theory Worker
  imports World Json
begin

text \<open>
  \<^verbatim>\<open>internal/worker\<close>: the executor interface with its registry, the shell, HTTP and
  Kubernetes executors and the job manifest. A process run by \<^verbatim>\<open>os/exec\<close> is answered by
  a \<open>host\<close>, any function of the moment and of what the program hands to it.
\<close>

section \<open>Executors and the registry\<close>

record Result =
  Result_Logs :: string
  Result_Manifest :: string
  Result_ExitCode :: int

definition empty_result :: Result where
  "empty_result = \<lparr>Result_Logs = '''', Result_Manifest = '''', Result_ExitCode = 0\<rparr>"

text \<open>\<open>Execute\<close> is called at a moment; it returns a result also when it fails.\<close>

record Executor =
  Executor_Name :: string
  Execute :: "nat \<Rightarrow> Job \<Rightarrow> Result \<times> error option"

type_synonym Registry = "string \<rightharpoonup> Executor"

definition NewRegistry :: "Executor list \<Rightarrow> Registry" where
  "NewRegistry executors = foldl (\<lambda>items ex. items(Executor_Name ex \<mapsto> ex)) Map.empty executors"

definition Registry_Get :: "Registry \<Rightarrow> string \<Rightarrow> error + Executor" where
  "Registry_Get r name =
     (case r name of
        None \<Rightarrow> Inl (ErrorString (''executor '' @ Quote name @ '' is not registered''))
      | Some ex \<Rightarrow> Inr ex)"

text \<open>A name is served by the last executor given with that name.\<close>

lemma NewRegistry_find:
  "NewRegistry exs name = List.find (\<lambda>ex. Executor_Name ex = name) (rev exs)"
proof -
  have "foldl (\<lambda>items ex. items(Executor_Name ex \<mapsto> ex)) m exs name =
      (case List.find (\<lambda>ex. Executor_Name ex = name) (rev exs) of None \<Rightarrow> m name | Some ex \<Rightarrow> Some ex)" for m
  proof (induction exs rule: rev_induct)
    case (snoc ex exs)
    then show ?case by simp
  qed simp
  from this [of Map.empty] show ?thesis by (simp add: NewRegistry_def split: option.splits)
qed

section \<open>Processes\<close>

text \<open>
  The error of a finished command: an \<^verbatim>\<open>exec.ExitError\<close> with the exit status or the signal that
  killed the process, or another failure such as a missing program.
\<close>

datatype run_error = ExitError int | Signalled string | RunError string

definition run_error_message :: "run_error \<Rightarrow> string" where
  "run_error_message e = (case e of ExitError n \<Rightarrow> ''exit status '' @ itoa n | Signalled sig \<Rightarrow> ''signal: '' @ sig | RunError msg \<Rightarrow> msg)"

record Cmd =
  Cmd_Args :: "string list"
  Cmd_Env :: "string list"
  Cmd_Stdin :: string

record host =
  host_environ :: "string list"
  host_order :: "nat \<Rightarrow> string list \<Rightarrow> string list"
  host_run :: "nat \<Rightarrow> Cmd \<Rightarrow> string \<times> run_error option"

definition exitCode :: "run_error option \<Rightarrow> int" where
  "exitCode err =
     (case err of None \<Rightarrow> 0 | Some (ExitError status) \<Rightarrow> status | Some (Signalled _) \<Rightarrow> - 1 | Some (RunError _) \<Rightarrow> 1)"

definition toEnv :: "(string list \<Rightarrow> string list) \<Rightarrow> str_map \<Rightarrow> string list" where
  "toEnv ord values = map (\<lambda>k. k @ ''='' @ map_get values k) (ord (map fst (map_entries values)))"

section \<open>The shell and HTTP executors\<close>

definition Shell_Execute :: "host \<Rightarrow> nat \<Rightarrow> Job \<Rightarrow> Result \<times> error option" where
  "Shell_Execute h n job =
     (if Job_Command job = [] then
        (empty_result, Some (ErrorString (''job '' @ Job_ID job @ '' has empty command'')))
      else
        (let (output, err) = host_run h n
               \<lparr>Cmd_Args = Job_Command job,
                Cmd_Env = host_environ h @ toEnv (host_order h n) (Job_Environment job), Cmd_Stdin = ''''\<rparr>;
             result = \<lparr>Result_Logs = output, Result_Manifest = '''', Result_ExitCode = exitCode err\<rparr>
         in case err of
              Some e \<Rightarrow> (result, Some (wrapf ''shell executor failed'' (ErrorString (run_error_message e))))
            | None \<Rightarrow> (result, None)))"

definition ShellExecutor :: "host \<Rightarrow> Executor" where
  "ShellExecutor h = \<lparr>Executor_Name = ''shell'', Execute = Shell_Execute h\<rparr>"

definition HTTP_Execute :: "nat \<Rightarrow> Job \<Rightarrow> Result \<times> error option" where
  "HTTP_Execute n job =
     (empty_result, Some (ErrorString (''http executor is not implemented in the MVP for job '' @ Job_ID job)))"

definition HTTPExecutor :: Executor where
  "HTTPExecutor = \<lparr>Executor_Name = ''http'', Execute = HTTP_Execute\<rparr>"

section \<open>Kubernetes\<close>

definition toK8sEnv :: "(string list \<Rightarrow> string list) \<Rightarrow> str_map \<Rightarrow> json" where
  "toK8sEnv ord values =
     JArray (map (\<lambda>k. JObject [(''name'', JString k), (''value'', JString (map_get values k))])
       (ord (map fst (map_entries values))))"

definition toK8sResources :: "ResourceSpec \<Rightarrow> json" where
  "toK8sResources spec =
     JObject [(''requests'', JObject
       ((if Spec_CPU spec \<noteq> '''' then [(''cpu'', JString (Spec_CPU spec))] else []) @
        (if Spec_Memory spec \<noteq> '''' then [(''memory'', JString (Spec_Memory spec))] else []) @
        (if Spec_GPU spec > 0 then [(''nvidia.com/gpu'', JInt (Spec_GPU spec))] else [])))]"

text \<open>\<^verbatim>\<open>MarshalIndent\<close> cannot fail on these values, so the only error is the empty command.\<close>

definition buildJobManifest :: "(string list \<Rightarrow> string list) \<Rightarrow> Job \<Rightarrow> string \<Rightarrow> error + string" where
  "buildJobManifest ord job namespace =
     (if Job_Command job = [] then Inl (ErrorString (''job '' @ Job_ID job @ '' has empty command''))
      else
        (let ns = (if namespace = '''' then ''default'' else namespace)
         in Inr (MarshalIndent (JObject
              [(''apiVersion'', JString ''batch/v1''),
               (''kind'', JString ''Job''),
               (''metadata'', JObject
                  [(''labels'', JObject [(''job_id'', JString (Job_ID job)), (''job_type'', JString (Job_Type job))]),
                   (''name'', JString (Job_Name job)),
                   (''namespace'', JString ns)]),
               (''spec'', JObject
                  [(''template'', JObject
                     [(''spec'', JObject
                        [(''containers'', JArray [JObject
                           [(''command'', JArray (map JString (Job_Command job))),
                            (''env'', toK8sEnv ord (Job_Environment job)),
                            (''image'', JString (Job_ImageTag job)),
                            (''name'', JString ''worker''),
                            (''resources'', toK8sResources (Job_ResourceSpec job))]]),
                         (''restartPolicy'', JString ''Never'')])])])]))))"

definition K8sJob_Execute :: "host \<Rightarrow> string \<Rightarrow> nat \<Rightarrow> Job \<Rightarrow> Result \<times> error option" where
  "K8sJob_Execute h namespace n job =
     (case buildJobManifest (host_order h n) job namespace of
        Inl err \<Rightarrow> (empty_result, Some err)
      | Inr manifest \<Rightarrow>
          (\<lparr>Result_Logs = ''dry-run only: manifest generated, job not submitted to Kubernetes'',
            Result_Manifest = manifest, Result_ExitCode = 0\<rparr>, None))"

definition K8sJobExecutor :: "host \<Rightarrow> string \<Rightarrow> Executor" where
  "K8sJobExecutor h namespace = \<lparr>Executor_Name = ''k8s-dry-run'', Execute = K8sJob_Execute h namespace\<rparr>"

definition kubectlEnv :: "host \<Rightarrow> string \<Rightarrow> string list" where
  "kubectlEnv h kubeconfig =
     (if kubeconfig = '''' then host_environ h else host_environ h @ [''KUBECONFIG='' @ kubeconfig])"

record K8sApply =
  Apply_Namespace :: string
  Apply_Kubeconfig :: string
  Apply_AllowApply :: bool

definition K8sApply_Execute :: "host \<Rightarrow> K8sApply \<Rightarrow> nat \<Rightarrow> Job \<Rightarrow> Result \<times> error option" where
  "K8sApply_Execute h e n job =
     (if \<not> Apply_AllowApply e then
        (empty_result, Some (ErrorString ''k8s-apply is disabled; set ALLOW_K8S_APPLY=true to opt in''))
      else
        (case buildJobManifest (host_order h n) job (Apply_Namespace e) of
           Inl err \<Rightarrow> (empty_result, Some err)
         | Inr manifest \<Rightarrow>
             (let (output, runErr) = host_run h n
                    \<lparr>Cmd_Args = [''kubectl'', ''apply'', ''-f'', ''-''],
                     Cmd_Env = kubectlEnv h (Apply_Kubeconfig e), Cmd_Stdin = manifest\<rparr>;
                  result = \<lparr>Result_Logs = output, Result_Manifest = manifest, Result_ExitCode = exitCode runErr\<rparr>
              in case runErr of
                   Some err \<Rightarrow> (result, Some (wrapf ''kubectl apply failed'' (ErrorString (run_error_message err))))
                 | None \<Rightarrow> (result, None))))"

definition K8sApplyExecutor :: "host \<Rightarrow> K8sApply \<Rightarrow> Executor" where
  "K8sApplyExecutor h e = \<lparr>Executor_Name = ''k8s-apply'', Execute = K8sApply_Execute h e\<rparr>"

section \<open>The contract of an executor\<close>

text \<open>
  The service records a run as succeeded when the executor returns no error, whatever the
  exit code. The executors here promise that the two agree.
\<close>

locale executor_contract =
  fixes execute :: "nat \<Rightarrow> Job \<Rightarrow> Result \<times> error option"
  assumes success_code: "execute n job = (res, None) \<Longrightarrow> Result_ExitCode res = 0"
begin

lemma failure_code: "Result_ExitCode (fst (execute n job)) \<noteq> 0 \<Longrightarrow> \<exists>err. snd (execute n job) = Some err"
  using success_code [of n job "fst (execute n job)"] by (cases "execute n job") auto

end

interpretation shell: executor_contract "Shell_Execute h" for h
  by unfold_locales (auto simp: Shell_Execute_def exitCode_def Let_def split: if_splits prod.splits option.splits)

interpretation http: executor_contract HTTP_Execute
  by unfold_locales (simp add: HTTP_Execute_def)

interpretation k8s_dry_run: executor_contract "K8sJob_Execute h namespace" for h namespace
  by unfold_locales (auto simp: K8sJob_Execute_def split: sum.splits)

interpretation k8s_apply: executor_contract "K8sApply_Execute h e" for h e
  by unfold_locales (auto simp: K8sApply_Execute_def exitCode_def Let_def split: if_splits sum.splits prod.splits option.splits)

text \<open>A registry built from executors that keep the contract serves only such executors.\<close>

definition registry_ok :: "Registry \<Rightarrow> bool" where
  "registry_ok r \<longleftrightarrow> (\<forall>name ex. r name = Some ex \<longrightarrow> executor_contract (Execute ex))"

lemma NewRegistry_ok: "\<forall>ex \<in> set exs. executor_contract (Execute ex) \<Longrightarrow> registry_ok (NewRegistry exs)"
  by (auto simp: registry_ok_def NewRegistry_find find_Some_iff rev_nth intro: nth_mem)

lemma builtin_executors:
  "executor_contract (Execute (ShellExecutor h))" "executor_contract (Execute HTTPExecutor)"
  "executor_contract (Execute (K8sJobExecutor h namespace))" "executor_contract (Execute (K8sApplyExecutor h e))"
  by (simp_all add: ShellExecutor_def HTTPExecutor_def K8sJobExecutor_def K8sApplyExecutor_def
      shell.executor_contract_axioms http.executor_contract_axioms
      k8s_dry_run.executor_contract_axioms k8s_apply.executor_contract_axioms)

end
