(* ===== verification/Services.thy ===== *)
theory Services
  imports Dispatcher Worker
begin

text \<open>
  \<^verbatim>\<open>internal/service\<close>: submitting, cancelling and retrying jobs (\<^verbatim>\<open>job_service.go\<close>) and
  running them (\<^verbatim>\<open>execution_service.go\<close>). An executor is any function the registry holds;
  it is called with the current moment and does not touch the platform's state. As in Go,
  \<open>RunJob\<close> returns an execution and an error, and the zero execution with an early error.
\<close>

section \<open>Jobs\<close>

definition cloneMap :: "str_map \<Rightarrow> str_map" where
  "cloneMap values =
     (if map_entries values = [] then Some []
      else Some (foldl (\<lambda>out (k, v). AList.update k v out) [] (map_entries values)))"

definition CreateJob :: "World \<Rightarrow> CreateJobInput \<Rightarrow> (error + Job) \<times> World" where
  "CreateJob w inp =
     (case CreateJobInput_Validate inp of
        Some err \<Rightarrow> (Inl err, w)
      | None \<Rightarrow>
          (let (now, w1) = time_Now w;
               (traceID, w2) = new_trace w1 ''job.submit'';
               (jid, w3) = nextID w2 ''job'';
               job = \<lparr>Job_ID = jid, Job_Name = Input_Name inp, Job_Type = Input_Type inp,
                 Job_Status = JobStatusPending, Job_Executor = Input_Executor inp,
                 Job_Priority = Input_Priority inp, Job_ModelVersion = Input_ModelVersion inp,
                 Job_DatasetVersion = Input_DatasetVersion inp, Job_ImageTag = Input_ImageTag inp,
                 Job_ResourceSpec = Input_ResourceSpec inp, Job_Command = Input_Command inp,
                 Job_Environment = cloneMap (Input_Environment inp),
                 Job_Metadata = cloneMap (Input_Metadata inp), Job_MaxRetries = Input_MaxRetries inp,
                 Job_RetryCount = 0, Job_LastError = '''', Job_TraceID = traceID,
                 Job_CreatedAt = now, Job_UpdatedAt = now\<rparr>
           in case Memory_CreateJob (repo w3) job of
                Inl err \<Rightarrow> (Inl (wrapf ''create job'' err), w3)
              | Inr s \<Rightarrow>
                  (Inr job, trace_add (count_metric IncSubmitted (w3\<lparr>repo := s\<rparr>)) traceID ''job.persisted''
                     [(''job_id'', jid)])))"

definition GetJob :: "World \<Rightarrow> string \<Rightarrow> error + Job" where
  "GetJob w jid =
     (case Memory_GetJob (repo w) jid of
        Inl err \<Rightarrow> Inl (wrapf (''get job '' @ jid) err)
      | Inr job \<Rightarrow> Inr job)"

definition ListJobs :: "World \<Rightarrow> (error + Job list) \<times> World" where
  "ListJobs w =
     (let (ord, w1) = map_order w
      in case Memory_ListJobs ord (repo w1) of
           Inl err \<Rightarrow> (Inl (wrapf ''list jobs'' err), w1)
         | Inr items \<Rightarrow> (Inr items, w1))"

definition CancelJob :: "World \<Rightarrow> string \<Rightarrow> (error + Job) \<times> World" where
  "CancelJob w jid =
     (case GetJob w jid of
        Inl err \<Rightarrow> (Inl err, w)
      | Inr job \<Rightarrow>
          if \<not> CanCancel job then
            (Inl (ErrorString (''job '' @ jid @ '' cannot be cancelled from status '' @
               JobStatus_string (Job_Status job))), w)
          else
            (let (now, w1) = time_Now w;
                 job1 = job\<lparr>Job_Status := JobStatusCancelled, Job_UpdatedAt := now\<rparr>
             in case Memory_UpdateJob (repo w1) job1 of
                  Inl err \<Rightarrow> (Inl (wrapf (''cancel job '' @ jid) err), w1)
                | Inr s \<Rightarrow>
                    (Inr job1, trace_add (count_metric IncCancelled (w1\<lparr>repo := s\<rparr>)) (Job_TraceID job1)
                       ''job.cancelled'' [(''job_id'', Job_ID job1)])))"

definition RetryJob :: "World \<Rightarrow> string \<Rightarrow> (error + Job) \<times> World" where
  "RetryJob w jid =
     (case GetJob w jid of
        Inl err \<Rightarrow> (Inl err, w)
      | Inr job \<Rightarrow>
          if \<not> CanRetry job then
            (Inl (ErrorString (''job '' @ jid @ '' cannot be retried from status '' @
               JobStatus_string (Job_Status job))), w)
          else
            (let (now, w1) = time_Now w;
                 job1 = job\<lparr>Job_Status := JobStatusPending, Job_LastError := '''', Job_UpdatedAt := now\<rparr>
             in case Memory_UpdateJob (repo w1) job1 of
                  Inl err \<Rightarrow> (Inl (wrapf (''retry job '' @ jid) err), w1)
                | Inr s \<Rightarrow>
                    (Inr job1, trace_add (count_metric IncRetried (w1\<lparr>repo := s\<rparr>)) (Job_TraceID job1)
                       ''job.retry_requested'' [(''job_id'', Job_ID job1)])))"

section \<open>Executions\<close>


text \<open>\<open>None\<close> in place of an execution is the zero value that goes with an early error.\<close>

type_synonym run_result = "Execution option \<times> error option"

definition finishFailed ::
  "World \<Rightarrow> Job \<Rightarrow> Execution \<Rightarrow> error \<Rightarrow> Result \<Rightarrow> error \<times> World" where
  "finishFailed w job execution runErr result =
     (let (now, w1) = time_Now w;
          ex1 = execution\<lparr>Exec_Status := ExecutionStatusFailed, Exec_Logs := Result_Logs result,
                  Exec_Manifest := Result_Manifest result, Exec_ExitCode := Result_ExitCode result,
                  Exec_Error := Error runErr, Exec_FinishedAt := now\<rparr>
      in case Memory_UpdateExecution (repo w1) ex1 of
           Inl err \<Rightarrow> (wrapf (''update failed execution '' @ Exec_ID ex1) err, w1)
         | Inr s \<Rightarrow>
             (let w2 = w1\<lparr>repo := s\<rparr>;
                  (job1, w3) =
                    (if Scheduler_CanRetry job then
                       (let (t, w2') = time_Now w2; j = MarkRetrying t job (Error runErr)
                        in (j, trace_add (count_metric IncRetried w2') (Job_TraceID j)
                                 ''job.run_failed_retryable'' [(''job_id'', Job_ID j)]))
                     else
                       (let j = job\<lparr>Job_Status := JobStatusFailed, Job_LastError := Error runErr,
                                  Job_UpdatedAt := Exec_FinishedAt ex1\<rparr>
                        in (j, trace_add (count_metric IncFailed w2) (Job_TraceID j)
                                 ''job.run_failed'' [(''job_id'', Job_ID j)])))
              in case Memory_UpdateJob (repo w3) job1 of
                   Inl err \<Rightarrow> (wrapf (''update failed job '' @ Job_ID job1) err, w3)
                 | Inr s' \<Rightarrow>
                     (wrapf (''execute job '' @ Job_ID job1) runErr,
                      count_metric (\<lambda>m. ObserveRuntime m (time_Sub (Exec_FinishedAt ex1) (Exec_StartedAt ex1)))
                        (w3\<lparr>repo := s'\<rparr>))))"

text \<open>The end of \<^verbatim>\<open>RunJob\<close> when the executor returned without an error.\<close>

definition finishSucceeded :: "World \<Rightarrow> Job \<Rightarrow> Execution \<Rightarrow> Result \<Rightarrow> run_result \<times> World" where
  "finishSucceeded w job execution result =
     (let (now, w1) = time_Now w;
          ex1 = execution\<lparr>Exec_Status := ExecutionStatusSucceeded, Exec_Logs := Result_Logs result,
                  Exec_Manifest := Result_Manifest result, Exec_ExitCode := Result_ExitCode result,
                  Exec_FinishedAt := now\<rparr>
      in case Memory_UpdateExecution (repo w1) ex1 of
           Inl err \<Rightarrow> ((None, Some (wrapf (''update execution '' @ Exec_ID ex1) err)), w1)
         | Inr s \<Rightarrow>
             (let w2 = w1\<lparr>repo := s\<rparr>;
                  job1 = job\<lparr>Job_Status := JobStatusSucceeded, Job_UpdatedAt := Exec_FinishedAt ex1,
                            Job_LastError := ''''\<rparr>
              in case Memory_UpdateJob (repo w2) job1 of
                   Inl err \<Rightarrow> ((None, Some (wrapf ''mark job succeeded'' err)), w2)
                 | Inr s' \<Rightarrow>
                     ((Some ex1, None),
                      trace_add
                        (count_metric (\<lambda>m. ObserveRuntime m (time_Sub (Exec_FinishedAt ex1) (Exec_StartedAt ex1)))
                          (count_metric IncSucceeded (w2\<lparr>repo := s'\<rparr>)))
                        (Job_TraceID job1) ''job.run_succeeded'' [(''job_id'', Job_ID job1)])))"

text \<open>\<^verbatim>\<open>RunJob\<close> once the job is marked running: the executor and its outcome.\<close>

definition runExecutor :: "World \<Rightarrow> Registry \<Rightarrow> Job \<Rightarrow> Execution \<Rightarrow> run_result \<times> World" where
  "runExecutor w registry job execution =
     (case Registry_Get registry (Job_Executor job) of
        Inl err \<Rightarrow>
          (let (e, w1) = finishFailed w job execution (wrapf ''load executor'' err) empty_result
           in ((Some execution, Some e), w1))
      | Inr executor \<Rightarrow>
          (let (result, runErr) = Execute executor (tick w) job;
               w1 = w\<lparr>tick := Suc (tick w)\<rparr>
           in case runErr of
                Some err \<Rightarrow>
                  if is_panic err then ((None, Some err), w1)
                  else
                    (let (e, w2) = finishFailed w1 job execution err result
                     in ((Some execution, Some e), w2))
              | None \<Rightarrow> finishSucceeded w1 job execution result))"

text \<open>\<^verbatim>\<open>RunJob\<close> from the moment the job is scheduled.\<close>

definition startExecution :: "World \<Rightarrow> Registry \<Rightarrow> Job \<Rightarrow> run_result \<times> World" where
  "startExecution w registry job =
     (let (eid, w1) = nextID w ''exec'';
          (started, w2) = time_Now w1;
          execution = \<lparr>Exec_ID = eid, Exec_JobID = Job_ID job, Exec_Attempt = i64 (Job_RetryCount job + 1),
            Exec_Status = ExecutionStatusRunning, Exec_Executor = Job_Executor job,
            Exec_TraceID = Job_TraceID job, Exec_Logs = '''', Exec_Manifest = '''', Exec_ExitCode = 0,
            Exec_Error = '''', Exec_StartedAt = started, Exec_FinishedAt = time_zero\<rparr>
      in case Memory_CreateExecution (repo w2) execution of
           Inl err \<Rightarrow> ((None, Some (wrapf ''create execution'' err)), w2)
         | Inr s \<Rightarrow>
             (let (now, w3) = time_Now (w2\<lparr>repo := s\<rparr>);
                  job1 = job\<lparr>Job_Status := JobStatusRunning, Job_UpdatedAt := now\<rparr>
              in case Memory_UpdateJob (repo w3) job1 of
                   Inl err \<Rightarrow> ((None, Some (wrapf ''mark job running'' err)), w3)
                 | Inr s' \<Rightarrow>
                     runExecutor
                       (trace_add (count_metric IncRunning (w3\<lparr>repo := s'\<rparr>)) (Job_TraceID job1)
                          ''job.run_started'' [(''job_id'', Job_ID job1)])
                       registry job1 execution))"

definition RunJob :: "World \<Rightarrow> Registry \<Rightarrow> string \<Rightarrow> run_result \<times> World" where
  "RunJob w registry jid =
     (case Memory_GetJob (repo w) jid of
        Inl err \<Rightarrow> ((None, Some (wrapf (''get job '' @ jid) err)), w)
      | Inr job \<Rightarrow>
          (let (r, w1) = (if Job_Status job \<noteq> JobStatusScheduled then ScheduleJob w jid else (Inr job, w))
           in case r of
                Inl err \<Rightarrow> ((None, Some err), w1)
              | Inr job1 \<Rightarrow> startExecution w1 registry job1))"

text \<open>\<open>RunJob\<close> returns the zero execution only with an error, so the last case does not arise.\<close>

fun run_all :: "World \<Rightarrow> Registry \<Rightarrow> Job list \<Rightarrow> Execution list \<Rightarrow> (Execution list \<times> error option) \<times> World" where
  "run_all w registry [] exs = ((exs, None), w)"
| "run_all w registry (job # js) exs =
     (case RunJob w registry (Job_ID job) of
        ((_, Some runErr), w1) \<Rightarrow> ((exs, Some runErr), w1)
      | ((Some ex, None), w1) \<Rightarrow> run_all w1 registry js (exs @ [ex])
      | ((None, None), w1) \<Rightarrow> run_all w1 registry js exs)"

definition DispatchPending :: "World \<Rightarrow> Registry \<Rightarrow> int \<Rightarrow> (Execution list \<times> error option) \<times> World" where
  "DispatchPending w registry limit =
     (case SchedulePending w limit of
        (Inl err, w1) \<Rightarrow> (([], Some err), w1)
      | (Inr scheduledJobs, w1) \<Rightarrow> run_all w1 registry scheduledJobs [])"

definition ListExecutions :: "World \<Rightarrow> string \<Rightarrow> error + Execution list" where
  "ListExecutions w jid =
     (case Memory_ListExecutions (repo w) jid of
        Inl err \<Rightarrow> Inl (wrapf (''list executions for job '' @ jid) err)
      | Inr items \<Rightarrow> Inr items)"

section \<open>Identifiers are fresh\<close>

text \<open>
  Every stored identifier ends with a number the counter has already given. The counter is
  64 bits wide; the lemmas ask that the operation does not make it wrap.
\<close>

definition ids_below :: "MemoryStore \<Rightarrow> nat \<Rightarrow> bool" where
  "ids_below s n \<longleftrightarrow>
     (\<forall>jid. find_job s jid \<noteq> None \<longrightarrow> id_seq jid \<le> n) \<and>
     (\<forall>eid. executions s eid \<noteq> None \<longrightarrow> id_seq eid \<le> n)"

definition service_ok :: "World \<Rightarrow> bool" where
  "service_ok w \<longleftrightarrow> world_ok w \<and> ids_below (repo w) (sequence w)"

lemma service_ok_D: "service_ok w \<Longrightarrow> world_ok w" "service_ok w \<Longrightarrow> ids_below (repo w) (sequence w)"
  "service_ok w \<Longrightarrow> store_wf (repo w)" "service_ok w \<Longrightarrow> env_ok (environment w)"
  "service_ok w \<Longrightarrow> store_ok (repo w)"
  by (simp_all add: service_ok_def world_ok_def store_ok_def)

lemma ids_below_fresh:
  assumes "ids_below s n" and "n < id_seq k"
  shows "find_job s k = None" and "executions s k = None"
  using assms by (auto simp: ids_below_def)

lemma ids_below_mono: "ids_below s m \<Longrightarrow> m \<le> n \<Longrightarrow> ids_below s n"
  by (auto simp: ids_below_def intro: order_trans)

lemma ids_below_put_job: "ids_below s n \<Longrightarrow> id_seq (Job_ID job) \<le> n \<Longrightarrow> ids_below (put_job s job) n"
  by (auto simp: ids_below_def)

lemma ids_below_put_execution: "ids_below s n \<Longrightarrow> id_seq (Exec_ID ex) \<le> n \<Longrightarrow> ids_below (put_execution s ex) n"
  by (auto simp: ids_below_def)

lemma ids_below_add_execution: "ids_below s n \<Longrightarrow> id_seq (Exec_ID ex) \<le> n \<Longrightarrow> ids_below (add_execution s ex) n"
  by (auto simp: ids_below_def)

lemma nextID_fresh:
  assumes "ids_below (repo w) (sequence w)" and "Suc (sequence w) < 2 ^ 64" and "sequence w1 = sequence w"
  shows "find_job (repo w) (fst (nextID w1 pre)) = None \<and> executions (repo w) (fst (nextID w1 pre)) = None \<and>
    id_seq (fst (nextID w1 pre)) = Suc (sequence w)"
proof -
  have *: "id_seq (fst (nextID w1 pre)) = Suc (sequence w)"
    using assms(2,3) by (simp add: id_seq_nextID)
  then have "sequence w < id_seq (fst (nextID w1 pre))" by simp
  from * ids_below_fresh [OF assms(1) this] show ?thesis by simp
qed

lemma placed_as_ids:
  assumes "placed_as w job job' w'" and "find_job (repo w) (Job_ID job) = Some job" and "ids_below (repo w) n"
  shows "ids_below (repo w') n"
  using assms placed_as_D(4) [OF assms(1)] by (auto simp: ids_below_def placed_as_def)

section \<open>Refinement\<close>

text \<open>
  Each service operation is a sequence of lifecycle steps that keeps the invariant and
  makes at most \<open>k\<close> new identifiers.
\<close>

definition service_step :: "nat \<Rightarrow> World \<Rightarrow> World \<Rightarrow> bool" where
  "service_step k w w' \<longleftrightarrow>
     lifecycle_step\<^sup>*\<^sup>* (repo w) (repo w') \<and> service_ok w' \<and>
     executions (repo w) \<subseteq>\<^sub>m executions (repo w') \<and>
     sequence w \<le> sequence w' \<and> sequence w' \<le> sequence w + k \<and>
     environment w' = environment w \<and> strategy w' = strategy w"

lemma service_step_refl: "service_ok w \<Longrightarrow> service_step k w w"
  by (simp add: service_step_def)

lemma service_step_trans:
  "service_step k w w1 \<Longrightarrow> service_step l w1 w2 \<Longrightarrow> service_step (k + l) w w2"
  by (auto simp: service_step_def intro: map_le_trans)

lemma service_step_mono: "service_step k w w' \<Longrightarrow> k \<le> l \<Longrightarrow> service_step l w w'"
  by (auto simp: service_step_def)

lemma service_stepI:
  assumes "service_ok w" and "lifecycle_step\<^sup>*\<^sup>* (repo w) (repo w')" and "ids_below (repo w') (sequence w')"
    and "executions (repo w) \<subseteq>\<^sub>m executions (repo w')"
    and "sequence w \<le> sequence w'" and "sequence w' \<le> sequence w + k"
    and "environment w' = environment w" and "strategy w' = strategy w"
  shows "service_step k w w'"
proof -
  have "store_ok (repo w')" using assms(2) service_ok_D(5) [OF assms(1)] by (rule lifecycle.steps_inv)
  with assms show ?thesis by (simp add: service_step_def service_ok_def world_ok_def)
qed

lemma cloneMap_entries: "distinct (map fst (map_entries m)) \<Longrightarrow> cloneMap m = Some (map_entries m)"
proof -
  have "foldl (\<lambda>out (k, v). AList.update k v out) acc kvs = acc @ kvs"
    if "distinct (map fst (acc @ kvs))" for acc kvs :: "(string \<times> string) list"
    using that
  proof (induction kvs arbitrary: acc)
    case (Cons kv kvs)
    obtain k v where kv: "kv = (k, v)" by fastforce
    with Cons.prems have "AList.update k v acc = acc @ [kv]" by (auto intro!: update_fresh)
    with Cons.IH [of "acc @ [kv]"] Cons.prems kv show ?case by simp
  qed simp
  from this [of "[]"] show "distinct (map fst (map_entries m)) \<Longrightarrow> ?thesis"
    by (simp add: cloneMap_def)
qed

subsection \<open>Submitting\<close>

text \<open>The stored job is the request with a new identifier, pending and never tried.\<close>

definition submitted_as :: "CreateJobInput \<Rightarrow> Job \<Rightarrow> bool" where
  "submitted_as inp job \<longleftrightarrow>
     Job_Status job = JobStatusPending \<and> Job_RetryCount job = 0 \<and> Job_LastError job = '''' \<and>
     Job_Name job = Input_Name inp \<and> Job_Type job = Input_Type inp \<and> Job_Executor job = Input_Executor inp \<and>
     Job_Priority job = Input_Priority inp \<and> Job_ModelVersion job = Input_ModelVersion inp \<and>
     Job_DatasetVersion job = Input_DatasetVersion inp \<and> Job_ImageTag job = Input_ImageTag inp \<and>
     Job_ResourceSpec job = Input_ResourceSpec inp \<and> Job_Command job = Input_Command inp \<and>
     Job_Environment job = cloneMap (Input_Environment inp) \<and> Job_Metadata job = cloneMap (Input_Metadata inp) \<and>
     Job_MaxRetries job = Input_MaxRetries inp \<and> Job_UpdatedAt job = Job_CreatedAt job"

lemma CreateJob_invalid: "CreateJobInput_Validate inp = Some err \<Longrightarrow> CreateJob w inp = (Inl err, w)"
  by (simp add: CreateJob_def)

lemma CreateJob_fresh:
  assumes "ids_below (repo w) (sequence w)" and "Suc (sequence w) < 2 ^ 64" and "CreateJobInput_Validate inp = None"
  obtains job w' where "CreateJob w inp = (Inr job, w')" and "submitted_as inp job"
    and "repo w' = put_job (repo w) job" and "find_job (repo w) (Job_ID job) = None"
    and "id_seq (Job_ID job) = Suc (sequence w)" and "sequence w' = Suc (sequence w)"
    and "environment w' = environment w" and "strategy w' = strategy w"
    and "metrics w' = IncSubmitted (metrics w)"
proof -
  obtain job w' where r: "CreateJob w inp = (Inr job, w')"
    using assms(3) by (auto simp: CreateJob_def Let_def split_beta Memory_CreateJob_def)
  let ?w2 = "snd (new_trace (snd (time_Now w)) ''job.submit'')"
  have jid: "Job_ID job = fst (nextID ?w2 ''job'')" and sub: "submitted_as inp job"
    and w': "repo w' = put_job (repo w) job" "sequence w' = Suc (sequence w)"
      "environment w' = environment w" "strategy w' = strategy w" "metrics w' = IncSubmitted (metrics w)"
    using r assms(3)
    by (auto simp: CreateJob_def Let_def split_beta Memory_CreateJob_def put_job_def submitted_as_def)
  have "sequence ?w2 = sequence w" by simp
  from nextID_fresh [OF assms(1,2) this, of "''job''"]
  have "find_job (repo w) (Job_ID job) = None" "id_seq (Job_ID job) = Suc (sequence w)"
    unfolding jid by blast+
  then show thesis using r sub w' by (intro that)
qed

lemmas CreateJob_valid = CreateJob_fresh [OF service_ok_D(2)]

lemma submitted_job_new:
  "submitted_as inp job \<Longrightarrow> CreateJobInput_Validate inp = None \<Longrightarrow> is_i64 (Input_MaxRetries inp) \<Longrightarrow> job_new job"
  by (simp add: submitted_as_def job_new_def CreateJobInput_Validate_None)

lemma CreateJob_step:
  assumes "service_ok w" and "Suc (sequence w) < 2 ^ 64" and "is_i64 (Input_MaxRetries inp)"
  shows "service_step 1 w (snd (CreateJob w inp))"
proof (cases "CreateJobInput_Validate inp")
  case None
  from CreateJob_valid [OF assms(1,2) None] obtain job w' where
    c: "CreateJob w inp = (Inr job, w')" "submitted_as inp job" "repo w' = put_job (repo w) job"
      "find_job (repo w) (Job_ID job) = None" "id_seq (Job_ID job) = Suc (sequence w)"
      "sequence w' = Suc (sequence w)" "environment w' = environment w" "strategy w' = strategy w" .
  have "lifecycle_step (repo w) (repo w')"
    unfolding c(3) using c(4) submitted_job_new [OF c(2) None assms(3)] by (rule lifecycle_step.submit)
  moreover have "ids_below (repo w') (Suc (sequence w))"
    unfolding c(3) using service_ok_D(2) [OF assms(1)] c(5)
    by (intro ids_below_put_job) (auto intro: ids_below_mono)
  ultimately show ?thesis using c assms(1) by (auto intro!: service_stepI)
next
  case (Some err)
  with assms(1) show ?thesis by (simp add: CreateJob_invalid service_step_refl)
qed

subsection \<open>Cancelling and retrying by hand\<close>

lemma GetJob_stored: "GetJob w jid = Inr job \<longleftrightarrow> find_job (repo w) jid = Some job"
  by (simp add: GetJob_def Memory_GetJob_def find_job_def split: option.splits)

lemma GetJob_missing: "find_job (repo w) jid = None \<Longrightarrow> GetJob w jid = Inl (wrapf (''get job '' @ jid) ErrNotFound)"
  by (simp add: GetJob_def Memory_GetJob_def find_job_def)

lemma Memory_UpdateJob_stored:
  "find_job s (Job_ID job) = Some old \<Longrightarrow> Memory_UpdateJob s job = Inr (put_job s job)"
  by (simp add: Memory_UpdateJob_def find_job_def put_job_def)

lemma CancelJob_ok:
  assumes "store_wf (repo w)" and "find_job (repo w) jid = Some job" and "CanCancel job"
  obtains t w' where "CancelJob w jid = (Inr (job\<lparr>Job_Status := JobStatusCancelled, Job_UpdatedAt := t\<rparr>), w')"
    and "repo w' = put_job (repo w) (job\<lparr>Job_Status := JobStatusCancelled, Job_UpdatedAt := t\<rparr>)"
    and "same_config w w'" and "metrics w' = IncCancelled (metrics w)"
proof -
  obtain t w1 where t: "time_Now w = (t, w1)" by fastforce
  have upd: "Memory_UpdateJob (repo w) (job\<lparr>Job_Status := JobStatusCancelled, Job_UpdatedAt := t\<rparr>) =
      Inr (put_job (repo w) (job\<lparr>Job_Status := JobStatusCancelled, Job_UpdatedAt := t\<rparr>))"
    using assms(2) find_job_key [OF assms(1,2)] by (intro Memory_UpdateJob_stored [where old = job]) simp
  note w1 = time_Now_frame [of w, unfolded t snd_conv]
  from GetJob_stored [THEN iffD2, OF assms(2)] assms(3) upd w1 have "CancelJob w jid =
      (Inr (job\<lparr>Job_Status := JobStatusCancelled, Job_UpdatedAt := t\<rparr>),
       trace_add (count_metric IncCancelled (w1\<lparr>repo := put_job (repo w)
           (job\<lparr>Job_Status := JobStatusCancelled, Job_UpdatedAt := t\<rparr>)\<rparr>))
         (Job_TraceID job) ''job.cancelled'' [(''job_id'', Job_ID job)])"
    by (simp add: CancelJob_def t Let_def)
  then show thesis by (rule that) (simp_all add: same_config_def w1)
qed

lemma RetryJob_ok:
  assumes "store_wf (repo w)" and "find_job (repo w) jid = Some job" and "CanRetry job"
  obtains t w' where "RetryJob w jid =
      (Inr (job\<lparr>Job_Status := JobStatusPending, Job_LastError := [], Job_UpdatedAt := t\<rparr>), w')"
    and "repo w' = put_job (repo w) (job\<lparr>Job_Status := JobStatusPending, Job_LastError := [], Job_UpdatedAt := t\<rparr>)"
    and "same_config w w'" and "metrics w' = IncRetried (metrics w)"
proof -
  obtain t w1 where t: "time_Now w = (t, w1)" by fastforce
  let ?job = "job\<lparr>Job_Status := JobStatusPending, Job_LastError := [], Job_UpdatedAt := t\<rparr>"
  have upd: "Memory_UpdateJob (repo w) ?job = Inr (put_job (repo w) ?job)"
    using assms(2) find_job_key [OF assms(1,2)] by (intro Memory_UpdateJob_stored [where old = job]) simp
  note w1 = time_Now_frame [of w, unfolded t snd_conv]
  from GetJob_stored [THEN iffD2, OF assms(2)] assms(3) upd w1 have "RetryJob w jid =
      (Inr ?job, trace_add (count_metric IncRetried (w1\<lparr>repo := put_job (repo w) ?job\<rparr>))
         (Job_TraceID job) ''job.retry_requested'' [(''job_id'', Job_ID job)])"
    by (simp add: RetryJob_def t Let_def)
  then show thesis by (rule that) (simp_all add: same_config_def w1)
qed

lemma CancelJob_rejected:
  assumes "\<And>job. find_job (repo w) jid = Some job \<Longrightarrow> \<not> CanCancel job"
  shows "\<exists>err. CancelJob w jid = (Inl err, w)"
proof (cases "GetJob w jid")
  case (Inr job)
  moreover from this have "\<not> CanCancel job" using assms GetJob_stored by blast
  ultimately show ?thesis by (simp add: CancelJob_def)
qed (simp add: CancelJob_def)

lemma RetryJob_rejected:
  assumes "\<And>job. find_job (repo w) jid = Some job \<Longrightarrow> \<not> CanRetry job"
  shows "\<exists>err. RetryJob w jid = (Inl err, w)"
proof (cases "GetJob w jid")
  case (Inr job)
  moreover from this have "\<not> CanRetry job" using assms GetJob_stored by blast
  ultimately show ?thesis by (simp add: RetryJob_def)
qed (simp add: RetryJob_def)

lemma same_config_step:
  assumes "service_ok w" and "lifecycle_step (repo w) (repo w')" and "same_config w w'"
    and "ids_below (repo w') (sequence w)" and "executions (repo w') = executions (repo w)"
  shows "service_step 0 w w'"
  using assms by (intro service_stepI) (auto simp: same_config_def)

lemma stored_id: "service_ok w \<Longrightarrow> find_job (repo w) jid = Some job \<Longrightarrow> id_seq (Job_ID job) \<le> sequence w"
  using find_job_key [OF service_ok_D(3)] service_ok_D(2) by (fastforce simp: ids_below_def)

lemma CancelJob_step:
  assumes "service_ok w"
  shows "service_step 0 w (snd (CancelJob w jid))"
proof (cases "\<exists>job. find_job (repo w) jid = Some job \<and> CanCancel job")
  case True
  then obtain job where job: "find_job (repo w) jid = Some job" "CanCancel job" by blast
  from CancelJob_ok [OF service_ok_D(3) [OF assms] this] obtain t w' where
    c: "snd (CancelJob w jid) = w'" "same_config w w'"
      "repo w' = put_job (repo w) (job\<lparr>Job_Status := JobStatusCancelled, Job_UpdatedAt := t\<rparr>)"
    by (metis snd_conv)
  then show ?thesis
    using assms job stored_id [OF assms job(1)]
    by (auto intro!: same_config_step ids_below_put_job service_ok_D(2) lifecycle_step.cancel)
next
  case False
  with CancelJob_rejected [of w jid] assms show ?thesis by (auto simp: service_step_refl)
qed

lemma RetryJob_step:
  assumes "service_ok w"
  shows "service_step 0 w (snd (RetryJob w jid))"
proof (cases "\<exists>job. find_job (repo w) jid = Some job \<and> CanRetry job")
  case True
  then obtain job where job: "find_job (repo w) jid = Some job" "CanRetry job" by blast
  from RetryJob_ok [OF service_ok_D(3) [OF assms] this] obtain t w' where
    c: "snd (RetryJob w jid) = w'" "same_config w w'"
      "repo w' = put_job (repo w) (job\<lparr>Job_Status := JobStatusPending, Job_LastError := '''', Job_UpdatedAt := t\<rparr>)"
    by (metis snd_conv)
  then show ?thesis
    using assms job stored_id [OF assms job(1)]
    by (auto intro!: same_config_step ids_below_put_job service_ok_D(2) lifecycle_step.requeue)
next
  case False
  with RetryJob_rejected [of w jid] assms show ?thesis by (auto simp: service_step_refl)
qed

subsection \<open>Scheduling\<close>

lemma ScheduleJob_step:
  assumes "service_ok w"
  shows "service_step 0 w (snd (ScheduleJob w jid))"
proof -
  obtain r w' where r: "ScheduleJob w jid = (r, w')" by fastforce
  note cases = ScheduleJob_cases [OF service_ok_D(3,4) [OF assms] r]
  show ?thesis
  proof (cases r)
    case (Inl err)
    with cases have "place_failed w w'" by simp
    with assms r show ?thesis
      by (simp add: service_step_def service_ok_def world_ok_def place_failed_def same_config_def)
  next
    case (Inr job')
    with cases obtain job where job: "find_job (repo w) jid = Some job" and placed: "placed_as w job job' w'" by auto
    have "ids_below (repo w') (sequence w)"
      using placed find_job_stored [OF service_ok_D(3) [OF assms] job] service_ok_D(2) [OF assms]
      by (rule placed_as_ids)
    with placed_as_D(1,2) [OF placed] placed assms r show ?thesis by (simp add: same_config_step placed_as_def)
  qed
qed

lemma place_run_ids:
  "place_run w js n ps w' \<Longrightarrow> queued (repo w) js \<Longrightarrow> ids_below (repo w) m \<Longrightarrow> ids_below (repo w') m"
proof (induction rule: place_run.induct)
  case (skip w job w1 js n ps w')
  then have "queued (repo w1) js" "ids_below (repo w1) m"
    using place_failed_D(1) [OF skip.hyps(2)] by (simp_all add: queued_def)
  then show ?case by (rule skip.IH)
next
  case (place w job job' w1 js n ps w')
  then show ?case
    using queued_placed placed_as_ids by (metis list.set_intros(1) queued_def)
qed simp

lemma place_run_executions: "place_run w js n ps w' \<Longrightarrow> executions (repo w') = executions (repo w)"
  by (induction rule: place_run.induct) (simp_all add: place_failed_D(1) placed_as_def)

lemma SchedulePending_step:
  assumes "service_ok w"
  shows "service_step 0 w (snd (SchedulePending w limit))"
proof (cases "SchedulePending w limit")
  case (Pair r w')
  show ?thesis
  proof (cases r)
    case (Inl err)
    with Pair have "repo w' = repo w" "same_config w w'"
      by (auto simp: SchedulePending_def Memory_ListJobs_def split_beta Let_def split: if_splits)
    with Pair assms show ?thesis
      by (simp add: service_step_def service_ok_def world_ok_def same_config_def)
  next
    case (Inr ps)
    from SchedulePending_run [OF service_ok_D(1) [OF assms] Pair [unfolded Inr]]
    obtain js w1 where run: "place_run w1 js (nat limit) ps w'" "world_ok w1" "same_config w w1"
      "repo w1 = repo w" "distinct (map Job_ID js)" "set js = {job. schedulable (repo w) job}" by metis
    have "queued (repo w1) js" using run(4-6) by (auto simp: queued_def schedulable_def)
    with place_run_ids [OF run(1)] run(4) service_ok_D(2) [OF assms]
    have "ids_below (repo w') (sequence w)" by simp
    with place_run_steps [OF run(1)] place_run_executions [OF run(1)] run(3,4) assms Pair show ?thesis
      by (intro service_stepI) (auto simp: same_config_def)
  qed
qed

subsection \<open>Running\<close>

text \<open>A job that is running, with the execution that runs it.\<close>

definition in_flight :: "MemoryStore \<Rightarrow> Job \<Rightarrow> Execution \<Rightarrow> bool" where
  "in_flight s job ex \<longleftrightarrow>
     find_job s (Job_ID job) = Some job \<and> Job_Status job = JobStatusRunning \<and>
     executions s (Exec_ID ex) = Some ex \<and> Exec_JobID ex = Job_ID job \<and> Exec_Status ex = ExecutionStatusRunning"

lemma Memory_UpdateExecution_stored:
  "executions s (Exec_ID ex) = Some old \<Longrightarrow> Memory_UpdateExecution s ex = Inr (put_execution s ex)"
  by (simp add: Memory_UpdateExecution_def put_execution_def)

lemma update_stored: "map_of al k = Some v \<Longrightarrow> AList.update k v al = al"
  by (induction al) (auto split: if_splits)

lemma in_flight_put:
  assumes "in_flight s job ex"
  shows "put_job (put_execution s ex) job = s"
proof -
  have "map_of (jobs s) (Job_ID job) = Some job" "executions s (Exec_ID ex) = Some ex"
    using assms by (simp_all add: in_flight_def find_job_def)
  then show ?thesis by (simp add: put_job_def put_execution_def fun_upd_idem update_stored)
qed

text \<open>What an execution and its job look like after the run.\<close>

definition run_failed :: "Job \<Rightarrow> Execution \<Rightarrow> error \<Rightarrow> Result \<Rightarrow> Job \<Rightarrow> Execution \<Rightarrow> bool" where
  "run_failed job ex err res job' ex' \<longleftrightarrow>
     (\<exists>t t'. ex' = ex\<lparr>Exec_Status := ExecutionStatusFailed, Exec_Logs := Result_Logs res,
        Exec_Manifest := Result_Manifest res, Exec_ExitCode := Result_ExitCode res,
        Exec_Error := Error err, Exec_FinishedAt := t\<rparr> \<and>
      job' = (if Scheduler_CanRetry job then MarkRetrying t' job (Error err)
              else job\<lparr>Job_Status := JobStatusFailed, Job_LastError := Error err, Job_UpdatedAt := t\<rparr>))"

definition run_succeeded :: "Job \<Rightarrow> Execution \<Rightarrow> Result \<Rightarrow> Job \<Rightarrow> Execution \<Rightarrow> bool" where
  "run_succeeded job ex res job' ex' \<longleftrightarrow>
     (\<exists>t. ex' = ex\<lparr>Exec_Status := ExecutionStatusSucceeded, Exec_Logs := Result_Logs res,
        Exec_Manifest := Result_Manifest res, Exec_ExitCode := Result_ExitCode res, Exec_FinishedAt := t\<rparr> \<and>
      job' = job\<lparr>Job_Status := JobStatusSucceeded, Job_UpdatedAt := t, Job_LastError := ''''\<rparr>)"

lemma MarkRetrying_simps [simp]:
  "Job_ID (MarkRetrying t job msg) = Job_ID job" "Job_TraceID (MarkRetrying t job msg) = Job_TraceID job"
  "Job_Status (MarkRetrying t job msg) = JobStatusRetrying"
  by (simp_all add: MarkRetrying_def)

lemma finishFailed_in_flight:
  assumes "in_flight (repo w) job ex"
  obtains job' ex' w' where "finishFailed w job ex err res = (wrapf (''execute job '' @ Job_ID job) err, w')"
    and "repo w' = put_job (put_execution (repo w) ex') job'" and "run_failed job ex err res job' ex'"
    and "same_config w w'"
proof -
  obtain t w1 where t: "time_Now w = (t, w1)" by fastforce
  note w1 = time_Now_frame [of w, unfolded t snd_conv]
  let ?ex = "ex\<lparr>Exec_Status := ExecutionStatusFailed, Exec_Logs := Result_Logs res,
        Exec_Manifest := Result_Manifest res, Exec_ExitCode := Result_ExitCode res,
        Exec_Error := Error err, Exec_FinishedAt := t\<rparr>"
  obtain t' w2 where t': "time_Now (w1\<lparr>repo := put_execution (repo w) ?ex\<rparr>) = (t', w2)" by fastforce
  note w2 = time_Now_frame [of "w1\<lparr>repo := put_execution (repo w) ?ex\<rparr>", unfolded t' snd_conv]
  let ?job = "if Scheduler_CanRetry job then MarkRetrying t' job (Error err)
     else job\<lparr>Job_Status := JobStatusFailed, Job_LastError := Error err, Job_UpdatedAt := t\<rparr>"
  have ex: "Memory_UpdateExecution (repo w) ?ex = Inr (put_execution (repo w) ?ex)"
    using assms by (intro Memory_UpdateExecution_stored [where old = ex]) (simp add: in_flight_def)
  have job: "Memory_UpdateJob (put_execution (repo w) ?ex) ?job = Inr (put_job (put_execution (repo w) ?ex) ?job)"
    using assms by (intro Memory_UpdateJob_stored [where old = job]) (simp add: in_flight_def)
  let ?w' = "snd (finishFailed w job ex err res)"
  have *: "finishFailed w job ex err res = (wrapf (''execute job '' @ Job_ID job) err, ?w') \<and>
      repo ?w' = put_job (put_execution (repo w) ?ex) ?job \<and> same_config w ?w'"
    using ex job by (cases "Scheduler_CanRetry job")
      (simp_all add: finishFailed_def t t' Let_def w1 w2 same_config_def)
  moreover have "run_failed job ex err res ?job ?ex" unfolding run_failed_def by blast
  ultimately show thesis using that by blast
qed

lemma finishSucceeded_in_flight:
  assumes "in_flight (repo w) job ex"
  obtains job' ex' w' where "finishSucceeded w job ex res = ((Some ex', None), w')"
    and "repo w' = put_job (put_execution (repo w) ex') job'" and "run_succeeded job ex res job' ex'"
    and "same_config w w'"
proof -
  obtain t w1 where t: "time_Now w = (t, w1)" by fastforce
  note w1 = time_Now_frame [of w, unfolded t snd_conv]
  let ?ex = "ex\<lparr>Exec_Status := ExecutionStatusSucceeded, Exec_Logs := Result_Logs res,
        Exec_Manifest := Result_Manifest res, Exec_ExitCode := Result_ExitCode res, Exec_FinishedAt := t\<rparr>"
  let ?job = "job\<lparr>Job_Status := JobStatusSucceeded, Job_UpdatedAt := t, Job_LastError := ''''\<rparr>"
  have ex: "Memory_UpdateExecution (repo w) ?ex = Inr (put_execution (repo w) ?ex)"
    using assms by (intro Memory_UpdateExecution_stored [where old = ex]) (simp add: in_flight_def)
  have job: "Memory_UpdateJob (put_execution (repo w) ?ex) ?job = Inr (put_job (put_execution (repo w) ?ex) ?job)"
    using assms by (intro Memory_UpdateJob_stored [where old = job]) (simp add: in_flight_def)
  let ?w' = "snd (finishSucceeded w job ex res)"
  have "finishSucceeded w job ex res = ((Some ?ex, None), ?w') \<and>
      repo ?w' = put_job (put_execution (repo w) ?ex) ?job \<and> same_config w ?w'"
    using ex job by (simp add: finishSucceeded_def t Let_def w1 same_config_def)
  moreover have "run_succeeded job ex res ?job ?ex" unfolding run_succeeded_def by blast
  ultimately show thesis using that by blast
qed

text \<open>What the executor of a job delivers; an unknown executor is an error of its own.\<close>

definition executor_result :: "Registry \<Rightarrow> nat \<Rightarrow> Job \<Rightarrow> Result \<times> error option" where
  "executor_result registry n job =
     (case Registry_Get registry (Job_Executor job) of
        Inl err \<Rightarrow> (empty_result, Some (wrapf ''load executor'' err))
      | Inr executor \<Rightarrow> Execute executor n job)"

text \<open>A panic of the executor leaves the job and the execution as they are: running.\<close>

definition settles :: "Job \<Rightarrow> Execution \<Rightarrow> Result \<times> error option \<Rightarrow> Job \<Rightarrow> Execution \<Rightarrow> bool" where
  "settles job ex out job' ex' \<longleftrightarrow>
     (case out of
        (res, None) \<Rightarrow> run_succeeded job ex res job' ex'
      | (res, Some err) \<Rightarrow> if is_panic err then job' = job \<and> ex' = ex else run_failed job ex err res job' ex')"

definition run_reply :: "Job \<Rightarrow> Execution \<Rightarrow> Execution \<Rightarrow> error option \<Rightarrow> run_result" where
  "run_reply job ex ex' eo =
     (case eo of
        None \<Rightarrow> (Some ex', None)
      | Some err \<Rightarrow> if is_panic err then (None, Some err) else (Some ex, Some (wrapf (''execute job '' @ Job_ID job) err)))"

lemma in_flight_tick [simp]: "repo (w\<lparr>tick := n\<rparr>) = repo w" "same_config (w\<lparr>tick := n\<rparr>) w' = same_config w w'"
  by (simp_all add: same_config_def)

text \<open>What a run amounts to once its outcome is known.\<close>

definition run_ends ::
  "World \<Rightarrow> Registry \<Rightarrow> Job \<Rightarrow> Execution \<Rightarrow> Result \<times> error option \<Rightarrow> bool" where
  "run_ends w registry job ex out \<longleftrightarrow>
     (\<exists>job' ex' w'. runExecutor w registry job ex = (run_reply job ex ex' (snd out), w') \<and> settles job ex out job' ex' \<and>
        repo w' = put_job (put_execution (repo w) ex') job' \<and> same_config w w')"

lemma failed_run_ends:
  assumes "in_flight (repo w1) job ex" and "repo w1 = repo w" and "same_config w w1" and "\<not> is_panic err"
    and "runExecutor w registry job ex =
      (case finishFailed w1 job ex err res of (e, w') \<Rightarrow> ((Some ex, Some e), w'))"
  shows "run_ends w registry job ex (res, Some err)"
proof -
  from finishFailed_in_flight [OF assms(1), of err res] obtain job' ex' w' where
    f: "finishFailed w1 job ex err res = (wrapf (''execute job '' @ Job_ID job) err, w')"
      "repo w' = put_job (put_execution (repo w1) ex') job'" "run_failed job ex err res job' ex'" "same_config w1 w'" .
  then have "runExecutor w registry job ex = (run_reply job ex ex' (Some err), w')" "settles job ex (res, Some err) job' ex'"
    using assms(4,5) by (simp_all add: run_reply_def settles_def)
  with f(2) assms(2) same_config_trans [OF assms(3) f(4)] show ?thesis unfolding run_ends_def by auto
qed

lemma executed_run_ends:
  assumes "in_flight (repo w) job ex" and "Registry_Get registry (Job_Executor job) = Inr executor"
    and "Execute executor (tick w) job = (res, eo)"
  shows "run_ends w registry job ex (res, eo)"
proof -
  let ?w1 = "w\<lparr>tick := Suc (tick w)\<rparr>"
  have fl: "in_flight (repo ?w1) job ex" and sc: "same_config w ?w1" using assms(1) by (simp_all add: same_config_def)
  consider "eo = None" | err where "eo = Some err" "is_panic err" | err where "eo = Some err" "\<not> is_panic err" by fastforce
  then show ?thesis
  proof cases
    case 1
    from finishSucceeded_in_flight [OF fl, of res] obtain job' ex' w' where
      f: "finishSucceeded ?w1 job ex res = ((Some ex', None), w')" "repo w' = put_job (put_execution (repo w) ex') job'"
        "run_succeeded job ex res job' ex'" "same_config w w'" by (metis in_flight_tick)
    then have "runExecutor w registry job ex = (run_reply job ex ex' None, w')" "settles job ex (res, None) job' ex'"
      using assms(2,3) 1 by (simp_all add: runExecutor_def run_reply_def settles_def)
    with f(2,4) 1 show ?thesis unfolding run_ends_def by auto
  next
    case (2 err)
    then have "runExecutor w registry job ex = (run_reply job ex ex eo, ?w1)" "settles job ex (res, eo) job ex"
      using assms(2,3) by (simp_all add: runExecutor_def run_reply_def settles_def)
    moreover have "repo ?w1 = put_job (put_execution (repo w) ex) job" unfolding in_flight_put [OF assms(1)] by simp
    ultimately show ?thesis using sc unfolding run_ends_def by auto
  next
    case (3 err)
    have "run_ends w registry job ex (res, Some err)"
      using fl _ sc 3(2) by (rule failed_run_ends) (use assms(2,3) 3 in \<open>simp_all add: runExecutor_def\<close>)
    with 3(1) show ?thesis by simp
  qed
qed

lemma runExecutor_in_flight:
  assumes "in_flight (repo w) job ex"
  obtains out job' ex' w' where "runExecutor w registry job ex = (run_reply job ex ex' (snd out), w')"
    and "out = executor_result registry (tick w) job" and "settles job ex out job' ex'"
    and "repo w' = put_job (put_execution (repo w) ex') job'" and "same_config w w'"
proof -
  have "run_ends w registry job ex (executor_result registry (tick w) job)"
  proof (cases "Registry_Get registry (Job_Executor job)")
    case (Inl err)
    have "run_ends w registry job ex (empty_result, Some (wrapf ''load executor'' err))"
      using assms refl _ _ by (rule failed_run_ends) (simp_all add: runExecutor_def Inl)
    with Inl show ?thesis by (simp add: executor_result_def)
  next
    case (Inr executor)
    with executed_run_ends [OF assms Inr] show ?thesis
      by (cases "Execute executor (tick w) job") (simp add: executor_result_def)
  qed
  then show thesis using that unfolding run_ends_def by blast
qed

lemma settles_step:
  assumes "in_flight s job ex" and "settles job ex out job' ex'"
  shows "lifecycle_step\<^sup>*\<^sup>* s (put_job (put_execution s ex') job')"
proof -
  from assms(1) have fl: "find_job s (Job_ID job) = Some job" "Job_Status job = JobStatusRunning"
    "executions s (Exec_ID ex) = Some ex" "Exec_JobID ex = Job_ID job" "Exec_Status ex = ExecutionStatusRunning"
    by (simp_all add: in_flight_def)
  show ?thesis
  proof (cases "snd out")
    case None
    then obtain res where "out = (res, None)" by (cases out) simp
    with assms(2) have "run_succeeded job ex res job' ex'" by (simp add: settles_def)
    then obtain t where e: "ex' = ex\<lparr>Exec_Status := ExecutionStatusSucceeded, Exec_Logs := Result_Logs res,
        Exec_Manifest := Result_Manifest res, Exec_ExitCode := Result_ExitCode res, Exec_FinishedAt := t\<rparr>"
      and j: "job' = job\<lparr>Job_Status := JobStatusSucceeded, Job_UpdatedAt := t, Job_LastError := []\<rparr>"
      unfolding run_succeeded_def by blast
    have "exec_done ex ExecutionStatusSucceeded ex'" using fl(5) by (simp add: e exec_done_def)
    then show ?thesis unfolding j by (intro r_into_rtranclp lifecycle_step.succeed [OF fl(1-4)])
  next
    case (Some err)
    then obtain res where out: "out = (res, Some err)" by (cases out) simp
    show ?thesis
    proof (cases "is_panic err")
      case True
      with assms(2) out in_flight_put [OF assms(1)] show ?thesis by (simp add: settles_def)
    next
      case False
      with assms(2) out have "run_failed job ex err res job' ex'" by (simp add: settles_def)
      then obtain t t' where e: "ex' = ex\<lparr>Exec_Status := ExecutionStatusFailed, Exec_Logs := Result_Logs res,
          Exec_Manifest := Result_Manifest res, Exec_ExitCode := Result_ExitCode res,
          Exec_Error := Error err, Exec_FinishedAt := t\<rparr>"
        and j: "job' = (if Scheduler_CanRetry job then MarkRetrying t' job (Error err)
                else job\<lparr>Job_Status := JobStatusFailed, Job_LastError := Error err, Job_UpdatedAt := t\<rparr>)"
        unfolding run_failed_def by blast
      have fin: "exec_done ex ExecutionStatusFailed ex'" using fl(5) by (simp add: e exec_done_def)
      show ?thesis
        using lifecycle_step.retry [OF fl(1,2) _ fl(3,4) fin] lifecycle_step.fail [OF fl(1,2) _ fl(3,4) fin]
        unfolding j by (cases "Scheduler_CanRetry job") (simp_all add: r_into_rtranclp)
    qed
  qed
qed

lemma settles_ids:
  "in_flight s job ex \<Longrightarrow> settles job ex out job' ex' \<Longrightarrow> Job_ID job' = Job_ID job \<and> Exec_ID ex' = Exec_ID ex"
  by (cases out) (auto simp: settles_def run_succeeded_def run_failed_def split: option.splits if_splits)

lemma startExecution_in_flight:
  assumes "service_ok w" and "Suc (sequence w) < 2 ^ 64" and "find_job (repo w) (Job_ID job) = Some job"
    and "CanRun job"
  obtains ex t w1 where
    "startExecution w registry job =
       runExecutor w1 registry (job\<lparr>Job_Status := JobStatusRunning, Job_UpdatedAt := t\<rparr>) ex"
    and "repo w1 = put_job (add_execution (repo w) ex) (job\<lparr>Job_Status := JobStatusRunning, Job_UpdatedAt := t\<rparr>)"
    and "in_flight (repo w1) (job\<lparr>Job_Status := JobStatusRunning, Job_UpdatedAt := t\<rparr>) ex"
    and "exec_new job ex" and "executions (repo w) (Exec_ID ex) = None"
    and "id_seq (Exec_ID ex) = Suc (sequence w)" and "sequence w1 = Suc (sequence w)"
    and "environment w1 = environment w" and "strategy w1 = strategy w"
proof -
  obtain eid w1 where eid: "nextID w ''exec'' = (eid, w1)" by fastforce
  note w1 = nextID_frame [of w "''exec''", unfolded eid snd_conv]
  have fresh: "executions (repo w) eid = None" "id_seq eid = Suc (sequence w)"
    using nextID_fresh [OF service_ok_D(2) [OF assms(1)] assms(2) refl, of "''exec''"] by (simp_all add: eid)
  obtain st w2 where st: "time_Now w1 = (st, w2)" by fastforce
  note w2 = time_Now_frame [of w1, unfolded st snd_conv]
  define ex where "ex = \<lparr>Exec_ID = eid, Exec_JobID = Job_ID job, Exec_Attempt = i64 (Job_RetryCount job + 1),
            Exec_Status = ExecutionStatusRunning, Exec_Executor = Job_Executor job,
            Exec_TraceID = Job_TraceID job, Exec_Logs = '''', Exec_Manifest = '''', Exec_ExitCode = 0,
            Exec_Error = '''', Exec_StartedAt = st, Exec_FinishedAt = time_zero\<rparr>"
  have create: "Memory_CreateExecution (repo w2) ex = Inr (add_execution (repo w) ex)"
    using w1 w2 by (simp add: Memory_CreateExecution_def add_execution_def index_of_def Let_def)
  obtain t w3 where t: "time_Now (w2\<lparr>repo := add_execution (repo w) ex\<rparr>) = (t, w3)" by fastforce
  note w3 = time_Now_frame [of "w2\<lparr>repo := add_execution (repo w) ex\<rparr>", unfolded t snd_conv]
  let ?job = "job\<lparr>Job_Status := JobStatusRunning, Job_UpdatedAt := t\<rparr>"
  have upd: "Memory_UpdateJob (add_execution (repo w) ex) ?job = Inr (put_job (add_execution (repo w) ex) ?job)"
    using assms(3) by (intro Memory_UpdateJob_stored [where old = job]) simp
  let ?w4 = "trace_add (count_metric IncRunning (w3\<lparr>repo := put_job (add_execution (repo w) ex) ?job\<rparr>))
     (Job_TraceID job) ''job.run_started'' [(''job_id'', Job_ID job)]"
  have run: "startExecution w registry job = runExecutor ?w4 registry ?job ex"
    using create upd w3 unfolding startExecution_def eid st Let_def split ex_def [symmetric]
    by (simp add: t)
  have new: "exec_new job ex" "executions (repo w) (Exec_ID ex) = None" "id_seq (Exec_ID ex) = Suc (sequence w)"
    using fresh by (simp_all add: ex_def exec_new_def)
  then have "in_flight (repo ?w4) ?job ex" by (simp add: in_flight_def exec_new_def)
  from run _ this new show thesis by (rule that) (simp_all add: w1 w2 w3)
qed

text \<open>From the start of a scheduled job to its end: two lifecycle steps and one new execution.\<close>

lemma startExecution_settles:
  assumes "service_ok w" and "Suc (sequence w) < 2 ^ 64" and "find_job (repo w) (Job_ID job) = Some job"
    and "CanRun job"
  obtains ex t n out job' ex' w' where
    "startExecution w registry job = (run_reply job ex ex' (snd out), w')"
    and "out = executor_result registry n (job\<lparr>Job_Status := JobStatusRunning, Job_UpdatedAt := t\<rparr>)"
    and "settles (job\<lparr>Job_Status := JobStatusRunning, Job_UpdatedAt := t\<rparr>) ex out job' ex'"
    and "exec_new job ex" and "executions (repo w) (Exec_ID ex) = None"
    and "find_job (repo w') (Job_ID job) = Some job'" and "executions (repo w') (Exec_ID ex) = Some ex'"
    and "service_step 1 w w'"
proof -
  from startExecution_in_flight [OF assms, of registry] obtain ex t w1 where
    s: "startExecution w registry job =
       runExecutor w1 registry (job\<lparr>Job_Status := JobStatusRunning, Job_UpdatedAt := t\<rparr>) ex"
    "repo w1 = put_job (add_execution (repo w) ex) (job\<lparr>Job_Status := JobStatusRunning, Job_UpdatedAt := t\<rparr>)"
    and fl: "in_flight (repo w1) (job\<lparr>Job_Status := JobStatusRunning, Job_UpdatedAt := t\<rparr>) ex"
    and new: "exec_new job ex" "executions (repo w) (Exec_ID ex) = None"
      "id_seq (Exec_ID ex) = Suc (sequence w)"
    and w1: "sequence w1 = Suc (sequence w)" "environment w1 = environment w" "strategy w1 = strategy w" .
  let ?job = "job\<lparr>Job_Status := JobStatusRunning, Job_UpdatedAt := t\<rparr>"
  from runExecutor_in_flight [OF fl, of registry] obtain out job' ex' w' where
    r: "runExecutor w1 registry ?job ex = (run_reply ?job ex ex' (snd out), w')"
      "out = executor_result registry (tick w1) ?job" "settles ?job ex out job' ex'"
      "repo w' = put_job (put_execution (repo w1) ex') job'" "same_config w1 w'" .
  have ids: "Job_ID job' = Job_ID job" "Exec_ID ex' = Exec_ID ex" using settles_ids [OF fl r(3)] by simp_all
  have "lifecycle_step (repo w) (repo w1)"
    unfolding s(2) using assms(3,4) new(2,1) by (rule lifecycle_step.start)
  moreover have "lifecycle_step\<^sup>*\<^sup>* (repo w1) (repo w')" unfolding r(4) using fl r(3) by (rule settles_step)
  ultimately have steps: "lifecycle_step\<^sup>*\<^sup>* (repo w) (repo w')" by (rule converse_rtranclp_into_rtranclp)
  have "ids_below (repo w) (Suc (sequence w))" using service_ok_D(2) [OF assms(1)] by (rule ids_below_mono) simp
  then have "ids_below (repo w') (Suc (sequence w))"
    using new(3) stored_id [OF assms(1,3)] unfolding r(4) s(2)
    by (intro ids_below_put_job ids_below_put_execution ids_below_add_execution) (simp_all add: ids)
  moreover have "executions (repo w) \<subseteq>\<^sub>m executions (repo w')"
    unfolding r(4) s(2) using new(2) ids(2) by (auto simp: map_le_def)
  ultimately have "service_step 1 w w'"
    using steps r(5) w1 assms(1) by (intro service_stepI) (simp_all add: same_config_def)
  moreover have "startExecution w registry job = (run_reply job ex ex' (snd out), w')"
    unfolding s(1) r(1) by (simp add: run_reply_def split: option.splits)
  moreover have "find_job (repo w') (Job_ID job) = Some job'" "executions (repo w') (Exec_ID ex) = Some ex'"
    unfolding r(4) by (simp_all add: ids)
  ultimately show thesis using that r(2,3) new(1,2) by blast
qed

definition runnable :: "MemoryStore \<Rightarrow> Job \<Rightarrow> bool" where
  "runnable s job \<longleftrightarrow> CanRun job \<or> can_place s job"

lemma CanRun_iff: "CanRun job \<longleftrightarrow> Job_Status job = JobStatusScheduled"
  by (simp add: CanRun_def)

lemma can_place_not_scheduled: "can_place s job \<Longrightarrow> Job_Status job \<noteq> JobStatusScheduled"
  by (auto simp: can_place_def CanSchedule_def)

lemma place_failed_step: "service_ok w \<Longrightarrow> place_failed w w' \<Longrightarrow> service_step 0 w w'"
  by (simp add: service_step_def service_ok_def world_ok_def place_failed_def same_config_def)

lemma RunJob_rejected:
  assumes "service_ok w" and "\<And>job. find_job (repo w) jid = Some job \<Longrightarrow> \<not> runnable (repo w) job"
  shows "\<exists>err w'. RunJob w registry jid = ((None, Some err), w') \<and> repo w' = repo w \<and> service_step 0 w w'"
proof (cases "find_job (repo w) jid")
  case None
  with assms(1) show ?thesis
    by (simp add: RunJob_def Memory_GetJob_def find_job_def service_step_refl)
next
  case (Some job)
  with assms(2) have nr: "Job_Status job \<noteq> JobStatusScheduled" "\<not> can_place (repo w) job"
    by (auto simp: runnable_def CanRun_iff)
  obtain r w' where r: "ScheduleJob w jid = (r, w')" by fastforce
  from ScheduleJob_cases [OF service_ok_D(3,4) [OF assms(1)] r] Some nr(2) obtain err where
    err: "r = Inl err" "place_failed w w'" by (cases r) auto
  then show ?thesis
    using Some nr(1) r place_failed_step [OF assms(1) err(2)] place_failed_D(1) [OF err(2)]
    by (simp add: RunJob_def Memory_GetJob_def find_job_def)
qed

lemma RunJob_settles:
  assumes "service_ok w" and "Suc (sequence w) < 2 ^ 64" and "find_job (repo w) jid = Some job"
    and "runnable (repo w) job"
  obtains job1 ex t n out job' ex' w' where
    "RunJob w registry jid = (run_reply job1 ex ex' (snd out), w')"
    and "job1 = job \<or> marks job job1"
    and "out = executor_result registry n (job1\<lparr>Job_Status := JobStatusRunning, Job_UpdatedAt := t\<rparr>)"
    and "settles (job1\<lparr>Job_Status := JobStatusRunning, Job_UpdatedAt := t\<rparr>) ex out job' ex'"
    and "exec_new job1 ex" and "executions (repo w) (Exec_ID ex) = None"
    and "find_job (repo w') jid = Some job'" and "executions (repo w') (Exec_ID ex) = Some ex'"
    and "service_step 1 w w'"
proof (cases "CanRun job")
  case True
  have key: "Job_ID job = jid" using service_ok_D(3) [OF assms(1)] assms(3) by (rule find_job_key)
  have run: "RunJob w registry jid = startExecution w registry job"
    using assms(3) True by (simp add: RunJob_def Memory_GetJob_def find_job_def CanRun_iff)
  from startExecution_settles [OF assms(1,2) _ True, of registry] assms(3) key
  show thesis unfolding run [symmetric] by (metis that)
next
  case False
  with assms(4) have place: "can_place (repo w) job" by (simp add: runnable_def)
  obtain r w1 where r: "ScheduleJob w jid = (r, w1)" by fastforce
  from ScheduleJob_cases [OF service_ok_D(3,4) [OF assms(1)] r] assms(3) place obtain job1 where
    job1: "r = Inr job1" "placed_as w job job1 w1" by (cases r) auto
  have m: "marks job job1" using placed_as_D(6) [OF job1(2)] by (auto simp: marks_def)
  have key: "Job_ID job = jid" using service_ok_D(3) [OF assms(1)] assms(3) by (rule find_job_key)
  have id1: "Job_ID job1 = jid" using placed_as_id [OF job1(2)] key by simp
  have st: "service_step 0 w w1" using ScheduleJob_step [OF assms(1), of jid] r by simp
  then have ok1: "service_ok w1" "sequence w1 = sequence w" by (simp_all add: service_step_def)
  have find1: "find_job (repo w1) (Job_ID job1) = Some job1" using placed_as_D(4) [OF job1(2)] key id1 by simp
  have "CanRun job1" using m by (auto simp: marks_def CanRun_iff)
  from startExecution_settles [OF ok1(1) _ find1 this, of registry] assms(2) ok1(2)
  obtain ex t n out job' ex' w' where
    s: "startExecution w1 registry job1 = (run_reply job1 ex ex' (snd out), w')"
      "out = executor_result registry n (job1\<lparr>Job_Status := JobStatusRunning, Job_UpdatedAt := t\<rparr>)"
      "settles (job1\<lparr>Job_Status := JobStatusRunning, Job_UpdatedAt := t\<rparr>) ex out job' ex'"
      "exec_new job1 ex" "executions (repo w1) (Exec_ID ex) = None"
      "find_job (repo w') (Job_ID job1) = Some job'" "executions (repo w') (Exec_ID ex) = Some ex'"
      "service_step 1 w1 w'" by metis
  have "RunJob w registry jid = startExecution w1 registry job1"
    using assms(3) False r job1(1) by (simp add: RunJob_def Memory_GetJob_def find_job_def CanRun_iff)
  moreover have "executions (repo w) (Exec_ID ex) = None"
    using s(5) job1(2) by (simp add: placed_as_def)
  ultimately show thesis
    using that s m id1 service_step_trans [OF st s(8)] by (metis add_0)
qed

lemma RunJob_step:
  assumes "service_ok w" and "Suc (sequence w) < 2 ^ 64"
  shows "service_step 1 w (snd (RunJob w registry jid))"
proof (cases "\<exists>job. find_job (repo w) jid = Some job \<and> runnable (repo w) job")
  case True
  then obtain job where "find_job (repo w) jid = Some job" "runnable (repo w) job" by blast
  from RunJob_settles [OF assms this, of registry] show ?thesis by (metis snd_conv)
next
  case False
  with RunJob_rejected [OF assms(1), of jid registry] show ?thesis
    using service_step_mono [of 0] by (metis snd_conv zero_le_one)
qed

text \<open>The zero execution comes only with an error.\<close>

lemma RunJob_None:
  assumes "service_ok w" and "Suc (sequence w) < 2 ^ 64"
  shows "fst (RunJob w registry jid) \<noteq> (None, None)"
proof (cases "\<exists>job. find_job (repo w) jid = Some job \<and> runnable (repo w) job")
  case True
  then obtain job where "find_job (repo w) jid = Some job" "runnable (repo w) job" by blast
  with assms show ?thesis
  proof (rule RunJob_settles)
    fix job1 ex ex' out w'
    assume "RunJob w registry jid = (run_reply job1 ex ex' (snd out), w')"
    then show ?thesis by (cases "snd out") (simp_all add: run_reply_def)
  qed
next
  case False
  with RunJob_rejected [OF assms(1), of jid registry] show ?thesis by fastforce
qed

subsection \<open>Dispatching\<close>

lemma run_all_step:
  "service_ok w \<Longrightarrow> sequence w + length js < 2 ^ 64 \<Longrightarrow>
   service_step (length js) w (snd (run_all w registry js exs))"
proof (induction w registry js exs rule: run_all.induct)
  case (2 w registry job js exs)
  obtain exo eo w1 where r: "RunJob w registry (Job_ID job) = ((exo, eo), w1)" by (metis prod.exhaust)
  have s1: "service_step 1 w w1" using RunJob_step [OF "2.prems"(1), of registry "Job_ID job"] "2.prems"(2) r by simp
  then have ok1: "service_ok w1" "sequence w1 + length js < 2 ^ 64"
    using "2.prems"(2) by (auto simp: service_step_def)
  show ?case
  proof (cases eo)
    case None
    have rec: "service_step (length js) w1 (snd (run_all w1 registry js exs'))" if "exs' = (case exo of None \<Rightarrow> exs | Some ex \<Rightarrow> exs @ [ex])" for exs'
      using "2.IH" [OF r [symmetric]] None that ok1 by (cases exo) auto
    with service_step_trans [OF s1 rec] None r show ?thesis by (cases exo) simp_all
  next
    case (Some err)
    with r have "snd (run_all w registry (job # js) exs) = w1" by (cases exo) simp_all
    with service_step_mono [OF s1, of "length (job # js)"] show ?thesis by simp
  qed
qed (simp add: service_step_refl)

lemma SchedulePending_length:
  assumes "world_ok w" and "SchedulePending w limit = (Inr ps, w')"
  shows "int (length ps) \<le> limit"
  by (rule SchedulePending_run [OF assms]) (use place_run_length in fastforce)

lemma DispatchPending_step:
  assumes "service_ok w" and "sequence w + nat limit < 2 ^ 64"
  shows "service_step (nat limit) w (snd (DispatchPending w registry limit))"
proof -
  obtain r w1 where r: "SchedulePending w limit = (r, w1)" by fastforce
  have s1: "service_step 0 w w1" using SchedulePending_step [OF assms(1), of limit] r by simp
  then have ok1: "service_ok w1" "sequence w1 = sequence w" by (simp_all add: service_step_def)
  show ?thesis
  proof (cases r)
    case (Inl err)
    with r service_step_mono [OF s1, of "nat limit"] show ?thesis by (simp add: DispatchPending_def)
  next
    case (Inr ps)
    have "int (length ps) \<le> limit"
      using SchedulePending_length [OF service_ok_D(1) [OF assms(1)] r [unfolded Inr]] .
    then have len: "length ps \<le> nat limit" by linarith
    with assms(2) ok1 have "service_step (length ps) w1 (snd (run_all w1 registry ps []))"
      by (intro run_all_step) simp_all
    with service_step_trans [OF s1] len r Inr show ?thesis
      by (simp add: DispatchPending_def) (meson service_step_mono)
  qed
qed

section \<open>Histories\<close>

text \<open>
  The operations the platform offers, as commands, and the state after a history of them.
  \<open>new_ids\<close> bounds the identifiers a command makes.
\<close>

datatype command =
    Submit CreateJobInput
  | Cancel string
  | Retry string
  | Schedule string
  | Run string
  | SchedulePendingCmd int
  | Dispatch int
  | Register Node
  | Strategy MatchStrategy

definition RegisterNode :: "World \<Rightarrow> Node \<Rightarrow> World" where
  "RegisterNode w node =
     (case Memory_RegisterNode (repo w) node of Inl _ \<Rightarrow> w | Inr s \<Rightarrow> w\<lparr>repo := s\<rparr>)"

fun perform :: "Registry \<Rightarrow> World \<Rightarrow> command \<Rightarrow> World" where
  "perform registry w (Submit inp) = snd (CreateJob w inp)"
| "perform registry w (Cancel jid) = snd (CancelJob w jid)"
| "perform registry w (Retry jid) = snd (RetryJob w jid)"
| "perform registry w (Schedule jid) = snd (ScheduleJob w jid)"
| "perform registry w (Run jid) = snd (RunJob w registry jid)"
| "perform registry w (SchedulePendingCmd limit) = snd (SchedulePending w limit)"
| "perform registry w (Dispatch limit) = snd (DispatchPending w registry limit)"
| "perform registry w (Register node) = RegisterNode w node"
| "perform registry w (Strategy st) = SetStrategy w st"

fun new_ids :: "command \<Rightarrow> nat" where
  "new_ids (Submit _) = 1"
| "new_ids (Run _) = 1"
| "new_ids (Dispatch limit) = nat limit"
| "new_ids _ = 0"

text \<open>
  A command carries Go values: an \<^verbatim>\<open>int\<close> fits its width, and a node is registered with a
  consistent count of its GPUs, as \<^verbatim>\<open>CollectNodeResource\<close> makes it.
\<close>

fun command_ok :: "command \<Rightarrow> bool" where
  "command_ok (Submit inp) = is_i64 (Input_MaxRetries inp)"
| "command_ok (Register node) = node_ok node"
| "command_ok _ = True"

definition run_commands :: "Registry \<Rightarrow> World \<Rightarrow> command list \<Rightarrow> World" where
  "run_commands registry w cmds = foldl (perform registry) w cmds"

definition job_command :: "command \<Rightarrow> bool" where
  "job_command c \<longleftrightarrow> (case c of Register _ \<Rightarrow> False | Strategy _ \<Rightarrow> False | _ \<Rightarrow> True)"

lemma perform_step:
  assumes "service_ok w" and "command_ok c" and "sequence w + new_ids c < 2 ^ 64" and "job_command c"
  shows "service_step (new_ids c) w (perform registry w c)"
  using assms
  by (cases c) (auto simp: job_command_def intro: CreateJob_step [unfolded One_nat_def] CancelJob_step
      RetryJob_step ScheduleJob_step RunJob_step [unfolded One_nat_def] SchedulePending_step DispatchPending_step)

lemma RegisterNode_repo: "repo (RegisterNode w node) = repo w\<lparr>nodes := AList.update (Node_ID node) node (nodes (repo w))\<rparr>"
  by (simp add: RegisterNode_def Memory_RegisterNode_def)

lemma RegisterNode_frame [simp]:
  "sequence (RegisterNode w node) = sequence w" "environment (RegisterNode w node) = environment w"
  "find_job (repo (RegisterNode w node)) = find_job (repo w)"
  "executions (repo (RegisterNode w node)) = executions (repo w)"
  by (simp_all add: RegisterNode_def Memory_RegisterNode_def find_job_def fun_eq_iff)

lemma RegisterNode_ok:
  assumes "service_ok w" and "node_ok node"
  shows "service_ok (RegisterNode w node)"
proof -
  have "store_wf (repo (RegisterNode w node))" "gpu_wf (repo (RegisterNode w node))"
    unfolding RegisterNode_repo using assms
    by (auto simp: service_ok_def world_ok_def store_ok_def intro!: store_wf_put_node gpu_wf_put)
  with assms(1) show ?thesis
    by (simp add: service_ok_def world_ok_def store_ok_def jobs_ok_def runs_ok_def attempts_ok_def
          is_running_def running_of_def ids_below_def)
qed

definition jobs_evolve :: "World \<Rightarrow> World \<Rightarrow> bool" where
  "jobs_evolve w w' \<longleftrightarrow>
     entries_evolve job_evolves (find_job (repo w)) (find_job (repo w')) \<and>
     executions (repo w) \<subseteq>\<^sub>m executions (repo w')"

lemma jobs_evolve_refl: "jobs_evolve w w"
  by (simp add: jobs_evolve_def entries_evolve_refl)

lemma jobs_evolve_trans: "jobs_evolve w w1 \<Longrightarrow> jobs_evolve w1 w2 \<Longrightarrow> jobs_evolve w w2"
  unfolding jobs_evolve_def by (meson entries_evolve_trans job_evolves_trans map_le_trans)

lemma service_step_evolves:
  assumes "service_ok w" and "service_step k w w'"
  shows "store_evolves (repo w) (repo w')"
  using assms lifecycle.steps_evolve service_ok_D(5) by (auto simp: service_step_def)

lemma perform_ok:
  assumes "service_ok w" and "command_ok c" and "sequence w + new_ids c < 2 ^ 64"
  shows "service_ok (perform registry w c) \<and> sequence (perform registry w c) \<le> sequence w + new_ids c \<and>
    jobs_evolve w (perform registry w c)"
proof (cases "job_command c")
  case True
  note s = perform_step [OF assms True, of registry]
  with service_step_evolves [OF assms(1) s] show ?thesis
    by (simp add: service_step_def jobs_evolve_def store_evolves_def)
next
  case False
  then consider node where "c = Register node" | st where "c = Strategy st"
    by (cases c) (auto simp: job_command_def)
  then show ?thesis
  proof cases
    case 1
    with assms show ?thesis by (simp add: RegisterNode_ok jobs_evolve_def entries_evolve_refl)
  next
    case 2
    with assms show ?thesis
      by (simp add: SetStrategy_def jobs_evolve_def entries_evolve_refl service_ok_def world_ok_def)
  qed
qed

lemma run_commands_Nil [simp]: "run_commands registry w [] = w"
  by (simp add: run_commands_def)

lemma run_commands_Cons [simp]: "run_commands registry w (c # cmds) = run_commands registry (perform registry w c) cmds"
  by (simp add: run_commands_def)

lemma run_commands_ok:
  "service_ok w \<Longrightarrow> list_all command_ok cmds \<Longrightarrow> sequence w + sum_list (map new_ids cmds) < 2 ^ 64 \<Longrightarrow>
   service_ok (run_commands registry w cmds) \<and> jobs_evolve w (run_commands registry w cmds)"
proof (induction cmds arbitrary: w)
  case (Cons c cmds)
  have p: "service_ok (perform registry w c)" "sequence (perform registry w c) \<le> sequence w + new_ids c"
    "jobs_evolve w (perform registry w c)"
    using perform_ok [of w c registry] Cons.prems by simp_all
  with Cons.IH [of "perform registry w c"] Cons.prems show ?case
    by (auto intro: jobs_evolve_trans)
qed (simp add: jobs_evolve_refl)

text \<open>
  No operation changes an execution that was stored before it, so an execution that is left
  running stays running, and so does its job.
\<close>

lemma running_stuck:
  assumes "service_ok w" and "list_all command_ok cmds" and "sequence w + sum_list (map new_ids cmds) < 2 ^ 64"
    and "executions (repo w) eid = Some ex" and "Exec_Status ex = ExecutionStatusRunning"
  shows "executions (repo (run_commands registry w cmds)) eid = Some ex"
    and "is_running (repo (run_commands registry w cmds)) (Exec_JobID ex)"
proof -
  note later = run_commands_ok [OF assms(1-3), of registry]
  then have "executions (repo w) \<subseteq>\<^sub>m executions (repo (run_commands registry w cmds))" by (simp add: jobs_evolve_def)
  with assms(4) show ex: "executions (repo (run_commands registry w cmds)) eid = Some ex"
    by (auto simp: map_le_def dom_def)
  have "runs_ok (repo (run_commands registry w cmds))" using later service_ok_D(5) by (simp add: store_ok_def)
  then show "is_running (repo (run_commands registry w cmds)) (Exec_JobID ex)"
    using ex assms(5) by (auto simp: runs_ok_def running_of_def)
qed

lemma run_job_commands_evolve:
  "service_ok w \<Longrightarrow> list_all command_ok cmds \<Longrightarrow> list_all job_command cmds \<Longrightarrow>
   sequence w + sum_list (map new_ids cmds) < 2 ^ 64 \<Longrightarrow>
   lifecycle_step\<^sup>*\<^sup>* (repo w) (repo (run_commands registry w cmds))"
proof (induction cmds arbitrary: w)
  case (Cons c cmds)
  have s: "service_step (new_ids c) w (perform registry w c)"
    using Cons.prems by (intro perform_step) simp_all
  then have "service_ok (perform registry w c)" "sequence (perform registry w c) \<le> sequence w + new_ids c"
    "lifecycle_step\<^sup>*\<^sup>* (repo w) (repo (perform registry w c))"
    by (simp_all add: service_step_def)
  with Cons.IH [of "perform registry w c"] Cons.prems show ?case by (auto intro: rtranclp_trans)
qed simp

lemma service_ok_new: "env_ok env \<Longrightarrow> service_ok (new_world env)"
proof -
  have "store_ok NewMemoryStore" by (rule store_ok_new)
  moreover have "ids_below NewMemoryStore n" for n by (simp add: ids_below_def NewMemoryStore_def find_job_def)
  moreover assume "env_ok env"
  ultimately show ?thesis by (simp add: service_ok_def world_ok_def new_world_def)
qed

end
