(* ===== verification/Api.thy ===== *)
theory Api
  imports Services
begin

text \<open>
  \<^verbatim>\<open>internal/api/router.go\<close> with the part of \<^verbatim>\<open>http.ServeMux\<close> it relies on. A request
  carries its method, its decoded path (which the mux is taken to clean, so that a path with an
  escaped slash is one with a slash), its query parameters and what decoding its body as
  JSON gives. A response is the status with the value that is written as JSON (or the text
  of the metrics); \<open>Aborted\<close> is a handler that panicked, after which the server closes the
  connection.
\<close>

record Request =
  Req_Method :: string
  Req_Path :: string
  Req_Query :: "(string \<times> string) list"
  Req_Body :: "error + CreateJobInput"

datatype payload =
    PStatus string
  | PText string
  | PError string
  | PJob Job
  | PJobs "Job list"
  | PExecution Execution
  | PExecutions "Execution list"
  | PTrace "SpanRecord list"
  | PRedirect string

datatype response = Response int payload | Aborted

definition writeError :: "int \<Rightarrow> string \<Rightarrow> response" where
  "writeError code message = Response code (PError message)"

abbreviation StatusOK :: int where "StatusOK \<equiv> 200"
abbreviation StatusCreated :: int where "StatusCreated \<equiv> 201"
abbreviation StatusMovedPermanently :: int where "StatusMovedPermanently \<equiv> 301"
abbreviation StatusBadRequest :: int where "StatusBadRequest \<equiv> 400"
abbreviation StatusNotFound :: int where "StatusNotFound \<equiv> 404"
abbreviation StatusMethodNotAllowed :: int where "StatusMethodNotAllowed \<equiv> 405"
abbreviation StatusInternalServerError :: int where "StatusInternalServerError \<equiv> 500"

abbreviation MethodGet :: string where "MethodGet \<equiv> ''GET''"
abbreviation MethodPost :: string where "MethodPost \<equiv> ''POST''"

definition method_not_allowed :: response where
  "method_not_allowed = writeError StatusMethodNotAllowed ''method not allowed''"

section \<open>Handlers\<close>

definition handleHealth :: "World \<Rightarrow> response \<times> World" where
  "handleHealth w = (Response StatusOK (PStatus ''ok''), w)"

definition handleMetrics :: "World \<Rightarrow> response \<times> World" where
  "handleMetrics w = (Response StatusOK (PText (RenderPrometheus (metrics w))), w)"

definition handleJobs :: "World \<Rightarrow> Request \<Rightarrow> response \<times> World" where
  "handleJobs w req =
     (if Req_Method req = MethodPost then
        (case Req_Body req of
           Inl err \<Rightarrow> (writeError StatusBadRequest (Error err), w)
         | Inr inp \<Rightarrow>
             (case CreateJob w inp of
                (Inl err, w1) \<Rightarrow> (writeError StatusBadRequest (Error err), w1)
              | (Inr job, w1) \<Rightarrow> (Response StatusCreated (PJob job), w1)))
      else if Req_Method req = MethodGet then
        (case ListJobs w of
           (Inl err, w1) \<Rightarrow> (writeError StatusInternalServerError (Error err), w1)
         | (Inr items, w1) \<Rightarrow> (Response StatusOK (PJobs items), w1))
      else (method_not_allowed, w))"

text \<open>The four handlers that change one job share their shape: a POST, one call, its result.\<close>

definition job_reply :: "(error + Job) \<times> World \<Rightarrow> response \<times> World" where
  "job_reply r =
     (case r of
        (Inl err, w1) \<Rightarrow> (writeError StatusBadRequest (Error err), w1)
      | (Inr job, w1) \<Rightarrow> (Response StatusOK (PJob job), w1))"

definition handleScheduleJob :: "World \<Rightarrow> Request \<Rightarrow> string \<Rightarrow> response \<times> World" where
  "handleScheduleJob w req jobID =
     (if Req_Method req \<noteq> MethodPost then (method_not_allowed, w) else job_reply (ScheduleJob w jobID))"

definition handleRunJob :: "World \<Rightarrow> Registry \<Rightarrow> Request \<Rightarrow> string \<Rightarrow> response \<times> World" where
  "handleRunJob w registry req jobID =
     (if Req_Method req \<noteq> MethodPost then (method_not_allowed, w)
      else
        (case RunJob w registry jobID of
           ((_, Some err), w1) \<Rightarrow>
             if is_panic err then (Aborted, w1) else (writeError StatusBadRequest (Error err), w1)
         | ((Some ex, None), w1) \<Rightarrow> (Response StatusOK (PExecution ex), w1)
         | ((None, None), w1) \<Rightarrow> (Aborted, w1)))"

definition handleRetryJob :: "World \<Rightarrow> Request \<Rightarrow> string \<Rightarrow> response \<times> World" where
  "handleRetryJob w req jobID =
     (if Req_Method req \<noteq> MethodPost then (method_not_allowed, w) else job_reply (RetryJob w jobID))"

definition handleCancelJob :: "World \<Rightarrow> Request \<Rightarrow> string \<Rightarrow> response \<times> World" where
  "handleCancelJob w req jobID =
     (if Req_Method req \<noteq> MethodPost then (method_not_allowed, w) else job_reply (CancelJob w jobID))"

definition handleListExecutions :: "World \<Rightarrow> Request \<Rightarrow> string \<Rightarrow> response \<times> World" where
  "handleListExecutions w req jobID =
     (if Req_Method req \<noteq> MethodGet then (method_not_allowed, w)
      else
        (case ListExecutions w jobID of
           Inl err \<Rightarrow> (writeError StatusBadRequest (Error err), w)
         | Inr items \<Rightarrow> (Response StatusOK (PExecutions items), w)))"

definition handleTrace :: "World \<Rightarrow> Request \<Rightarrow> string \<Rightarrow> response \<times> World" where
  "handleTrace w req jobID =
     (if Req_Method req \<noteq> MethodGet then (method_not_allowed, w)
      else
        (case GetJob w jobID of
           Inl err \<Rightarrow> (writeError StatusNotFound (Error err), w)
         | Inr job \<Rightarrow> (Response StatusOK (PTrace (Tracer_Snapshot (tracer w) (Job_TraceID job))), w)))"

definition handleJobByID :: "World \<Rightarrow> Registry \<Rightarrow> Request \<Rightarrow> response \<times> World" where
  "handleJobByID w registry req =
     (let path = TrimPrefix (Req_Path req) ''/jobs/'';
          parts = Split CHR ''/'' path;
          jobID = hd parts
      in if jobID = '''' then (writeError StatusNotFound ''job id is required'', w)
         else if length parts = 1 then
           (if Req_Method req \<noteq> MethodGet then (method_not_allowed, w)
            else
              (case GetJob w jobID of
                 Inl err \<Rightarrow> (writeError StatusNotFound (Error err), w)
               | Inr job \<Rightarrow> (Response StatusOK (PJob job), w)))
         else
           (let action = parts ! 1 in
            if action = ''schedule'' then handleScheduleJob w req jobID
            else if action = ''run'' then handleRunJob w registry req jobID
            else if action = ''retry'' then handleRetryJob w req jobID
            else if action = ''cancel'' then handleCancelJob w req jobID
            else if action = ''executions'' then handleListExecutions w req jobID
            else if action = ''trace'' then handleTrace w req jobID
            else (writeError StatusNotFound ''route not found'', w)))"

definition query_get :: "(string \<times> string) list \<Rightarrow> string \<Rightarrow> string" where
  "query_get q k = (case map_of q k of None \<Rightarrow> '''' | Some v \<Rightarrow> v)"

text \<open>The limit of a dispatch request: one by default, \<open>None\<close> when it is rejected.\<close>

definition dispatch_limit :: "string \<Rightarrow> int option" where
  "dispatch_limit raw =
     (if raw = '''' then Some 1
      else (case Atoi raw of
              None \<Rightarrow> None
            | Some parsed \<Rightarrow> if parsed \<le> 0 then None else Some parsed))"

definition handleDispatchOnce :: "World \<Rightarrow> Registry \<Rightarrow> Request \<Rightarrow> response \<times> World" where
  "handleDispatchOnce w registry req =
     (if Req_Method req \<noteq> MethodPost then (method_not_allowed, w)
      else
        (case dispatch_limit (query_get (Req_Query req) ''limit'') of
           None \<Rightarrow> (writeError StatusBadRequest ''limit must be a positive integer'', w)
         | Some limit \<Rightarrow>
             (case DispatchPending w registry limit of
                ((_, Some (GoPanic _)), w1) \<Rightarrow> (Aborted, w1)
              | ((_, Some err), w1) \<Rightarrow> (writeError StatusBadRequest (Error err), w1)
              | ((exs, None), w1) \<Rightarrow> (Response StatusOK (PExecutions exs), w1))))"

section \<open>The mux\<close>

text \<open>
  \<^verbatim>\<open>path.Clean\<close> of a rooted path drops empty and dot segments and resolves dot-dot; the
  mux redirects a request whose path changes under it.
\<close>

fun clean_segments :: "string list \<Rightarrow> string list \<Rightarrow> string list" where
  "clean_segments acc [] = rev acc"
| "clean_segments acc (seg # segs) =
     (if seg = '''' \<or> seg = ''.'' then clean_segments acc segs
      else if seg = ''..'' then clean_segments (tl acc) segs
      else clean_segments (seg # acc) segs)"

definition cleanPath :: "string \<Rightarrow> string" where
  "cleanPath p =
     (let np = ''/'' @ Join ''/'' (clean_segments [] (Split CHR ''/'' p))
      in if HasSuffix p ''/'' \<and> np \<noteq> ''/'' then np @ ''/'' else np)"

definition serve :: "World \<Rightarrow> Registry \<Rightarrow> Request \<Rightarrow> response \<times> World" where
  "serve w registry req =
     (let path = Req_Path req in
      if cleanPath path \<noteq> path then (Response StatusMovedPermanently (PRedirect (cleanPath path)), w)
      else if path = ''/healthz'' then handleHealth w
      else if path = ''/metrics'' then handleMetrics w
      else if path = ''/jobs'' then handleJobs w req
      else if HasPrefix path ''/jobs/'' then handleJobByID w registry req
      else if path = ''/dispatch/once'' then handleDispatchOnce w registry req
      else (Response StatusNotFound (PText (''404 page not found'' @ newline)), w))"

section \<open>Reading is safe\<close>

text \<open>A request that is not a POST leaves the jobs, executions, nodes and counters alone.\<close>

lemma ListJobs_frame:
  "repo (snd (ListJobs w)) = repo w" "metrics (snd (ListJobs w)) = metrics w"
  "tracer (snd (ListJobs w)) = tracer w" "sequence (snd (ListJobs w)) = sequence w"
  by (simp_all add: ListJobs_def Memory_ListJobs_def split_beta)

definition same_state :: "World \<Rightarrow> World \<Rightarrow> bool" where
  "same_state w w' \<longleftrightarrow>
     repo w' = repo w \<and> metrics w' = metrics w \<and> tracer w' = tracer w \<and> sequence w' = sequence w"

lemmas job_handlers =
  handleScheduleJob_def handleRunJob_def handleRetryJob_def handleCancelJob_def
  handleListExecutions_def handleTrace_def

lemma handleJobByID_read: "Req_Method req \<noteq> MethodPost \<Longrightarrow> snd (handleJobByID w registry req) = w"
  by (simp add: handleJobByID_def job_handlers Let_def split: sum.splits)

lemma handleJobs_read: "Req_Method req \<noteq> MethodPost \<Longrightarrow> same_state w (snd (handleJobs w req))"
  using ListJobs_frame [of w]
  by (simp add: handleJobs_def same_state_def split_beta split: sum.splits prod.splits)

lemma serve_read_state: "Req_Method req \<noteq> MethodPost \<Longrightarrow> same_state w (snd (serve w registry req))"
  using handleJobs_read [of req w]
  by (simp add: serve_def Let_def handleJobByID_read handleHealth_def handleMetrics_def handleDispatchOnce_def)
    (simp add: same_state_def)

section \<open>Every request keeps the invariant\<close>

definition request_ids :: "Request \<Rightarrow> nat" where
  "request_ids req =
     (case dispatch_limit (query_get (Req_Query req) ''limit'') of None \<Rightarrow> 1 | Some limit \<Rightarrow> max 1 (nat limit))"

definition request_ok :: "Request \<Rightarrow> bool" where
  "request_ok req \<longleftrightarrow> (case Req_Body req of Inl _ \<Rightarrow> True | Inr inp \<Rightarrow> is_i64 (Input_MaxRetries inp))"

lemma request_ids_pos: "1 \<le> request_ids req"
  by (simp add: request_ids_def split: option.splits)

lemma job_reply_state [simp]: "snd (job_reply r) = snd r"
  by (simp add: job_reply_def split: prod.splits sum.splits)

lemma handleRunJob_state: "snd (handleRunJob w registry req jid) = w \<or>
    snd (handleRunJob w registry req jid) = snd (RunJob w registry jid)"
  by (auto simp: handleRunJob_def split: prod.splits option.splits)

lemma handleDispatchOnce_state:
  "snd (handleDispatchOnce w registry req) = w \<or>
   (\<exists>limit. dispatch_limit (query_get (Req_Query req) ''limit'') = Some limit \<and>
      snd (handleDispatchOnce w registry req) = snd (DispatchPending w registry limit))"
  by (auto simp: handleDispatchOnce_def split: prod.splits option.splits error.splits)

lemma handleJobs_state:
  "snd (handleJobs w req) = w \<or> snd (handleJobs w req) = snd (ListJobs w) \<or>
   (\<exists>inp. Req_Body req = Inr inp \<and> snd (handleJobs w req) = snd (CreateJob w inp))"
  by (auto simp: handleJobs_def split: prod.splits sum.splits)

lemma ListJobs_step: "service_ok w \<Longrightarrow> service_step 0 w (snd (ListJobs w))"
  by (simp add: service_step_def service_ok_def world_ok_def ListJobs_def Memory_ListJobs_def split_beta)

lemma handleJobByID_state:
  assumes "service_ok w" and "sequence w + 1 < 2 ^ 64"
  shows "service_step 1 w (snd (handleJobByID w registry req))"
proof -
  note steps = ScheduleJob_step [OF assms(1)] RetryJob_step [OF assms(1)] CancelJob_step [OF assms(1)]
  have refl: "service_step 1 w w" using assms(1) by (rule service_step_refl)
  have run: "service_step 1 w (snd (handleRunJob w registry req jid))" for jid
    using handleRunJob_state [of w registry req jid] RunJob_step [OF assms(1), of registry jid] assms(2) refl
    by auto
  have "service_step 1 w (snd (handleScheduleJob w req jid))" "service_step 1 w (snd (handleRetryJob w req jid))"
    "service_step 1 w (snd (handleCancelJob w req jid))" for jid
    using steps [of jid] refl
    by (auto simp: handleScheduleJob_def handleRetryJob_def handleCancelJob_def intro: service_step_mono)
  moreover have "snd (handleListExecutions w req jid) = w" "snd (handleTrace w req jid) = w" for jid
    by (simp_all add: handleListExecutions_def handleTrace_def split: sum.splits)
  ultimately show ?thesis
    using refl run unfolding handleJobByID_def Let_def by (auto split: sum.splits)
qed

lemma serve_step:
  assumes "service_ok w" and "sequence w + request_ids req < 2 ^ 64" and "request_ok req"
  shows "service_step (request_ids req) w (snd (serve w registry req))"
proof -
  have one: "sequence w + 1 < 2 ^ 64" using assms(2) request_ids_pos [of req] by linarith
  have refl: "service_step (request_ids req) w w" using assms(1) by (rule service_step_refl)
  have "service_step (request_ids req) w (snd (handleJobs w req))"
    using handleJobs_state [of w req]
  proof (elim disjE exE conjE)
    fix inp assume inp: "Req_Body req = Inr inp" "snd (handleJobs w req) = snd (CreateJob w inp)"
    then have "is_i64 (Input_MaxRetries inp)" using assms(3) by (simp add: request_ok_def)
    then show ?thesis
      using CreateJob_step [OF assms(1) one [unfolded Suc_eq_plus1 [symmetric]]] inp(2) request_ids_pos [of req]
      by (auto intro: service_step_mono)
  qed (use refl ListJobs_step [OF assms(1)] in \<open>auto intro: service_step_mono\<close>)
  moreover have "service_step (request_ids req) w (snd (handleJobByID w registry req))"
    using handleJobByID_state [OF assms(1) one] request_ids_pos by (rule service_step_mono)
  moreover have "service_step (request_ids req) w (snd (handleDispatchOnce w registry req))"
    using handleDispatchOnce_state [of w registry req]
  proof (elim disjE exE conjE)
    fix limit assume l: "dispatch_limit (query_get (Req_Query req) ''limit'') = Some limit"
      "snd (handleDispatchOnce w registry req) = snd (DispatchPending w registry limit)"
    then have "nat limit \<le> request_ids req" by (simp add: request_ids_def)
    with assms(2) l(2) DispatchPending_step [OF assms(1), of limit registry] show ?thesis
      by (auto intro: service_step_mono)
  qed (use refl in simp)
  ultimately show ?thesis
    using refl by (simp add: serve_def Let_def handleHealth_def handleMetrics_def)
qed

end
