(* ===== verification/Platform.thy ===== *)
theory Platform
  imports Api
begin

text \<open>
  Properties of the job platform that span the store, the dispatcher, the services and the
  HTTP interface, with a small concrete platform on which they are instantiated.
\<close>

section \<open>A concrete platform\<close>

definition demo_env :: environ where
  "demo_env = \<lparr>env_clock = (\<lambda>n. int n), env_random = (\<lambda>n. None), env_stamp = (\<lambda>n. [of_nat n]),
     env_order = (\<lambda>n ks. ks)\<rparr>"

definition demo_node :: "string \<Rightarrow> int \<Rightarrow> Node" where
  "demo_node nid n = \<lparr>Node_ID = nid, Node_Hostname = nid, Node_Status = NodeStatusOnline, Node_Labels = None,
     Node_Resource = \<lparr>Res_CPUCores = 8, Res_MemoryMiB = 1024, Res_GPUs = [], Res_TotalGPU = n,
       Res_AvailGPU = n, Res_UpdatedAt = 0\<rparr>, Node_LastHeartbeat = 0, Node_CreatedAt = 0\<rparr>"


definition demo_job :: "string \<Rightarrow> JobStatus \<Rightarrow> string \<Rightarrow> int \<Rightarrow> int \<Rightarrow> Job" where
  "demo_job jid st executor prio gpu = \<lparr>Job_ID = jid, Job_Name = ''demo'', Job_Type = ''training'', Job_Status = st,
     Job_Executor = executor, Job_Priority = prio, Job_ModelVersion = '''', Job_DatasetVersion = '''',
     Job_ImageTag = '''',
     Job_ResourceSpec = \<lparr>Spec_CPU = '''', Spec_Memory = '''', Spec_GPU = gpu, Spec_GPUMemory = ''''\<rparr>,
     Job_Command = [''train''], Job_Environment = Some [], Job_Metadata = Some [], Job_MaxRetries = 1,
     Job_RetryCount = 0, Job_LastError = '''', Job_TraceID = ''t'', Job_CreatedAt = 0, Job_UpdatedAt = 0\<rparr>"

definition demo_host :: host where
  "demo_host = \<lparr>host_environ = [], host_order = (\<lambda>n ks. ks), host_run = (\<lambda>n c. ('''', None))\<rparr>"

definition demo_registry :: Registry where
  "demo_registry = NewRegistry [HTTPExecutor, ShellExecutor demo_host, K8sJobExecutor demo_host '''']"

text \<open>Two nodes, a pending job without GPUs, a pending job of two GPUs and a failed one.\<close>

definition demo :: World where
  "demo = (new_world demo_env)\<lparr>sequence := 3, repo :=
     \<lparr>jobs = [(''job-1'', demo_job ''job-1'' JobStatusPending ''shell'' 1 0),
              (''job-2'', demo_job ''job-2'' JobStatusPending ''http'' 5 2),
              (''job-3'', demo_job ''job-3'' JobStatusFailed ''shell'' 7 0)],
      executions = Map.empty, jobIndex = Map.empty,
      nodes = [(''a'', demo_node ''a'' 4), (''b'', demo_node ''b'' 2)]\<rparr>\<rparr>"

lemmas demo_defs = demo_def demo_job_def demo_node_def demo_env_def new_world_def

lemma demo_id_seq [simp]: "id_seq ''job-1'' = 1" "id_seq ''job-2'' = 2" "id_seq ''job-3'' = 3"
  by (simp_all add: id_seq_def digits_val_def digit_val_def)

lemma demo_ok: "service_ok demo"
proof -
  have "store_wf (repo demo)"
    by (simp add: store_wf_def keyed_wf_def execs_wf_def index_of_def demo_defs)
  moreover have "gpu_wf (repo demo)" "jobs_ok (repo demo)" "runs_ok (repo demo)"
    by (simp_all add: gpu_wf_def node_ok_def is_i64_def jobs_ok_def find_job_def job_ok_def runs_ok_def
        is_running_def running_of_def attempts_ok_def demo_defs)
  moreover have "env_ok (environment demo)" by (simp add: env_ok_def iter_order_def demo_defs)
  moreover have "ids_below (repo demo) (sequence demo)" by (simp add: ids_below_def find_job_def demo_defs)
  ultimately show ?thesis by (simp add: service_ok_def world_ok_def store_ok_def)
qed

definition demo_input :: "int \<Rightarrow> CreateJobInput" where
  "demo_input gpu = \<lparr>Input_Name = ''demo'', Input_Type = ''training'', Input_Executor = ''shell'',
     Input_Priority = 1, Input_ModelVersion = '''', Input_DatasetVersion = '''', Input_ImageTag = '''',
     Input_ResourceSpec = \<lparr>Spec_CPU = '''', Spec_Memory = '''', Spec_GPU = gpu, Spec_GPUMemory = ''''\<rparr>,
     Input_Command = [''train''], Input_Environment = None, Input_Metadata = None, Input_MaxRetries = 1\<rparr>"

definition demo_commands :: "command list" where
  "demo_commands = [Register (demo_node ''a'' 4), Submit (demo_input 2), Run ''job-1'', Retry ''job-1'', Dispatch 3]"

lemma demo_env_ok: "env_ok demo_env"
  by (simp add: env_ok_def iter_order_def demo_env_def)

lemma demo_commands_ok: "list_all command_ok demo_commands" "sum_list (map new_ids demo_commands) = 5"
  by (simp_all add: demo_commands_def demo_input_def demo_node_def node_ok_def is_i64_def)

lemma demo_sequence [simp]: "sequence demo = 3"
  by (simp add: demo_defs)

lemma demo_find:
  "find_job (repo demo) ''job-1'' = Some (demo_job ''job-1'' JobStatusPending ''shell'' 1 0)"
  "find_job (repo demo) ''job-2'' = Some (demo_job ''job-2'' JobStatusPending ''http'' 5 2)"
  "find_job (repo demo) ''job-3'' = Some (demo_job ''job-3'' JobStatusFailed ''shell'' 7 0)"
  by (simp_all add: demo_defs find_job_def)

section \<open>Histories\<close>

text \<open>
  Property C2. From an empty platform, after any history of submissions, cancellations,
  retries, scheduling, runs, dispatches and node registrations, the store is consistent:
  jobs and nodes are stored once under their identifiers, an execution is indexed exactly
  under its job, no node offers a negative number of GPUs or more than it has, no job was
  retried more often than it allows, and a job is running exactly while one execution of it is.
\<close>

theorem platform_invariant:
  assumes "env_ok env" and "list_all command_ok cmds" and "sum_list (map new_ids cmds) < 2 ^ 64"
  shows "store_ok (repo (run_commands registry (new_world env) cmds))"
proof -
  have "sequence (new_world env) = 0" by (simp add: new_world_def)
  with run_commands_ok [OF service_ok_new [OF assms(1)] assms(2), of registry] assms(3)
  show ?thesis by (simp add: service_ok_D(5))
qed

theorem platform_invariant_witness:
  "store_ok (repo (run_commands demo_registry (new_world demo_env) demo_commands))"
  using platform_invariant [OF demo_env_ok demo_commands_ok(1), of demo_registry] demo_commands_ok(2) by simp

text \<open>
  Property C7. Whatever happens to the platform, a stored job is never lost; what it asked
  for never changes (of its metadata, which the scheduler writes into, every entry but
  \<^verbatim>\<open>assigned_node\<close> stays), its retry count never decreases, and its status moves only along
  the transitions of the lifecycle; the record of an execution, once an operation has left it,
  is never changed by a later one.
\<close>

theorem job_history:
  assumes "service_ok w" and "list_all command_ok cmds" and "sequence w + sum_list (map new_ids cmds) < 2 ^ 64"
    and "find_job (repo w) jid = Some job"
  shows "\<exists>job'. find_job (repo (run_commands registry w cmds)) jid = Some job' \<and>
    same_request job job' \<and> Job_RetryCount job \<le> Job_RetryCount job' \<and>
    status_move\<^sup>*\<^sup>* (Job_Status job) (Job_Status job') \<and>
    executions (repo w) \<subseteq>\<^sub>m executions (repo (run_commands registry w cmds))"
  using run_commands_ok [OF assms(1-3), of registry] assms(4)
  by (auto simp: jobs_evolve_def job_evolves_def dest!: entries_evolve_find)

theorem job_history_witness:
  "\<exists>job'. find_job (repo (run_commands demo_registry demo demo_commands)) ''job-2'' = Some job' \<and>
    same_request (demo_job ''job-2'' JobStatusPending ''http'' 5 2) job' \<and>
    status_move\<^sup>*\<^sup>* JobStatusPending (Job_Status job')"
  using job_history [OF demo_ok demo_commands_ok(1) _ demo_find(2), of demo_registry] demo_commands_ok(2)
  by (auto simp: demo_job_def)

text \<open>
  A job that succeeded or was cancelled keeps that status for ever, whatever
  requests arrive afterwards.
\<close>

lemma settled_status:
  assumes "service_ok w" and "list_all command_ok cmds" and "sequence w + sum_list (map new_ids cmds) < 2 ^ 64"
    and "find_job (repo w) jid = Some job"
    and "Job_Status job = JobStatusSucceeded \<or> Job_Status job = JobStatusCancelled"
  shows "map_option Job_Status (find_job (repo (run_commands registry w cmds)) jid) = Some (Job_Status job)"
  using run_commands_ok [OF assms(1-3), of registry] assms(4) status_moves_final [OF _ assms(5)]
  by (fastforce simp: jobs_evolve_def job_evolves_def dest!: entries_evolve_find)

text \<open>
  Property C13. GPUs are never given back: no history of job requests ever increases the
  number of GPUs a registered node offers, although \<^verbatim>\<open>ReleaseJobResources\<close> exists for the
  end of a job. It is not called by the services.
\<close>

theorem gpus_never_released:
  assumes "service_ok w" and "list_all command_ok cmds" and "list_all job_command cmds"
    and "sequence w + sum_list (map new_ids cmds) < 2 ^ 64"
  shows "avail_gpu (repo (run_commands registry w cmds)) nid \<le> avail_gpu (repo w) nid"
  by (intro nodes_evolve_avail steps_nodes_evolve run_job_commands_evolve assms service_ok_D(5))

theorem gpus_never_released_witness:
  "avail_gpu (repo (run_commands demo_registry demo [Dispatch 3, Retry ''job-2'', Cancel ''job-2''])) ''b'' \<le> 2"
  using gpus_never_released [OF demo_ok, of "[Dispatch 3, Retry ''job-2'', Cancel ''job-2'']" demo_registry "''b''"]
  by (simp add: job_command_def, simp add: avail_gpu_def demo_defs)

section \<open>Running a job\<close>

definition attempted :: "Job \<Rightarrow> Job \<Rightarrow> bool" where
  "attempted job job' \<longleftrightarrow>
     (if Job_RetryCount job < Job_MaxRetries job
      then Job_Status job' = JobStatusRetrying \<and> Job_RetryCount job' = Job_RetryCount job + 1
      else Job_Status job' = JobStatusFailed \<and> Job_RetryCount job' = Job_RetryCount job)"

lemma marks_simps:
  "marks job job1 \<Longrightarrow> Job_RetryCount job1 = Job_RetryCount job \<and> Job_MaxRetries job1 = Job_MaxRetries job \<and>
     Job_Executor job1 = Job_Executor job"
  by (auto simp: marks_def)

lemma run_failed_attempted:
  assumes "run_failed (job1\<lparr>Job_Status := JobStatusRunning, Job_UpdatedAt := t\<rparr>) ex err res job' ex'"
    and "job_ok job" and "job1 = job \<or> marks job job1" and "exec_new job1 ex"
  shows "attempted job job'" and "Exec_Status ex' = ExecutionStatusFailed"
    and "Exec_Attempt ex' = i64 (Job_RetryCount job + 1)" and "Exec_Error ex' = Error err"
    and "Job_LastError job' = Error err"
proof -
  have c: "Job_RetryCount job1 = Job_RetryCount job" "Job_MaxRetries job1 = Job_MaxRetries job"
    using assms(3) marks_simps by auto
  have "i64 (Job_RetryCount job + 1) = Job_RetryCount job + 1" if "Job_RetryCount job < Job_MaxRetries job"
    using that assms(2) by (auto simp: job_ok_def is_i64_def)
  then show "attempted job job'"
    using assms(1) c by (auto simp: run_failed_def attempted_def Scheduler_CanRetry_def MarkRetrying_def)
  show "Exec_Status ex' = ExecutionStatusFailed" "Exec_Attempt ex' = i64 (Job_RetryCount job + 1)"
    "Exec_Error ex' = Error err" "Job_LastError job' = Error err"
    using assms(1,4) c by (auto simp: run_failed_def exec_new_def MarkRetrying_def)
qed

lemma run_reply_cases:
  assumes "settles (job\<lparr>Job_Status := JobStatusRunning, Job_UpdatedAt := t\<rparr>) ex out job' ex'"
    and "run_reply job ex ex' (snd out) = (exo, eo)"
  obtains (succeeded) "eo = None" and "exo = Some ex'" and "Exec_ID ex' = Exec_ID ex"
      and "Exec_Status ex' = ExecutionStatusSucceeded" and "Job_Status job' = JobStatusSucceeded" and "Job_LastError job' = ''''"
    | (panicked) err where "eo = Some err" and "is_panic err" and "exo = None" and "ex' = ex"
      and "job' = job\<lparr>Job_Status := JobStatusRunning, Job_UpdatedAt := t\<rparr>"
    | (failed) err res where "eo = Some (wrapf (''execute job '' @ Job_ID job) err)" and "exo = Some ex"
      and "run_failed (job\<lparr>Job_Status := JobStatusRunning, Job_UpdatedAt := t\<rparr>) ex err res job' ex'"
proof (cases out)
  case (Pair res err)
  show thesis
  proof (cases err)
    case None
    with Pair assms show thesis
      by (intro succeeded) (auto simp: settles_def run_reply_def run_succeeded_def)
  next
    case (Some e)
    with Pair assms show thesis
      by (cases "is_panic e") (auto simp: settles_def run_reply_def intro: panicked failed)
  qed
qed

text \<open>
  Property C3. A run settles unless its executor panics. Without an error the job has
  succeeded and the returned execution is stored as succeeded; with an error either nothing
  was stored, or the attempt is recorded as failed with the number of retries so far plus
  one, and the job waits for its next retry with the count increased, or has failed when its
  retries are used up. When the executor panics the job and the new execution stay running.
\<close>

theorem RunJob_result:
  assumes "service_ok w" and "Suc (sequence w) < 2 ^ 64" and "RunJob w registry jid = ((exo, eo), w')"
  shows "case eo of
      None \<Rightarrow> \<exists>ex job'. exo = Some ex \<and> find_job (repo w') jid = Some job' \<and>
        Job_Status job' = JobStatusSucceeded \<and> Job_LastError job' = '''' \<and>
        executions (repo w') (Exec_ID ex) = Some ex \<and> Exec_Status ex = ExecutionStatusSucceeded
    | Some err \<Rightarrow> exo = None \<and> repo w' = repo w \<or>
        (\<exists>job job' ex ex'. exo = Some ex \<and> find_job (repo w) jid = Some job \<and>
          find_job (repo w') jid = Some job' \<and> attempted job job' \<and>
          executions (repo w) (Exec_ID ex) = None \<and> executions (repo w') (Exec_ID ex) = Some ex' \<and>
          Exec_Status ex' = ExecutionStatusFailed \<and> Exec_Attempt ex' = i64 (Job_RetryCount job + 1) \<and>
          Exec_Error ex' = Job_LastError job') \<or>
        (\<exists>job job' ex. is_panic err \<and> exo = None \<and> find_job (repo w) jid = Some job \<and>
          find_job (repo w') jid = Some job' \<and> Job_Status job' = JobStatusRunning \<and>
          Job_RetryCount job' = Job_RetryCount job \<and>
          executions (repo w) (Exec_ID ex) = None \<and> executions (repo w') (Exec_ID ex) = Some ex \<and>
          Exec_JobID ex = jid \<and> Exec_Status ex = ExecutionStatusRunning)"
proof (cases "\<exists>job. find_job (repo w) jid = Some job \<and> runnable (repo w) job")
  case True
  then obtain job where job: "find_job (repo w) jid = Some job" "runnable (repo w) job" by blast
  have ok: "job_ok job"
    using service_ok_D(5) [OF assms(1)] job(1) by (auto simp: store_ok_def intro: jobs_ok_find)
  from RunJob_settles [OF assms(1,2) job, of registry] obtain job1 ex t n out job' ex' w1 where
    r: "RunJob w registry jid = (run_reply job1 ex ex' (snd out), w1)" "job1 = job \<or> marks job job1"
      "settles (job1\<lparr>Job_Status := JobStatusRunning, Job_UpdatedAt := t\<rparr>) ex out job' ex'" "exec_new job1 ex"
      "executions (repo w) (Exec_ID ex) = None"
      "find_job (repo w1) jid = Some job'" "executions (repo w1) (Exec_ID ex) = Some ex'" by metis
  have reply: "run_reply job1 ex ex' (snd out) = (exo, eo)" and w1: "w1 = w'" using r(1) assms(3) by simp_all
  from r(3) reply show ?thesis
  proof (cases rule: run_reply_cases)
    case succeeded
    then show ?thesis using r(6,7) w1 by simp
  next
    case (panicked err)
    moreover have "Job_RetryCount job1 = Job_RetryCount job" "Job_ID job1 = jid"
      using r(2) marks_simps marks_keys find_job_key [OF service_ok_D(3) [OF assms(1)] job(1)] by auto
    ultimately show ?thesis using r(4-7) w1 job(1) by (auto simp: exec_new_def)
  next
    case (failed err res)
    note f = run_failed_attempted [OF failed(3) ok r(2,4)]
    show ?thesis using failed(1,2) f r(5-7) w1 job(1) by simp
  qed
next
  case False
  with RunJob_rejected [OF assms(1), of jid registry] assms(3) show ?thesis by auto
qed

text \<open>The HTTP executor always fails, so the job of the example is left waiting for its retry.\<close>

lemma demo_runnable: "runnable (repo demo) (demo_job ''job-2'' JobStatusPending ''http'' 5 2)"
  by (auto simp: runnable_def can_place_def CanSchedule_def node_fits_def IsSchedulable_def CanFitGPU_def
      parseGPUMemoryMiB_def demo_defs intro!: exI [of _ "''a''"])

lemma demo_run:
  obtains ex err w' where "RunJob demo demo_registry ''job-2'' = ((Some ex, Some err), w')"
proof -
  let ?job = "demo_job ''job-2'' JobStatusPending ''http'' 5 2"
  have sq: "Suc (sequence demo) < 2 ^ 64" by simp
  show thesis
  proof (rule RunJob_settles [OF demo_ok sq demo_find(2) demo_runnable, of demo_registry])
    fix job1 ex t n out ex' w'
    assume r: "RunJob demo demo_registry ''job-2'' = (run_reply job1 ex ex' (snd out), w')"
      and "job1 = ?job \<or> marks ?job job1"
      and out: "out = executor_result demo_registry n (job1\<lparr>Job_Status := JobStatusRunning, Job_UpdatedAt := t\<rparr>)"
    then have "Job_Executor job1 = ''http''" using marks_simps by (auto simp: demo_job_def)
    with out obtain err where "snd out = Some err" "\<not> is_panic err"
      by (simp add: executor_result_def demo_registry_def NewRegistry_find Registry_Get_def HTTPExecutor_def
          HTTP_Execute_def ShellExecutor_def K8sJobExecutor_def)
    with r show thesis using that by (simp add: run_reply_def)
  qed
qed

theorem RunJob_result_witness:
  "\<exists>job' ex'. find_job (repo (snd (RunJob demo demo_registry ''job-2''))) ''job-2'' = Some job' \<and>
     Job_Status job' = JobStatusRetrying \<and> Job_RetryCount job' = 1 \<and>
     executions (repo (snd (RunJob demo demo_registry ''job-2''))) (Exec_ID ex') = Some ex' \<and>
     Exec_Status ex' = ExecutionStatusFailed \<and> Exec_Attempt ex' = 1"
proof -
  obtain ex err w' where r: "RunJob demo demo_registry ''job-2'' = ((Some ex, Some err), w')" by (rule demo_run)
  have "Suc (sequence demo) < 2 ^ 64" by simp
  from RunJob_result [OF demo_ok this r] obtain job' ex' where
    "find_job (repo w') ''job-2'' = Some job'" "attempted (demo_job ''job-2'' JobStatusPending ''http'' 5 2) job'"
    "executions (repo w') (Exec_ID ex) = Some ex'" "Exec_Status ex' = ExecutionStatusFailed" "Exec_Attempt ex' = i64 1"
    by (auto simp: demo_find(2) demo_job_def)
  moreover have "store_wf (repo w')"
    using RunJob_step [OF demo_ok, of demo_registry "''job-2''"] r by (simp add: service_step_def service_ok_D(3))
  then have "Exec_ID ex' = Exec_ID ex" using calculation(3) by (intro execs_wf_D(1) [OF store_wf_D(3)])
  ultimately show ?thesis
    using r by (intro exI [of _ job'] exI [of _ ex']) (simp add: attempted_def demo_job_def is_i64_def)
qed

section \<open>Scheduling\<close>

text \<open>
  Property C5. \<open>SchedulePending\<close> places at most \<open>limit\<close> jobs, each at most once and in
  priority order (older first among equals); each of them was waiting, is returned and
  stored as scheduled and otherwise unchanged, and no other job changes.
\<close>

theorem SchedulePending_order:
  assumes "world_ok w" and "SchedulePending w limit = (Inr ps, w')"
  shows "int (length ps) \<le> limit \<and> distinct (map Job_ID ps) \<and>
    sorted_wrt (\<lambda>a b. \<not> PQ_Less b a) ps \<and>
    (\<forall>p \<in> set ps. \<exists>job. schedulable (repo w) job \<and> marks job p) \<and>
    (\<forall>jid. find_job (repo w') jid =
       (case find (\<lambda>p. Job_ID p = jid) ps of None \<Rightarrow> find_job (repo w) jid | Some p \<Rightarrow> Some p))"
proof (rule SchedulePending_run [OF assms])
  fix js w1
  assume run: "place_run w1 js (nat limit) ps w'" and "repo w1 = repo w" and d: "distinct (map Job_ID js)"
    and js: "set js = {job. schedulable (repo w) job}"
    and s: "sorted_wrt (\<lambda>a b. \<not> PQ_Less b a) js" and l: "0 \<le> limit"
  obtain js' where js': "subseq js' js" "list_all2 marks js' ps" using place_run_marks [OF run] by blast
  have "distinct (map Job_ID js')"
    using subseq_map [OF js'(1), of Job_ID] d by (auto simp: subseq_conv_nths distinct_nthsI)
  then have "distinct (map Job_ID ps)" using marks_id [OF js'(2)] by simp
  moreover have "sorted_wrt (\<lambda>a b. \<not> PQ_Less b a) ps"
    using js' s by (intro sorted_marks [OF js'(2)] sorted_wrt_subseq [OF js'(1)])
  moreover have "\<exists>job. schedulable (repo w) job \<and> marks job p" if "p \<in> set ps" for p
    using marks_member [OF js'(2) that] subseq_set [OF js'(1)] js by blast
  moreover have "int (length ps) \<le> limit" using place_run_length [OF run] l by linarith
  ultimately show ?thesis
    using place_run_find [OF run d, unfolded \<open>repo w1 = repo w\<close>] by simp
qed

lemma demo_schedule:
  "SchedulePending demo 5 = (Inr (projr (fst (SchedulePending demo 5))), snd (SchedulePending demo 5))"
  "map Job_ID (projr (fst (SchedulePending demo 5))) = [''job-2'', ''job-1'']"
  by (simp add: SchedulePending_def Memory_ListJobs_def job_cap_ok_def split_beta Let_def, code_simp)

theorem SchedulePending_order_witness:
  "map Job_ID (projr (fst (SchedulePending demo 5))) = [''job-2'', ''job-1''] \<and>
   sorted_wrt (\<lambda>a b. \<not> PQ_Less b a) (projr (fst (SchedulePending demo 5)))"
  using SchedulePending_order [OF service_ok_D(1) [OF demo_ok] demo_schedule(1)] demo_schedule(2) by blast

text \<open>
  Property C4. Scheduling wastes no capacity: when it stops short of its limit, every
  waiting job it left behind needs GPUs that no registered node can give any more.
\<close>

theorem SchedulePending_complete:
  assumes "world_ok w" and "SchedulePending w limit = (Inr ps, w')" and "int (length ps) < limit"
    and "schedulable (repo w) job" and "Job_ID job \<notin> Job_ID ` set ps"
  shows "0 < Spec_GPU (Job_ResourceSpec job) \<and>
    (\<forall>nid node. map_of (nodes (repo w')) nid = Some node \<longrightarrow> \<not> node_fits (Job_ResourceSpec job) node)"
proof (rule SchedulePending_run [OF assms(1,2)])
  fix js w1
  assume run: "place_run w1 js (nat limit) ps w'" "world_ok w1" and js: "set js = {job. schedulable (repo w) job}"
  have "\<not> can_place (repo w') job"
    using assms(3-5) js by (intro place_run_exhausts [OF run]) auto
  with assms(4) show ?thesis by (auto simp: can_place_def schedulable_def)
qed

definition demo_full :: World where
  "demo_full = demo\<lparr>repo := (repo demo)\<lparr>nodes := [(''b'', demo_node ''b'' 1)]\<rparr>\<rparr>"

lemma demo_full_ok: "service_ok demo_full"
proof -
  have "store_wf (repo demo_full)"
    by (simp add: store_wf_def keyed_wf_def execs_wf_def index_of_def demo_full_def demo_defs)
  moreover have "gpu_wf (repo demo_full)" "jobs_ok (repo demo_full)" "runs_ok (repo demo_full)"
    by (simp_all add: gpu_wf_def node_ok_def is_i64_def jobs_ok_def find_job_def job_ok_def runs_ok_def
        is_running_def running_of_def attempts_ok_def demo_full_def demo_defs)
  moreover have "env_ok (environment demo_full)" by (simp add: env_ok_def iter_order_def demo_full_def demo_defs)
  moreover have "ids_below (repo demo_full) (sequence demo_full)"
    by (simp add: ids_below_def find_job_def demo_full_def demo_defs)
  ultimately show ?thesis by (simp add: service_ok_def world_ok_def store_ok_def)
qed

lemma demo_full_schedule:
  "SchedulePending demo_full 5 = (Inr (projr (fst (SchedulePending demo_full 5))), snd (SchedulePending demo_full 5))"
  "map Job_ID (projr (fst (SchedulePending demo_full 5))) = [''job-1'']"
  by (simp add: SchedulePending_def Memory_ListJobs_def job_cap_ok_def split_beta Let_def, code_simp)

lemma demo_full_node:
  "map_of (nodes (repo (snd (SchedulePending demo_full 5)))) ''b'' = Some (demo_node ''b'' 1)"
  by code_simp

theorem SchedulePending_complete_witness:
  "map_of (nodes (repo (snd (SchedulePending demo_full 5)))) ''b'' = Some (demo_node ''b'' 1) \<and>
   \<not> node_fits (Job_ResourceSpec (demo_job ''job-2'' JobStatusPending ''http'' 5 2)) (demo_node ''b'' 1)"
proof -
  let ?ps = "projr (fst (SchedulePending demo_full 5))"
  have "length ?ps = 1" "Job_ID ` set ?ps = {''job-1''}"
    using demo_full_schedule(2) by (metis length_map length_Cons list.size(3) One_nat_def,
        metis list.set_map list.simps(15) list.set(1))
  moreover have "schedulable (repo demo_full) (demo_job ''job-2'' JobStatusPending ''http'' 5 2)"
    by (simp add: schedulable_def find_job_def CanSchedule_def demo_full_def demo_defs)
  ultimately show ?thesis
    using SchedulePending_complete [OF service_ok_D(1) [OF demo_full_ok] demo_full_schedule(1),
        of "demo_job ''job-2'' JobStatusPending ''http'' 5 2"] demo_full_node
    by (auto simp: demo_job_def)
qed

text \<open>
  Property C6. The GPU books balance: a node offers exactly as many GPUs fewer after
  scheduling as the jobs placed on it in that round asked for, and none is promised twice.
\<close>

theorem SchedulePending_accounting:
  assumes "world_ok w" and "SchedulePending w limit = (Inr ps, w')" and "map_of (nodes (repo w)) '''' = None"
  shows "avail_gpu (repo w') nid = avail_gpu (repo w) nid - gpus_on nid ps \<and> 0 \<le> avail_gpu (repo w') nid"
proof (rule SchedulePending_run [OF assms(1,2)])
  fix js w1
  assume run: "place_run w1 js (nat limit) ps w'" "world_ok w1" and w1: "repo w1 = repo w"
  have "world_ok w'" using run(2) place_run_steps [OF run(1)] by (blast intro: world_ok_steps)
  then have "gpu_wf (repo w')" by (simp add: world_ok_def store_ok_def)
  then have "0 \<le> avail_gpu (repo w') nid"
    by (auto simp: avail_gpu_def gpu_wf_def node_ok_def split: option.splits)
  moreover have "map_of (nodes (repo w1)) '''' = None" using assms(3) w1 by simp
  ultimately show ?thesis using place_run_avail [OF run] w1 by metis
qed

theorem SchedulePending_accounting_witness:
  "avail_gpu (repo (snd (SchedulePending demo 5))) ''b'' =
     2 - gpus_on ''b'' (projr (fst (SchedulePending demo 5)))"
proof -
  have "map_of (nodes (repo demo)) '''' = None" "avail_gpu (repo demo) ''b'' = 2"
    by (simp_all add: avail_gpu_def demo_defs)
  with SchedulePending_accounting [OF service_ok_D(1) [OF demo_ok] demo_schedule(1), of "''b''"]
  show ?thesis by simp
qed

text \<open>
  \<open>SchedulePending\<close> always returns a list, unless its limit is negative or so
  large that the slice for the result cannot be made: then it panics and schedules nothing.
  The HTTP interface lets such a limit through.
\<close>

lemma SchedulePending_panics:
  "(if job_cap_ok limit then \<exists>ps w'. SchedulePending w limit = (Inr ps, w')
    else \<exists>msg w'. SchedulePending w limit = (Inl (GoPanic msg), w') \<and> repo w' = repo w) \<and>
   dispatch_limit (itoa (2 ^ 62)) = Some (2 ^ 62) \<and> \<not> job_cap_ok (2 ^ 62)"
proof -
  have "Atoi (itoa (2 ^ 62)) = Some (2 ^ 62)" by (rule Atoi_itoa) (simp add: is_i64_def)
  then show ?thesis
    by (simp add: SchedulePending_def Memory_ListJobs_def split_beta Let_def dispatch_limit_def job_cap_ok_def)
qed

text \<open>
  Property C15. Best fit takes, of all nodes of the list that fit the request, one that is
  left with the fewest free GPUs, and it finds a node whenever one fits.
\<close>

theorem MatchNode_best_fit:
  assumes "0 \<le> Spec_GPU spec" and "list_all node_ok ns"
  shows "case MatchNode ns spec StrategyBestFit of
      Inl err \<Rightarrow> \<forall>node \<in> set ns. \<not> node_fits spec node
    | Inr node \<Rightarrow> node \<in> set ns \<and> node_fits spec node \<and>
        (\<forall>other \<in> set ns. node_fits spec other \<longrightarrow>
           Res_AvailGPU (Node_Resource node) \<le> Res_AvailGPU (Node_Resource other))"
  using MatchNode_Inl_iff [of ns spec StrategyBestFit] MatchNode_Inr [of ns spec StrategyBestFit]
    MatchNode_BestFit_least [of ns spec] assms
  by (auto simp: list_all_iff split: sum.splits)

theorem MatchNode_best_fit_witness:
  "\<exists>node. MatchNode [demo_node ''a'' 4, demo_node ''b'' 2, demo_node ''c'' 1]
       \<lparr>Spec_CPU = '''', Spec_Memory = '''', Spec_GPU = 2, Spec_GPUMemory = ''''\<rparr> StrategyBestFit = Inr node \<and>
     Res_AvailGPU (Node_Resource node) \<le> 2"
proof -
  let ?ns = "[demo_node ''a'' 4, demo_node ''b'' 2, demo_node ''c'' 1]"
  let ?spec = "\<lparr>Spec_CPU = '''', Spec_Memory = '''', Spec_GPU = 2, Spec_GPUMemory = ''''\<rparr>"
  have "node_fits ?spec (demo_node ''b'' 2)"
    by (simp add: node_fits_def IsSchedulable_def CanFitGPU_def parseGPUMemoryMiB_def demo_node_def)
  moreover have "list_all node_ok ?ns" by (simp add: node_ok_def demo_node_def is_i64_def)
  moreover have "Res_AvailGPU (Node_Resource (demo_node ''b'' 2)) = 2" by (simp add: demo_node_def)
  ultimately show ?thesis
    using MatchNode_best_fit [of ?spec ?ns] by (cases "MatchNode ?ns ?spec StrategyBestFit") auto
qed

section \<open>Submitting and reading back\<close>

text \<open>
  Property C14. A request is accepted exactly when its name, executor and command are not
  empty, its type is one of the three job types, and neither its number of GPUs nor its number
  of retries is negative. Then the job is stored under an identifier no job had before, with
  the fields of the request, pending and never tried, it reads back as it was returned, and no
  other job changes; otherwise the whole state stays as it was and the error is
  \<^verbatim>\<open>ErrInvalidJob\<close>.
\<close>

theorem CreateJob_roundtrip:
  assumes "service_ok w" and "Suc (sequence w) < 2 ^ 64"
  shows "if Input_Name inp \<noteq> '''' \<and> Input_Type inp \<in> {JobTypeTraining, JobTypeInference, JobTypeBenchmark} \<and>
        Input_Executor inp \<noteq> '''' \<and> Input_Command inp \<noteq> [] \<and>
        0 \<le> Spec_GPU (Input_ResourceSpec inp) \<and> 0 \<le> Input_MaxRetries inp
      then \<exists>job w'. CreateJob w inp = (Inr job, w') \<and> submitted_as inp job \<and>
        (\<exists>err. GetJob w (Job_ID job) = Inl err) \<and> GetJob w' (Job_ID job) = Inr job \<and>
        (\<forall>jid. jid \<noteq> Job_ID job \<longrightarrow> GetJob w' jid = GetJob w jid)
      else \<exists>err. CreateJob w inp = (Inl err, w) \<and> errors_Is err ErrInvalidJob"
proof (cases "CreateJobInput_Validate inp")
  case None
  from CreateJob_valid [OF assms this] obtain job w' where
    c: "CreateJob w inp = (Inr job, w')" "submitted_as inp job" "repo w' = put_job (repo w) job"
      "find_job (repo w) (Job_ID job) = None" .
  have "GetJob w' jid = GetJob w jid" if "jid \<noteq> Job_ID job" for jid
    using that c(3) by (simp add: GetJob_def Memory_GetJob_def put_job_def)
  with c have "\<exists>job w'. CreateJob w inp = (Inr job, w') \<and> submitted_as inp job \<and>
      (\<exists>err. GetJob w (Job_ID job) = Inl err) \<and> GetJob w' (Job_ID job) = Inr job \<and>
      (\<forall>jid. jid \<noteq> Job_ID job \<longrightarrow> GetJob w' jid = GetJob w jid)"
    by (intro exI [of _ job] exI [of _ w']) (simp add: GetJob_stored GetJob_missing)
  then show ?thesis by (subst if_P [OF None [unfolded CreateJobInput_Validate_None]])
next
  case (Some err)
  then have "\<not> CreateJobInput_Validate inp = None" by simp
  from Some have "CreateJob w inp = (Inl err, w) \<and> errors_Is err ErrInvalidJob"
    by (simp add: CreateJob_invalid CreateJobInput_Validate_error)
  then show ?thesis
    by (subst if_not_P [OF \<open>\<not> CreateJobInput_Validate inp = None\<close> [unfolded CreateJobInput_Validate_None]]) blast
qed

theorem CreateJob_roundtrip_witness:
  "(\<exists>job w'. CreateJob demo (demo_input 2) = (Inr job, w') \<and> GetJob w' (Job_ID job) = Inr job \<and>
     submitted_as (demo_input 2) job) \<and>
   (\<exists>err. CreateJob demo (demo_input 2\<lparr>Input_Command := []\<rparr>) = (Inl err, demo) \<and> errors_Is err ErrInvalidJob)"
proof -
  have s: "Suc (sequence demo) < 2 ^ 64" by simp
  note c = CreateJob_roundtrip [OF demo_ok s]
  show ?thesis
    using c [of "demo_input 2"] c [of "demo_input 2\<lparr>Input_Command := []\<rparr>"]
    by (auto simp: demo_input_def JobTypeTraining_def)
qed



text \<open>
  Listing the executions of a job gives exactly the stored executions of that
  job, by attempt number.
\<close>

lemma ListExecutions_complete:
  assumes "service_ok w"
  shows "\<exists>exs. ListExecutions w jid = Inr exs \<and> sorted (map Exec_Attempt exs) \<and>
    set exs = {ex. executions (repo w) (Exec_ID ex) = Some ex \<and> Exec_JobID ex = jid}"
proof -
  obtain exs where exs: "Memory_ListExecutions (repo w) jid = Inr exs" by (simp add: Memory_ListExecutions_def Let_def)
  have "execs_wf (repo w)" using service_ok_D(3) [OF assms] by (rule store_wf_D)
  from Memory_ListExecutions_set [OF this exs] Memory_ListExecutions_sorted [OF exs] exs show ?thesis
    by (simp add: ListExecutions_def)
qed

text \<open>
  With the executors for shell commands, HTTP and Kubernetes, an execution is
  recorded as succeeded only with exit code zero.
\<close>

lemma RunJob_success_code:
  assumes "service_ok w" and "Suc (sequence w) < 2 ^ 64" and "RunJob w registry jid = ((Some ex, None), w')"
    and "registry_ok registry"
  shows "Exec_ExitCode ex = 0 \<and> Exec_Status ex = ExecutionStatusSucceeded"
proof -
  have "\<exists>job. find_job (repo w) jid = Some job \<and> runnable (repo w) job"
    using RunJob_rejected [OF assms(1), of jid registry] assms(3) by auto
  then obtain job where job: "find_job (repo w) jid = Some job" "runnable (repo w) job" by blast
  from RunJob_settles [OF assms(1,2) job, of registry] obtain job1 x t n out job' ex' w1 where
    r: "RunJob w registry jid = (run_reply job1 x ex' (snd out), w1)"
      "out = executor_result registry n (job1\<lparr>Job_Status := JobStatusRunning, Job_UpdatedAt := t\<rparr>)"
      "settles (job1\<lparr>Job_Status := JobStatusRunning, Job_UpdatedAt := t\<rparr>) x out job' ex'" by metis
  then have reply: "run_reply job1 x ex' (snd out) = (Some ex, None)" using assms(3) by simp
  then have none: "snd out = None" "ex' = ex" by (cases "snd out"; simp add: run_reply_def split: if_splits)+
  then obtain res where out: "out = (res, None)" by (cases out) simp
  with r(2) obtain e where "Registry_Get registry (Job_Executor job1) = Inr e"
    "Execute e n (job1\<lparr>Job_Status := JobStatusRunning, Job_UpdatedAt := t\<rparr>) = (res, None)"
    by (auto simp: executor_result_def split: sum.splits)
  then have "Result_ExitCode res = 0"
    using assms(4) executor_contract.success_code
    by (fastforce simp: registry_ok_def Registry_Get_def split: option.splits)
  with out r(3) none(2) show ?thesis by (auto simp: settles_def run_succeeded_def)
qed

section \<open>The HTTP interface\<close>

text \<open>
  Property C17. Reading is safe: a request whose method is not POST changes no job, no
  execution, no node, no counter, no trace and no identifier, on every route.
\<close>

theorem serve_read_only:
  assumes "Req_Method req \<noteq> MethodPost"
  shows "same_state w (snd (serve w registry req))"
  using assms by (rule serve_read_state)

theorem serve_read_only_witness:
  "same_state demo (snd (serve demo demo_registry
     \<lparr>Req_Method = ''GET'', Req_Path = ''/jobs/job-1/run'', Req_Query = [], Req_Body = Inl ErrNotFound\<rparr>))"
  by (rule serve_read_only) simp

fun serve_all :: "Registry \<Rightarrow> World \<Rightarrow> Request list \<Rightarrow> World" where
  "serve_all registry w [] = w"
| "serve_all registry w (req # reqs) = serve_all registry (snd (serve w registry req)) reqs"

lemma serve_all_step:
  "service_ok w \<Longrightarrow> list_all request_ok reqs \<Longrightarrow> sequence w + sum_list (map request_ids reqs) < 2 ^ 64 \<Longrightarrow>
   service_step (sum_list (map request_ids reqs)) w (serve_all registry w reqs)"
proof (induction reqs arbitrary: w)
  case (Cons req reqs)
  have s: "service_step (request_ids req) w (snd (serve w registry req))"
    using Cons.prems by (intro serve_step) simp_all
  then have "service_ok (snd (serve w registry req))"
    "sequence (snd (serve w registry req)) \<le> sequence w + request_ids req"
    by (simp_all add: service_step_def)
  with Cons have "service_step (sum_list (map request_ids reqs)) (snd (serve w registry req))
      (serve_all registry (snd (serve w registry req)) reqs)" by simp
  with s show ?case using service_step_trans by fastforce
qed (simp add: service_step_refl)

text \<open>
  Property C1. The server refines the lifecycle specification: whatever requests it
  serves, in any number and order, valid or not, what happens to the store is a sequence of
  lifecycle steps, and the invariant of the store holds afterwards.
\<close>

theorem server_refines_lifecycle:
  assumes "service_ok w" and "list_all request_ok reqs" and "sequence w + sum_list (map request_ids reqs) < 2 ^ 64"
  shows "lifecycle_step\<^sup>*\<^sup>* (repo w) (repo (serve_all registry w reqs)) \<and> store_ok (repo (serve_all registry w reqs))"
  using serve_all_step [OF assms, of registry] by (simp add: service_step_def service_ok_D(5))

theorem server_refines_lifecycle_witness:
  "lifecycle_step\<^sup>*\<^sup>* (repo demo) (repo (serve_all demo_registry demo
     [\<lparr>Req_Method = ''POST'', Req_Path = ''/jobs/job-2/run'', Req_Query = [], Req_Body = Inl ErrNotFound\<rparr>,
      \<lparr>Req_Method = ''POST'', Req_Path = ''/jobs'', Req_Query = [], Req_Body = Inr (demo_input 1)\<rparr>]))"
  using server_refines_lifecycle [OF demo_ok, of
     "[\<lparr>Req_Method = ''POST'', Req_Path = ''/jobs/job-2/run'', Req_Query = [], Req_Body = Inl ErrNotFound\<rparr>,
      \<lparr>Req_Method = ''POST'', Req_Path = ''/jobs'', Req_Query = [], Req_Body = Inr (demo_input 1)\<rparr>]" demo_registry]
  by (simp add: request_ok_def request_ids_def query_get_def dispatch_limit_def demo_input_def is_i64_def)

section \<open>The parts\<close>

text \<open>
  The heap of \<^verbatim>\<open>container/heap\<close> with the queue's methods delivers every job
  once, by descending priority and by age among equals.
\<close>

lemma queue_delivers_sorted:
  "mset (pop_order js) = mset js \<and> sorted_wrt (\<lambda>a b. \<not> PQ_Less b a) (pop_order js)"
  by (simp add: mset_pop_order sorted_pop_order)

text \<open>
  The GPU memory request reads back what was meant: a printed number followed
  by \<^verbatim>\<open>Mi\<close> or by nothing is that number of MiB, followed by \<^verbatim>\<open>Gi\<close> it is 1024 times that,
  in 64-bit arithmetic.
\<close>

lemma parseGPUMemory_roundtrip:
  assumes "is_i64 n"
  shows "parseGPUMemoryMiB (itoa n @ ''Mi'') = n \<and> parseGPUMemoryMiB (itoa n @ ''Gi'') = i64 (n * 1024) \<and>
    parseGPUMemoryMiB (itoa n) = n"
  using assms Sscanf_d_itoa [of n "''Mi''" "''''"] Sscanf_d_itoa [of n "''Gi''" "''''"]
    Sscanf_d_itoa [of n "''''" "''''"]
  by (simp add: parseGPUMemoryMiB_def HasSuffix_append)

end
