(* ===== verification/Interleaving.thy ===== *)
theory Interleaving
  imports Prelude
begin

text \<open>
  Programs that share a state and run at the same time: resumptions of atomic steps, their
  interleavings, and a contract under which they can be reasoned about one by one.
\<close>

section \<open>Programs\<close>

datatype (dead 's, 'r) prog = Ret 'r | Act "'s \<Rightarrow> ('s, 'r) prog \<times> 's"

definition atomic :: "('s \<Rightarrow> 'a \<times> 's) \<Rightarrow> ('a \<Rightarrow> ('s, 'r) prog) \<Rightarrow> ('s, 'r) prog" where
  "atomic g k = Act (\<lambda>s. map_prod k id (g s))"

primrec exec :: "('s, 'r) prog \<Rightarrow> 's \<Rightarrow> 'r \<times> 's" where
  "exec (Ret r) = (\<lambda>s. (r, s))"
| "exec (Act f) = (\<lambda>s. case map_prod exec id (f s) of (rest, s') \<Rightarrow> rest s')"

lemma exec_atomic [simp]: "exec (atomic g k) s = (case g s of (a, s') \<Rightarrow> exec (k a) s')"
  by (simp add: atomic_def map_prod_def split: prod.splits)

text \<open>
  Several programs on one state: an entry of the schedule names the program that does its
  next step. A program that has ended, or does not exist, does nothing. A step that never
  returns, such as the call of a command that hangs, is a program that the schedule does not
  name again.
\<close>

definition advance :: "nat \<Rightarrow> ('s, 'r) prog list \<times> 's \<Rightarrow> ('s, 'r) prog list \<times> 's" where
  "advance i = (\<lambda>(ps, s).
     if i < length ps then
       (case ps ! i of
          Ret _ \<Rightarrow> (ps, s)
        | Act f \<Rightarrow> (case f s of (p, s') \<Rightarrow> (ps[i := p], s')))
     else (ps, s))"

definition interleave :: "nat list \<Rightarrow> ('s, 'r) prog list \<times> 's \<Rightarrow> ('s, 'r) prog list \<times> 's" where
  "interleave schedule c = foldl (\<lambda>c i. advance i c) c schedule"

lemma interleave_simps [simp]:
  "interleave [] c = c" "interleave (i # is) c = interleave is (advance i c)"
  by (simp_all add: interleave_def)

section \<open>Rely and guarantee\<close>

text \<open>
  Every step keeps an invariant and makes a transition that the other programs tolerate.
  \<open>cnt\<close> is a resource of which every program uses up at most its share: \<open>safe n s p\<close> says that
  \<open>p\<close>, from \<open>s\<close> and whatever tolerated transitions the others make before each of its steps,
  keeps its promises and adds at most \<open>n\<close> to the count.
\<close>

locale shared_state =
  fixes inv :: "'s \<Rightarrow> bool" and keeps :: "'s \<Rightarrow> 's \<Rightarrow> bool" and cnt :: "'s \<Rightarrow> nat" and limit :: nat
  assumes keeps_refl: "keeps s s"
    and keeps_trans: "keeps s t \<Longrightarrow> keeps t u \<Longrightarrow> keeps s u"
begin

inductive safe :: "nat \<Rightarrow> 's \<Rightarrow> ('s, 'r) prog \<Rightarrow> bool" where
  safe_Ret: "safe n s (Ret r)"
| safe_Act: "(\<And>s1 p s2. inv s1 \<Longrightarrow> keeps s s1 \<Longrightarrow> cnt s1 + n < limit \<Longrightarrow> f s1 = (p, s2) \<Longrightarrow>
     inv s2 \<and> keeps s1 s2 \<and> (\<exists>m. cnt s2 + m \<le> cnt s1 + n \<and> safe m s2 p)) \<Longrightarrow> safe n s (Act f)"

inductive_cases safe_ActE: "safe n s (Act f)"

lemma safe_atomic:
  assumes "\<And>s1 a s2. inv s1 \<Longrightarrow> keeps s s1 \<Longrightarrow> cnt s1 + n < limit \<Longrightarrow> g s1 = (a, s2) \<Longrightarrow>
    inv s2 \<and> keeps s1 s2 \<and> (\<exists>m. cnt s2 + m \<le> cnt s1 + n \<and> safe m s2 (k a))"
  shows "safe n s (atomic g k)"
  unfolding atomic_def
proof (rule safe_Act)
  fix s1 p s2
  assume "inv s1" "keeps s s1" "cnt s1 + n < limit" "map_prod k id (g s1) = (p, s2)"
  with assms [of s1 "fst (g s1)" s2] show "inv s2 \<and> keeps s1 s2 \<and> (\<exists>m. cnt s2 + m \<le> cnt s1 + n \<and> safe m s2 p)"
    by (cases "g s1") auto
qed

text \<open>A step that leaves the count alone.\<close>

lemma safe_step:
  assumes "\<And>s1 a s2. inv s1 \<Longrightarrow> keeps s s1 \<Longrightarrow> g s1 = (a, s2) \<Longrightarrow> inv s2 \<and> keeps s1 s2 \<and> cnt s2 = cnt s1 \<and> post s1 a s2"
    and "\<And>s1 a s2. keeps s s1 \<Longrightarrow> keeps s s2 \<Longrightarrow> inv s1 \<Longrightarrow> post s1 a s2 \<Longrightarrow> safe n s2 (k a)"
  shows "safe n s (atomic g k)"
proof (rule safe_atomic)
  fix s1 a s2
  assume s: "inv s1" "keeps s s1" "g s1 = (a, s2)"
  note step = assms(1) [OF this]
  with s(2) have "keeps s s2" by (blast intro: keeps_trans)
  with assms(2) [of s1 s2 a] s step have "safe n s2 (k a)" by blast
  with step show "inv s2 \<and> keeps s1 s2 \<and> (\<exists>m. cnt s2 + m \<le> cnt s1 + n \<and> safe m s2 (k a))" by auto
qed

text \<open>What the others do does not harm a program that waits.\<close>

lemma interference:
  assumes "safe n s p" and "keeps s s'"
  shows "safe n s' p"
  using assms(1)
proof cases
  case (safe_Act f)
  show ?thesis unfolding safe_Act(1)
    by (rule safe.safe_Act) (use safe_Act(2) keeps_trans [OF assms(2)] in blast)
qed (simp add: safe_Ret)

text \<open>A larger share does no harm either.\<close>

lemma safe_mono:
  assumes "safe m s p" and "m \<le> n"
  shows "safe n s p"
  using assms(1)
proof cases
  case (safe_Act f)
  show ?thesis unfolding safe_Act(1)
  proof (rule safe.safe_Act)
    fix s1 p s2
    assume s: "inv s1" "keeps s s1" "cnt s1 + n < limit" "f s1 = (p, s2)"
    with assms(2) have "cnt s1 + m < limit" by simp
    from safe_Act(2) [OF s(1,2) this s(4)] assms(2)
    show "inv s2 \<and> keeps s1 s2 \<and> (\<exists>k. cnt s2 + k \<le> cnt s1 + n \<and> safe k s2 p)"
      by (meson add_left_mono order_trans)
  qed
qed (simp add: safe_Ret)

definition all_safe :: "nat list \<Rightarrow> ('s, 'r) prog list \<times> 's \<Rightarrow> bool" where
  "all_safe ns c \<longleftrightarrow> inv (snd c) \<and> cnt (snd c) + sum_list ns < limit \<and> list_all2 (\<lambda>n p. safe n (snd c) p) ns (fst c)"

lemma advance_safe:
  assumes "all_safe ns c"
  shows "keeps (snd c) (snd (advance i c)) \<and> (\<exists>ns'. all_safe ns' (advance i c))"
proof -
  obtain ps s where c: "c = (ps, s)" by fastforce
  have ok: "inv s" "cnt s + sum_list ns < limit" "list_all2 (\<lambda>n p. safe n s p) ns ps"
    using assms by (simp_all add: all_safe_def c)
  note len = list_all2_lengthD [OF ok(3)]
  show ?thesis
  proof (cases "i < length ps \<and> (\<exists>f. ps ! i = Act f)")
    case True
    then obtain f where i: "i < length ps" and f: "ps ! i = Act f" by blast
    obtain p s' where step: "f s = (p, s')" by fastforce
    have le: "ns ! i \<le> sum_list ns" using i len by (simp add: elem_le_sum_list)
    have "safe (ns ! i) s (Act f)" using list_all2_nthD2 [OF ok(3) i] f by simp
    from safe_ActE [OF this] ok(1,2) le step obtain m where
      s': "inv s'" "keeps s s'" "cnt s' + m \<le> cnt s + ns ! i" "safe m s' p"
      by (metis keeps_refl add_le_cancel_left le_less_trans)
    have "list_all2 (\<lambda>n p. safe n s' p) (ns[i := m]) (ps[i := p])"
      using ok(3) s'(2,4) by (intro list_all2_update_cong) (auto elim!: list_all2_mono intro: interference)
    moreover have "cnt s' + sum_list (ns[i := m]) < limit"
      using s'(3) ok(2) le i len by (simp add: sum_list_update)
    ultimately have "all_safe (ns[i := m]) (ps[i := p], s')" using s'(1) by (simp add: all_safe_def)
    moreover have "advance i c = (ps[i := p], s')" using i f step by (simp add: advance_def c)
    ultimately show ?thesis using s'(2) c by auto
  next
    case False
    then have "advance i c = c" by (auto simp: advance_def c split: prog.splits)
    with assms keeps_refl show ?thesis by auto
  qed
qed

lemma interleave_safe:
  "all_safe ns c \<Longrightarrow> inv (snd (interleave sch c)) \<and> keeps (snd c) (snd (interleave sch c))"
proof (induction sch arbitrary: ns c)
  case Nil
  then show ?case by (simp add: all_safe_def keeps_refl)
next
  case (Cons i sch)
  from advance_safe [OF Cons.prems, of i] obtain ns' where
    "keeps (snd c) (snd (advance i c))" "all_safe ns' (advance i c)" by blast
  with Cons.IH [of ns' "advance i c"] show ?case by (auto intro: keeps_trans)
qed

end

end
