(* ===== verification/Concurrency.thy ===== *)
theory Concurrency
  imports Platform Interleaving
begin

text \<open>
  Requests that are served at the same time (\<^verbatim>\<open>net/http\<close> runs every handler in a goroutine of
  its own). The memory store locks each of its operations and nothing locks a handler, so
  the handlers interleave between their store operations. Every operation of the services is
  given here as a program whose atomic steps are its store operations; the clock, the
  identifiers and the telemetry around a store operation belong to its step. Run without
  interference the programs are the operations of \<open>Services\<close>. The interpretation \<open>par\<close> of
  \<open>shared_state\<close> shows what they keep of the store under every interleaving; the last
  section shows what they do not keep.

  The store hands out jobs whose \<^verbatim>\<open>Metadata\<close> map it shares with the request, and the dispatcher
  writes into that map outside the lock: for two requests at once this is a data race, to
  which Go gives no meaning. Here every version of a job has its own map, and nothing below
  is about the metadata of a job.
\<close>

type_synonym 'r world_prog = "(World, 'r) prog"

section \<open>The dispatcher\<close>

definition get_job :: "string \<Rightarrow> World \<Rightarrow> (error + Job) \<times> World" where
  "get_job jid w = (Memory_GetJob (repo w) jid, w)"

definition list_nodes :: "World \<Rightarrow> ((error + Node list) \<times> MatchStrategy) \<times> World" where
  "list_nodes w = (let (ord, w1) = map_order w in ((Memory_ListOnlineNodes ord (repo w1), strategy w1), w1))"

definition allocate :: "string \<Rightarrow> int \<Rightarrow> World \<Rightarrow> (error + unit) \<times> World" where
  "allocate nid c w =
     (case Memory_AllocateGPU (repo w) nid c of
        Inl err \<Rightarrow> (Inl (wrapf (''allocate GPU on '' @ nid) err), w)
      | Inr s \<Rightarrow> (Inr (), w\<lparr>repo := s\<rparr>))"

definition placeGPUJob_prog :: "Job \<Rightarrow> (error + Job \<Rightarrow> 'r world_prog) \<Rightarrow> 'r world_prog" where
  "placeGPUJob_prog job k =
     atomic list_nodes (\<lambda>(listed, st).
       case listed of
         Inl err \<Rightarrow> k (Inl (wrapf ''list online nodes'' err))
       | Inr ns \<Rightarrow>
           (case MatchNode ns (Job_ResourceSpec job) st of
              Inl err \<Rightarrow> k (Inl (wrapf (''match node for job '' @ Job_ID job) err))
            | Inr target \<Rightarrow>
                atomic (allocate (Node_ID target) (Spec_GPU (Job_ResourceSpec job))) (\<lambda>allocated.
                  case allocated of
                    Inl err \<Rightarrow> k (Inl err)
                  | Inr _ \<Rightarrow> atomic (\<lambda>w. markScheduled w job (Node_ID target)) k)))"

definition placeJob_prog :: "Job \<Rightarrow> (error + Job \<Rightarrow> 'r world_prog) \<Rightarrow> 'r world_prog" where
  "placeJob_prog job k =
     (if \<not> CanSchedule job then
        k (Inl (ErrorString (''job '' @ Job_ID job @ '' cannot be scheduled from status '' @
           JobStatus_string (Job_Status job))))
      else if Spec_GPU (Job_ResourceSpec job) > 0 then placeGPUJob_prog job k
      else atomic (\<lambda>w. markScheduled w job '''') k)"

definition ScheduleJob_prog :: "string \<Rightarrow> (error + Job \<Rightarrow> 'r world_prog) \<Rightarrow> 'r world_prog" where
  "ScheduleJob_prog jid k =
     atomic (get_job jid) (\<lambda>got.
       case got of
         Inl err \<Rightarrow> k (Inl (wrapf (''get job '' @ jid) err))
       | Inr job \<Rightarrow> placeJob_prog job k)"

function schedule_prog :: "PriorityQueue \<Rightarrow> int \<Rightarrow> Job list \<Rightarrow> (Job list \<Rightarrow> 'r world_prog) \<Rightarrow> 'r world_prog" where
  "schedule_prog queue limit acc k =
     (if PQ_Len queue > 0 \<and> int (length acc) < limit then
        (case heap_pop PQ_Less queue of
           None \<Rightarrow> k acc
         | Some (job, queue') \<Rightarrow>
             placeJob_prog job (\<lambda>r.
               case r of
                 Inl placeErr \<Rightarrow>
                   atomic (\<lambda>w. ((), trace_add w (Job_TraceID job) ''job.schedule.skip''
                     [(''job_id'', Job_ID job), (''reason'', Error placeErr)]))
                     (\<lambda>_. schedule_prog queue' limit acc k)
               | Inr placed \<Rightarrow> schedule_prog queue' limit (acc @ [placed]) k))
      else k acc)"
  by pat_completeness auto
termination
  by (relation "measure (\<lambda>(queue, limit, acc, k). length queue)") (auto dest!: heap_pop_shrinks)

declare schedule_prog.simps [simp del]

definition list_jobs_step :: "World \<Rightarrow> (error + Job list) \<times> World" where
  "list_jobs_step w = (let (ord, w1) = map_order w in (Memory_ListJobs ord (repo w1), w1))"

definition SchedulePending_prog :: "int \<Rightarrow> (error + Job list \<Rightarrow> 'r world_prog) \<Rightarrow> 'r world_prog" where
  "SchedulePending_prog limit k =
     atomic list_jobs_step (\<lambda>listed.
       case listed of
         Inl err \<Rightarrow> k (Inl (wrapf ''list jobs'' err))
       | Inr js \<Rightarrow>
           if \<not> job_cap_ok limit then k (Inl (GoPanic ''runtime error: makeslice: cap out of range''))
           else schedule_prog (NewPriorityQueue (filterSchedulable js)) limit [] (\<lambda>placed. k (Inr placed)))"

section \<open>The services\<close>

definition update_job :: "(gtime \<Rightarrow> Job) \<Rightarrow> string \<Rightarrow> (Metrics \<Rightarrow> Metrics) \<Rightarrow> string \<Rightarrow>
    World \<Rightarrow> (error + Job) \<times> World" where
  "update_job change what inc event w =
     (let (now, w1) = time_Now w; job = change now
      in case Memory_UpdateJob (repo w1) job of
           Inl err \<Rightarrow> (Inl (wrapf what err), w1)
         | Inr s \<Rightarrow> (Inr job, trace_add (count_metric inc (w1\<lparr>repo := s\<rparr>)) (Job_TraceID job) event [(''job_id'', Job_ID job)]))"

definition CancelJob_prog :: "string \<Rightarrow> (error + Job \<Rightarrow> 'r world_prog) \<Rightarrow> 'r world_prog" where
  "CancelJob_prog jid k =
     atomic (get_job jid) (\<lambda>got.
       case got of
         Inl err \<Rightarrow> k (Inl (wrapf (''get job '' @ jid) err))
       | Inr job \<Rightarrow>
           if \<not> CanCancel job then
             k (Inl (ErrorString (''job '' @ jid @ '' cannot be cancelled from status '' @
               JobStatus_string (Job_Status job))))
           else atomic (update_job (\<lambda>now. job\<lparr>Job_Status := JobStatusCancelled, Job_UpdatedAt := now\<rparr>)
             (''cancel job '' @ jid) IncCancelled ''job.cancelled'') k)"

definition RetryJob_prog :: "string \<Rightarrow> (error + Job \<Rightarrow> 'r world_prog) \<Rightarrow> 'r world_prog" where
  "RetryJob_prog jid k =
     atomic (get_job jid) (\<lambda>got.
       case got of
         Inl err \<Rightarrow> k (Inl (wrapf (''get job '' @ jid) err))
       | Inr job \<Rightarrow>
           if \<not> CanRetry job then
             k (Inl (ErrorString (''job '' @ jid @ '' cannot be retried from status '' @
               JobStatus_string (Job_Status job))))
           else atomic (update_job (\<lambda>now. job\<lparr>Job_Status := JobStatusPending, Job_LastError := '''', Job_UpdatedAt := now\<rparr>)
             (''retry job '' @ jid) IncRetried ''job.retry_requested'') k)"

definition fail_execution :: "Execution \<Rightarrow> error \<Rightarrow> Result \<Rightarrow> World \<Rightarrow> (error + Execution) \<times> World" where
  "fail_execution execution runErr result w =
     (let (now, w1) = time_Now w;
          ex1 = execution\<lparr>Exec_Status := ExecutionStatusFailed, Exec_Logs := Result_Logs result,
                  Exec_Manifest := Result_Manifest result, Exec_ExitCode := Result_ExitCode result,
                  Exec_Error := Error runErr, Exec_FinishedAt := now\<rparr>
      in case Memory_UpdateExecution (repo w1) ex1 of
           Inl err \<Rightarrow> (Inl (wrapf (''update failed execution '' @ Exec_ID ex1) err), w1)
         | Inr s \<Rightarrow> (Inr ex1, w1\<lparr>repo := s\<rparr>))"

definition fail_job :: "Job \<Rightarrow> Execution \<Rightarrow> error \<Rightarrow> World \<Rightarrow> error \<times> World" where
  "fail_job job ex1 runErr w =
     (let (job1, w1) =
            (if Scheduler_CanRetry job then
               (let (t, w') = time_Now w; j = MarkRetrying t job (Error runErr)
                in (j, trace_add (count_metric IncRetried w') (Job_TraceID j)
                         ''job.run_failed_retryable'' [(''job_id'', Job_ID j)]))
             else
               (let j = job\<lparr>Job_Status := JobStatusFailed, Job_LastError := Error runErr,
                          Job_UpdatedAt := Exec_FinishedAt ex1\<rparr>
                in (j, trace_add (count_metric IncFailed w) (Job_TraceID j)
                         ''job.run_failed'' [(''job_id'', Job_ID j)])))
      in case Memory_UpdateJob (repo w1) job1 of
           Inl err \<Rightarrow> (wrapf (''update failed job '' @ Job_ID job1) err, w1)
         | Inr s \<Rightarrow>
             (wrapf (''execute job '' @ Job_ID job1) runErr,
              count_metric (\<lambda>m. ObserveRuntime m (time_Sub (Exec_FinishedAt ex1) (Exec_StartedAt ex1))) (w1\<lparr>repo := s\<rparr>)))"

definition finishFailed_prog ::
  "Job \<Rightarrow> Execution \<Rightarrow> error \<Rightarrow> Result \<Rightarrow> (error \<Rightarrow> 'r world_prog) \<Rightarrow> 'r world_prog" where
  "finishFailed_prog job execution runErr result k =
     atomic (fail_execution execution runErr result) (\<lambda>updated.
       case updated of
         Inl err \<Rightarrow> k err
       | Inr ex1 \<Rightarrow> atomic (fail_job job ex1 runErr) k)"

definition succeed_execution :: "Execution \<Rightarrow> Result \<Rightarrow> World \<Rightarrow> (error + Execution) \<times> World" where
  "succeed_execution execution result w =
     (let (now, w1) = time_Now w;
          ex1 = execution\<lparr>Exec_Status := ExecutionStatusSucceeded, Exec_Logs := Result_Logs result,
                  Exec_Manifest := Result_Manifest result, Exec_ExitCode := Result_ExitCode result,
                  Exec_FinishedAt := now\<rparr>
      in case Memory_UpdateExecution (repo w1) ex1 of
           Inl err \<Rightarrow> (Inl (wrapf (''update execution '' @ Exec_ID ex1) err), w1)
         | Inr s \<Rightarrow> (Inr ex1, w1\<lparr>repo := s\<rparr>))"

definition succeed_job :: "Job \<Rightarrow> Execution \<Rightarrow> World \<Rightarrow> run_result \<times> World" where
  "succeed_job job ex1 w =
     (let job1 = job\<lparr>Job_Status := JobStatusSucceeded, Job_UpdatedAt := Exec_FinishedAt ex1, Job_LastError := ''''\<rparr>
      in case Memory_UpdateJob (repo w) job1 of
           Inl err \<Rightarrow> ((None, Some (wrapf ''mark job succeeded'' err)), w)
         | Inr s \<Rightarrow>
             ((Some ex1, None),
              trace_add
                (count_metric (\<lambda>m. ObserveRuntime m (time_Sub (Exec_FinishedAt ex1) (Exec_StartedAt ex1)))
                  (count_metric IncSucceeded (w\<lparr>repo := s\<rparr>)))
                (Job_TraceID job1) ''job.run_succeeded'' [(''job_id'', Job_ID job1)]))"

definition finishSucceeded_prog ::
  "Job \<Rightarrow> Execution \<Rightarrow> Result \<Rightarrow> (run_result \<Rightarrow> 'r world_prog) \<Rightarrow> 'r world_prog" where
  "finishSucceeded_prog job execution result k =
     atomic (succeed_execution execution result) (\<lambda>updated.
       case updated of
         Inl err \<Rightarrow> k (None, Some err)
       | Inr ex1 \<Rightarrow> atomic (succeed_job job ex1) k)"

text \<open>The executor works outside the store; other requests go on before and after its step.\<close>

definition call_executor :: "Executor \<Rightarrow> Job \<Rightarrow> World \<Rightarrow> (Result \<times> error option) \<times> World" where
  "call_executor executor job w = (Execute executor (tick w) job, w\<lparr>tick := Suc (tick w)\<rparr>)"

definition runExecutor_prog ::
  "Registry \<Rightarrow> Job \<Rightarrow> Execution \<Rightarrow> (run_result \<Rightarrow> 'r world_prog) \<Rightarrow> 'r world_prog" where
  "runExecutor_prog registry job execution k =
     (case Registry_Get registry (Job_Executor job) of
        Inl err \<Rightarrow>
          finishFailed_prog job execution (wrapf ''load executor'' err) empty_result (\<lambda>e. k (Some execution, Some e))
      | Inr executor \<Rightarrow>
          atomic (call_executor executor job) (\<lambda>(result, runErr).
            case runErr of
              Some err \<Rightarrow>
                if is_panic err then k (None, Some err)
                else finishFailed_prog job execution err result (\<lambda>e. k (Some execution, Some e))
            | None \<Rightarrow> finishSucceeded_prog job execution result k))"

definition create_execution :: "Job \<Rightarrow> World \<Rightarrow> (error + Execution) \<times> World" where
  "create_execution job w =
     (let (eid, w1) = nextID w ''exec'';
          (started, w2) = time_Now w1;
          execution = \<lparr>Exec_ID = eid, Exec_JobID = Job_ID job, Exec_Attempt = i64 (Job_RetryCount job + 1),
            Exec_Status = ExecutionStatusRunning, Exec_Executor = Job_Executor job,
            Exec_TraceID = Job_TraceID job, Exec_Logs = '''', Exec_Manifest = '''', Exec_ExitCode = 0,
            Exec_Error = '''', Exec_StartedAt = started, Exec_FinishedAt = time_zero\<rparr>
      in case Memory_CreateExecution (repo w2) execution of
           Inl err \<Rightarrow> (Inl (wrapf ''create execution'' err), w2)
         | Inr s \<Rightarrow> (Inr execution, w2\<lparr>repo := s\<rparr>))"

definition startExecution_prog :: "Registry \<Rightarrow> Job \<Rightarrow> (run_result \<Rightarrow> 'r world_prog) \<Rightarrow> 'r world_prog" where
  "startExecution_prog registry job k =
     atomic (create_execution job) (\<lambda>created.
       case created of
         Inl err \<Rightarrow> k (None, Some err)
       | Inr execution \<Rightarrow>
           atomic (update_job (\<lambda>now. job\<lparr>Job_Status := JobStatusRunning, Job_UpdatedAt := now\<rparr>)
               ''mark job running'' IncRunning ''job.run_started'') (\<lambda>marked.
             case marked of
               Inl err \<Rightarrow> k (None, Some err)
             | Inr job1 \<Rightarrow> runExecutor_prog registry job1 execution k))"

definition RunJob_prog :: "Registry \<Rightarrow> string \<Rightarrow> (run_result \<Rightarrow> 'r world_prog) \<Rightarrow> 'r world_prog" where
  "RunJob_prog registry jid k =
     atomic (get_job jid) (\<lambda>got.
       case got of
         Inl err \<Rightarrow> k (None, Some (wrapf (''get job '' @ jid) err))
       | Inr job \<Rightarrow>
           if Job_Status job \<noteq> JobStatusScheduled then
             ScheduleJob_prog jid (\<lambda>r.
               case r of
                 Inl err \<Rightarrow> k (None, Some err)
               | Inr job1 \<Rightarrow> startExecution_prog registry job1 k)
           else startExecution_prog registry job k)"

fun run_all_prog :: "Registry \<Rightarrow> Job list \<Rightarrow> Execution list \<Rightarrow>
    (Execution list \<times> error option \<Rightarrow> 'r world_prog) \<Rightarrow> 'r world_prog" where
  "run_all_prog registry [] exs k = k (exs, None)"
| "run_all_prog registry (job # js) exs k =
     RunJob_prog registry (Job_ID job) (\<lambda>r.
       case r of
         (_, Some runErr) \<Rightarrow> k (exs, Some runErr)
       | (Some ex, None) \<Rightarrow> run_all_prog registry js (exs @ [ex]) k
       | (None, None) \<Rightarrow> run_all_prog registry js exs k)"

definition DispatchPending_prog ::
  "Registry \<Rightarrow> int \<Rightarrow> (Execution list \<times> error option \<Rightarrow> 'r world_prog) \<Rightarrow> 'r world_prog" where
  "DispatchPending_prog registry limit k =
     SchedulePending_prog limit (\<lambda>r.
       case r of
         Inl err \<Rightarrow> k ([], Some err)
       | Inr scheduledJobs \<Rightarrow> run_all_prog registry scheduledJobs [] k)"

text \<open>A command as a program; submitting and registering touch the store once.\<close>

fun prog_of :: "Registry \<Rightarrow> command \<Rightarrow> unit world_prog" where
  "prog_of registry (Submit inp) = atomic (\<lambda>w. CreateJob w inp) (\<lambda>_. Ret ())"
| "prog_of registry (Cancel jid) = CancelJob_prog jid (\<lambda>_. Ret ())"
| "prog_of registry (Retry jid) = RetryJob_prog jid (\<lambda>_. Ret ())"
| "prog_of registry (Schedule jid) = ScheduleJob_prog jid (\<lambda>_. Ret ())"
| "prog_of registry (Run jid) = RunJob_prog registry jid (\<lambda>_. Ret ())"
| "prog_of registry (SchedulePendingCmd limit) = SchedulePending_prog limit (\<lambda>_. Ret ())"
| "prog_of registry (Dispatch limit) = DispatchPending_prog registry limit (\<lambda>_. Ret ())"
| "prog_of registry (Register node) = atomic (\<lambda>w. ((), RegisterNode w node)) Ret"
| "prog_of registry (Strategy st) = atomic (\<lambda>w. ((), SetStrategy w st)) Ret"

section \<open>Without interference\<close>

lemma exec_placeJob:
  "exec (placeJob_prog job k) w = (case placeJob w job of (r, w') \<Rightarrow> exec (k r) w')"
  by (simp add: placeJob_prog_def placeJob_def placeGPUJob_prog_def placeGPUJob_def list_nodes_def allocate_def
      split_beta Let_def split: sum.splits)

lemma exec_ScheduleJob:
  "exec (ScheduleJob_prog jid k) w = (case ScheduleJob w jid of (r, w') \<Rightarrow> exec (k r) w')"
  by (simp add: ScheduleJob_prog_def ScheduleJob_def get_job_def exec_placeJob split: sum.splits)

lemma exec_schedule:
  "exec (schedule_prog queue limit acc k) w = (case schedule_loop w queue limit acc of (ps, w') \<Rightarrow> exec (k ps) w')"
proof (induction w queue limit acc rule: schedule_loop.induct)
  case (1 w queue limit acc)
  show ?case
  proof (cases "PQ_Len queue > 0 \<and> int (length acc) < limit")
    case True
    note IH = 1 [OF True]
    show ?thesis
    proof (cases "heap_pop PQ_Less queue")
      case None
      then show ?thesis using True by (simp add: schedule_prog.simps [of queue] schedule_loop.simps [of w queue])
    next
      case (Some jq)
      obtain job queue' where jq: "jq = (job, queue')" by fastforce
      obtain r w1 where r: "placeJob w job = (r, w1)" by fastforce
      show ?thesis using True Some jq r IH
        by (cases r) (simp_all add: schedule_prog.simps [of queue] schedule_loop.simps [of w queue] exec_placeJob)
    qed
  next
    case False
    then show ?thesis by (auto simp: schedule_prog.simps [of queue] schedule_loop.simps [of w queue])
  qed
qed

lemma exec_SchedulePending:
  "exec (SchedulePending_prog limit k) w = (case SchedulePending w limit of (r, w') \<Rightarrow> exec (k r) w')"
  by (simp add: SchedulePending_prog_def SchedulePending_def list_jobs_step_def exec_schedule split_beta Let_def
      split: sum.splits)

lemma exec_CancelJob: "exec (CancelJob_prog jid k) w = (case CancelJob w jid of (r, w') \<Rightarrow> exec (k r) w')"
  by (simp add: CancelJob_prog_def CancelJob_def GetJob_def get_job_def update_job_def split_beta Let_def
      split: sum.splits)

lemma exec_RetryJob: "exec (RetryJob_prog jid k) w = (case RetryJob w jid of (r, w') \<Rightarrow> exec (k r) w')"
  by (simp add: RetryJob_prog_def RetryJob_def GetJob_def get_job_def update_job_def split_beta Let_def
      split: sum.splits)

lemma exec_finishFailed:
  "exec (finishFailed_prog job ex err res k) w = (case finishFailed w job ex err res of (e, w') \<Rightarrow> exec (k e) w')"
  by (auto simp: finishFailed_prog_def finishFailed_def fail_execution_def fail_job_def split_beta Let_def
      split: sum.splits)

lemma exec_finishSucceeded:
  "exec (finishSucceeded_prog job ex res k) w = (case finishSucceeded w job ex res of (r, w') \<Rightarrow> exec (k r) w')"
  by (simp add: finishSucceeded_prog_def finishSucceeded_def succeed_execution_def succeed_job_def split_beta Let_def
      split: sum.splits)

lemma exec_runExecutor:
  "exec (runExecutor_prog registry job ex k) w = (case runExecutor w registry job ex of (r, w') \<Rightarrow> exec (k r) w')"
  by (simp add: runExecutor_prog_def runExecutor_def call_executor_def exec_finishFailed exec_finishSucceeded
      split_beta Let_def split: sum.splits option.splits)

lemma exec_startExecution:
  "exec (startExecution_prog registry job k) w = (case startExecution w registry job of (r, w') \<Rightarrow> exec (k r) w')"
  by (simp add: startExecution_prog_def startExecution_def create_execution_def update_job_def exec_runExecutor
      split_beta Let_def split: sum.splits)

lemma exec_RunJob:
  "exec (RunJob_prog registry jid k) w = (case RunJob w registry jid of (r, w') \<Rightarrow> exec (k r) w')"
  by (simp add: RunJob_prog_def RunJob_def get_job_def exec_ScheduleJob exec_startExecution split_beta Let_def
      split: sum.splits)

lemma exec_run_all:
  "exec (run_all_prog registry js exs k) w = (case run_all w registry js exs of (r, w') \<Rightarrow> exec (k r) w')"
  by (induction w registry js exs rule: run_all.induct)
    (auto simp: exec_RunJob split: prod.splits option.splits)

lemma exec_DispatchPending:
  "exec (DispatchPending_prog registry limit k) w =
     (case DispatchPending w registry limit of (r, w') \<Rightarrow> exec (k r) w')"
  by (simp add: DispatchPending_prog_def DispatchPending_def exec_SchedulePending exec_run_all split_beta
      split: sum.splits)

text \<open>
  A request that nothing interrupts does what the operation of the services does:
  the program made of single store operations, run from start to end, leaves the same world
  as the command it stands for.
\<close>

lemma prog_of_perform: "exec (prog_of registry c) w = ((), perform registry w c)"
  by (cases c) (simp_all add: exec_CancelJob exec_RetryJob exec_ScheduleJob exec_RunJob exec_SchedulePending
      exec_DispatchPending split_beta)

section \<open>What survives interference\<close>

text \<open>
  The invariant of the store without its part about running jobs: keys and indexes agree, free
  GPUs stay within bounds, retry counts within their budget, an execution belongs to a
  stored job and its number is at most the retries allowed plus one.
\<close>

definition attempts_bounded :: "MemoryStore \<Rightarrow> bool" where
  "attempts_bounded s \<longleftrightarrow>
     (\<forall>eid ex. executions s eid = Some ex \<longrightarrow>
        (\<exists>job. find_job s (Exec_JobID ex) = Some job \<and> Exec_Attempt ex \<le> Job_MaxRetries job + 1))"

definition conc_store_ok :: "MemoryStore \<Rightarrow> bool" where
  "conc_store_ok s \<longleftrightarrow> store_wf s \<and> gpu_wf s \<and> jobs_ok s \<and> attempts_bounded s"

definition conc_ok :: "World \<Rightarrow> bool" where
  "conc_ok w \<longleftrightarrow> conc_store_ok (repo w) \<and> env_ok (environment w) \<and> ids_below (repo w) (sequence w)"

definition same_run :: "Execution \<Rightarrow> Execution \<Rightarrow> bool" where
  "same_run ex ex' \<longleftrightarrow> Exec_JobID ex' = Exec_JobID ex \<and> Exec_Attempt ex' = Exec_Attempt ex"

definition store_keeps :: "MemoryStore \<Rightarrow> MemoryStore \<Rightarrow> bool" where
  "store_keeps s s' \<longleftrightarrow>
     entries_evolve same_fields (find_job s) (find_job s') \<and> entries_evolve same_run (executions s) (executions s')"

definition world_keeps :: "World \<Rightarrow> World \<Rightarrow> bool" where
  "world_keeps w w' \<longleftrightarrow> environment w' = environment w \<and> store_keeps (repo w) (repo w')"

lemma same_fields_sym: "same_fields a b \<Longrightarrow> same_fields b a"
  by (cases a; cases b) (simp add: same_fields_def)

lemma same_fields_D:
  "same_fields a b \<Longrightarrow> Job_ID b = Job_ID a" "same_fields a b \<Longrightarrow> Job_MaxRetries b = Job_MaxRetries a"
  "same_fields a b \<Longrightarrow> Job_ResourceSpec b = Job_ResourceSpec a"
  by (cases a; cases b; simp add: same_fields_def)+

lemma same_run_trans: "same_run a b \<Longrightarrow> same_run b c \<Longrightarrow> same_run a c"
  by (simp add: same_run_def)

lemma store_keeps_refl [simp]: "store_keeps s s"
  by (simp add: store_keeps_def entries_evolve_refl same_run_def)

lemma store_keeps_trans: "store_keeps s t \<Longrightarrow> store_keeps t u \<Longrightarrow> store_keeps s u"
  unfolding store_keeps_def
  by (meson entries_evolve_trans same_fields_trans same_run_trans)

text \<open>The counter of the identifiers is 64 bits wide.\<close>

definition max_ids :: nat where
  "max_ids = 2 ^ 64"

interpretation par: shared_state conc_ok world_keeps sequence max_ids
  by unfold_locales (auto simp: world_keeps_def intro: store_keeps_trans)

lemmas world_keeps_refl [simp] = par.keeps_refl

lemma conc_ok_D:
  "conc_ok w \<Longrightarrow> store_wf (repo w)" "conc_ok w \<Longrightarrow> gpu_wf (repo w)" "conc_ok w \<Longrightarrow> jobs_ok (repo w)"
  "conc_ok w \<Longrightarrow> attempts_bounded (repo w)" "conc_ok w \<Longrightarrow> env_ok (environment w)"
  "conc_ok w \<Longrightarrow> ids_below (repo w) (sequence w)"
  by (simp_all add: conc_ok_def conc_store_ok_def)

lemma service_ok_conc:
  assumes "service_ok w"
  shows "conc_ok w"
proof -
  note ok = service_ok_D(5) [OF assms, unfolded store_ok_def]
  have "attempts_bounded (repo w)"
    unfolding attempts_bounded_def
  proof (intro allI impI)
    fix eid ex
    assume ex: "executions (repo w) eid = Some ex"
    from ok have "attempts_ok (repo w)" by (simp add: runs_ok_def)
    with ex obtain job where job: "find_job (repo w) (Exec_JobID ex) = Some job" "Exec_Attempt ex \<le> Job_RetryCount job + 1"
      unfolding attempts_ok_def by blast
    with ok have "job_ok job" by (blast intro: jobs_ok_find)
    with job show "\<exists>job. find_job (repo w) (Exec_JobID ex) = Some job \<and> Exec_Attempt ex \<le> Job_MaxRetries job + 1"
      by (auto simp: job_ok_def)
  qed
  with assms show ?thesis
    by (simp add: conc_ok_def conc_store_ok_def service_ok_def world_ok_def store_ok_def)
qed

text \<open>A step that leaves the store.\<close>

lemma conc_frame:
  assumes "conc_ok w" and "repo w' = repo w" and "sequence w' = sequence w" and "environment w' = environment w"
  shows "conc_ok w'" and "world_keeps w w'"
  using assms by (simp_all add: conc_ok_def world_keeps_def)

text \<open>
  A version of a job that a request holds is old by the time it is written back; it still is a
  version of the stored job, and that is what every write needs.
\<close>

definition version_of :: "World \<Rightarrow> Job \<Rightarrow> bool" where
  "version_of w job \<longleftrightarrow> job_ok job \<and> (\<exists>old. find_job (repo w) (Job_ID job) = Some old \<and> same_fields old job)"

definition run_of :: "World \<Rightarrow> Execution \<Rightarrow> bool" where
  "run_of w ex \<longleftrightarrow> (\<exists>old. executions (repo w) (Exec_ID ex) = Some old \<and> same_run old ex)"

lemma version_of_keeps:
  assumes "version_of w job" and "world_keeps w w'"
  shows "version_of w' job"
proof -
  obtain old where old: "job_ok job" "find_job (repo w) (Job_ID job) = Some old" "same_fields old job"
    using assms(1) by (auto simp: version_of_def)
  with assms(2) obtain new where new: "find_job (repo w') (Job_ID job) = Some new" "same_fields old new"
    by (auto simp: world_keeps_def store_keeps_def dest: entries_evolve_find)
  from same_fields_trans [OF same_fields_sym [OF new(2)] old(3)] old(1) new(1) show ?thesis
    by (simp add: version_of_def)
qed

lemma run_of_keeps:
  assumes "run_of w ex" and "world_keeps w w'"
  shows "run_of w' ex"
proof -
  obtain old where old: "executions (repo w) (Exec_ID ex) = Some old" "same_run old ex"
    using assms(1) by (auto simp: run_of_def)
  with assms(2) obtain new where "executions (repo w') (Exec_ID ex) = Some new" "same_run old new"
    by (auto simp: world_keeps_def store_keeps_def dest: entries_evolve_find)
  with old(2) show ?thesis by (auto simp: run_of_def same_run_def)
qed

lemma version_of_find: "conc_ok w \<Longrightarrow> find_job (repo w) jid = Some job \<Longrightarrow> version_of w job"
  using find_job_stored [OF conc_ok_D(1)] jobs_ok_find [OF conc_ok_D(3)] by (auto simp: version_of_def)

lemma version_of_change:
  "version_of w job \<Longrightarrow> same_fields job job' \<Longrightarrow> job_ok job' \<Longrightarrow> version_of w job'"
  unfolding version_of_def by (metis same_fields_D(1) same_fields_trans)

lemma version_of_id: "conc_ok w \<Longrightarrow> version_of w job \<Longrightarrow> id_seq (Job_ID job) \<le> sequence w"
  using conc_ok_D(6) by (fastforce simp: version_of_def ids_below_def)

lemma attempts_bounded_put_job:
  assumes "attempts_bounded s" and "\<And>old. find_job s (Job_ID job) = Some old \<Longrightarrow> Job_MaxRetries job = Job_MaxRetries old"
  shows "attempts_bounded (put_job s job)"
  using assms unfolding attempts_bounded_def by (fastforce split: if_splits)

lemma keeps_put_job:
  "(\<And>old. find_job s (Job_ID job) = Some old \<Longrightarrow> same_fields old job) \<Longrightarrow> store_keeps s (put_job s job)"
  by (auto simp: store_keeps_def entries_evolve_def same_run_def)

lemma conc_put_job:
  assumes "conc_ok w" and "version_of w job" and "repo w' = put_job (repo w) job"
    and "sequence w' = sequence w" and "environment w' = environment w"
  shows "conc_ok w'" and "world_keeps w w'" and "version_of w' job"
proof -
  obtain old where old: "find_job (repo w) (Job_ID job) = Some old" "same_fields old job" "job_ok job"
    using assms(2) by (auto simp: version_of_def)
  have "attempts_bounded (put_job (repo w) job)"
    using conc_ok_D(4) [OF assms(1)] by (rule attempts_bounded_put_job) (use old same_fields_D(2) in auto)
  then show "conc_ok w'"
    using assms(1,3-5) old version_of_id [OF assms(1,2)]
    by (simp add: conc_ok_def conc_store_ok_def store_wf_put_job' jobs_ok_put_job ids_below_put_job)
  show keeps: "world_keeps w w'" using assms(3,5) old by (auto simp: world_keeps_def intro!: keeps_put_job)
  show "version_of w' job" using assms(2) keeps by (rule version_of_keeps)
qed

lemma conc_put_execution:
  assumes "conc_ok w" and "run_of w ex" and "repo w' = put_execution (repo w) ex"
    and "sequence w' = sequence w" and "environment w' = environment w"
  shows "conc_ok w'" and "world_keeps w w'"
proof -
  obtain old where old: "executions (repo w) (Exec_ID ex) = Some old" "Exec_JobID ex = Exec_JobID old"
    "Exec_Attempt ex = Exec_Attempt old" using assms(2) by (auto simp: run_of_def same_run_def)
  have "store_wf (repo w')" unfolding assms(3) using conc_ok_D(1) [OF assms(1)] old(1,2) by (rule store_wf_put_execution)
  moreover have "attempts_bounded (repo w')"
    using conc_ok_D(4) [OF assms(1)] old unfolding attempts_bounded_def assms(3) by (auto split: if_splits)
  moreover have "ids_below (repo w') (sequence w')"
    using conc_ok_D(6) [OF assms(1)] old(1) unfolding assms(3,4)
    by (auto simp: ids_below_def intro!: ids_below_put_execution)
  ultimately show "conc_ok w'" using assms(1,3,5) by (simp add: conc_ok_def conc_store_ok_def)
  show "world_keeps w w'"
    using assms(3,5) old by (auto simp: world_keeps_def store_keeps_def entries_evolve_def same_run_def)
qed

section \<open>The programs are safe\<close>

lemma safe_get_job:
  assumes "\<And>w'. world_keeps w w' \<Longrightarrow> par.safe n w' (k (Inl ErrNotFound))"
    and "\<And>w' job. world_keeps w w' \<Longrightarrow> version_of w' job \<Longrightarrow> par.safe n w' (k (Inr job))"
  shows "par.safe n w (atomic (get_job jid) k)"
proof (rule par.safe_step)
  fix w1 got w2
  assume "conc_ok w1" "get_job jid w1 = (got, w2)"
  then show "conc_ok w2 \<and> world_keeps w1 w2 \<and> sequence w2 = sequence w1 \<and>
      w2 = w1 \<and> (got = Inl ErrNotFound \<or> (\<exists>job. got = Inr job \<and> version_of w1 job))"
    using version_of_find by (auto simp: get_job_def Memory_GetJob_def find_job_def split: option.splits)
qed (use assms in auto)

lemma update_job_step:
  assumes "conc_ok w" and "\<And>t. version_of w (change t)" and "update_job change what inc event w = (r, w')"
  shows "conc_ok w'" and "world_keeps w w'" and "sequence w' = sequence w" and "\<exists>t. r = Inr (change t)"
proof -
  obtain t w1 where t: "time_Now w = (t, w1)" by fastforce
  note w1 = time_Now_frame [of w, unfolded t snd_conv]
  obtain old where "find_job (repo w) (Job_ID (change t)) = Some old" using assms(2) by (auto simp: version_of_def)
  then have r: "r = Inr (change t)" "repo w' = put_job (repo w) (change t)" "sequence w' = sequence w"
      "environment w' = environment w"
    using assms(3) by (auto simp: update_job_def t w1 Memory_UpdateJob_stored Let_def)
  with conc_put_job(1,2) [OF assms(1,2) r(2-4)]
  show "conc_ok w'" "world_keeps w w'" "sequence w' = sequence w" "\<exists>t. r = Inr (change t)" by auto
qed

lemma safe_update_job:
  assumes "\<And>t. version_of w (change t)"
    and "\<And>w' t. world_keeps w w' \<Longrightarrow> par.safe n w' (k (Inr (change t)))"
  shows "par.safe n w (atomic (update_job change what inc event) k)"
proof (rule par.safe_step)
  fix w1 r w2
  assume w1: "conc_ok w1" "world_keeps w w1" "update_job change what inc event w1 = (r, w2)"
  from update_job_step [OF w1(1) version_of_keeps [OF assms(1) w1(2)] w1(3)]
  show "conc_ok w2 \<and> world_keeps w1 w2 \<and> sequence w2 = sequence w1 \<and> (\<exists>t. r = Inr (change t))" by simp
qed (use assms(2) in auto)

subsection \<open>Scheduling\<close>

lemma job_ok_mark_scheduled: "job_ok job \<Longrightarrow> job_ok (mark_scheduled t nid job)"
  by (simp add: job_ok_def mark_scheduled_def Let_def)

lemma version_of_mark: "version_of w job \<Longrightarrow> version_of w (mark_scheduled t nid job)"
  using version_of_change same_fields_mark_scheduled job_ok_mark_scheduled by (metis version_of_def)

lemma safe_markScheduled:
  assumes "version_of w job"
    and "\<And>w' job'. world_keeps w w' \<Longrightarrow> version_of w' job' \<Longrightarrow> par.safe n w' (k (Inr job'))"
  shows "par.safe n w (atomic (\<lambda>w. markScheduled w job nid) k)"
proof (rule par.safe_step)
  fix w1 r w2
  assume w1: "conc_ok w1" "world_keeps w w1" "markScheduled w1 job nid = (r, w2)"
  have v: "version_of w1 job" using assms(1) w1(2) by (rule version_of_keeps)
  then obtain old where "find_job (repo w1) (Job_ID job) = Some old" by (auto simp: version_of_def)
  from markScheduled_stored [OF this, of nid] w1(3) obtain t where
    m: "r = Inr (mark_scheduled t nid job)" "repo w2 = put_job (repo w1) (mark_scheduled t nid job)" "same_config w1 w2"
    by (metis prod.inject)
  from conc_put_job [OF w1(1) version_of_mark [OF v] m(2)] m
  show "conc_ok w2 \<and> world_keeps w1 w2 \<and> sequence w2 = sequence w1 \<and>
      (\<exists>job'. r = Inr job' \<and> version_of w2 job')"
    by (auto simp: same_config_def)
qed (use assms(2) in auto)

lemma allocate_step:
  assumes "conc_ok w" and "0 \<le> c" and "allocate nid c w = (r, w')"
  shows "conc_ok w'" and "world_keeps w w'" and "sequence w' = sequence w"
proof -
  have "conc_ok w' \<and> world_keeps w w' \<and> sequence w' = sequence w"
  proof (cases "Memory_AllocateGPU (repo w) nid c")
    case (Inl err)
    with assms show ?thesis by (auto simp: allocate_def)
  next
    case (Inr s)
    note same = Memory_AllocateGPU_jobs [OF Inr] find_job_allocate [OF Inr] jobs_ok_allocate [OF Inr]
    have "store_wf s" "gpu_wf s"
      using Memory_AllocateGPU_wf [OF conc_ok_D(1) [OF assms(1)] Inr]
        Memory_AllocateGPU_gpu [OF conc_ok_D(2) [OF assms(1)] assms(2) Inr] .
    moreover have w': "w' = w\<lparr>repo := s\<rparr>" using assms(3) Inr by (simp add: allocate_def)
    ultimately show ?thesis
      using assms(1) same
      by (simp add: conc_ok_def conc_store_ok_def attempts_bounded_def ids_below_def world_keeps_def store_keeps_def
          entries_evolve_refl same_run_def)
  qed
  then show "conc_ok w'" "world_keeps w w'" "sequence w' = sequence w" by simp_all
qed

lemma safe_placeJob:
  assumes "version_of w job"
    and "\<And>w' err. world_keeps w w' \<Longrightarrow> par.safe n w' (k (Inl err))"
    and "\<And>w' job'. world_keeps w w' \<Longrightarrow> version_of w' job' \<Longrightarrow> par.safe n w' (k (Inr job'))"
  shows "par.safe n w (placeJob_prog job k)"
proof -
  have "par.safe n w (placeGPUJob_prog job k)" if gpu: "0 < Spec_GPU (Job_ResourceSpec job)"
    unfolding placeGPUJob_prog_def
  proof (rule par.safe_step [where post = "\<lambda>w1 a w2. True"], goal_cases)
    case (1 w1 a w2)
    then show ?case using conc_frame [OF 1(1), of w2] by (auto simp: list_nodes_def split_beta)
  next
    case (2 w1 a w2)
    obtain listed st where a: "a = (listed, st)" by fastforce
    have alloc: "par.safe n w2 (atomic (allocate nid (Spec_GPU (Job_ResourceSpec job))) (\<lambda>allocated.
        case allocated of Inl err \<Rightarrow> k (Inl err) | Inr _ \<Rightarrow> atomic (\<lambda>w. markScheduled w job nid) k))" for nid
    proof (rule par.safe_step [where post = "\<lambda>w1 a w2. True"], goal_cases)
      case (1 w3 r w4)
      then show ?case using allocate_step [OF 1(1) less_imp_le [OF gpu] 1(3)] by simp
    next
      case (2 w3 r w4)
      note keeps = par.keeps_trans [OF \<open>world_keeps w w2\<close> 2(2)]
      show ?case
        using assms keeps version_of_keeps [OF assms(1) keeps] par.keeps_trans [OF keeps]
        by (cases r) (auto intro: safe_markScheduled)
    qed
    show ?case using alloc assms(2) [OF 2(2)] by (auto simp: a split: sum.splits)
  qed
  then show ?thesis
    using assms safe_markScheduled [of w job n k] by (auto simp: placeJob_prog_def)
qed

lemma safe_ScheduleJob:
  assumes "\<And>w' err. world_keeps w w' \<Longrightarrow> par.safe n w' (k (Inl err))"
    and "\<And>w' job'. world_keeps w w' \<Longrightarrow> version_of w' job' \<Longrightarrow> par.safe n w' (k (Inr job'))"
  shows "par.safe n w (ScheduleJob_prog jid k)"
  unfolding ScheduleJob_prog_def
  by (rule safe_get_job) (auto intro!: safe_placeJob assms intro: par.keeps_trans)

lemma safe_frame:
  assumes "\<And>w1. repo (snd (g w1)) = repo w1 \<and> sequence (snd (g w1)) = sequence w1 \<and> environment (snd (g w1)) = environment w1"
    and "\<And>w' a. world_keeps w w' \<Longrightarrow> par.safe n w' (k a)"
  shows "par.safe n w (atomic g k)"
proof (rule par.safe_step [where post = "\<lambda>w1 a w2. True"], goal_cases)
  case (1 w1 a w2)
  then show ?case using assms(1) [of w1] conc_frame [OF 1(1), of w2] by simp
qed (use assms(2) in auto)

lemma safe_schedule:
  assumes "heap_from PQ_Less 0 queue (length queue)" and "\<And>job. job \<in> set queue \<Longrightarrow> version_of w job"
    and "length acc \<le> nat limit"
    and "\<And>w' ps. world_keeps w w' \<Longrightarrow> length ps \<le> nat limit \<Longrightarrow> par.safe n w' (k ps)"
  shows "par.safe n w (schedule_prog queue limit acc k)"
  using assms
proof (induction queue limit acc k arbitrary: w rule: schedule_prog.induct)
  case (1 queue limit acc k)
  show ?case
  proof (cases "PQ_Len queue > 0 \<and> int (length acc) < limit")
    case False
    then show ?thesis using "1.prems"(3,4) by (auto simp: schedule_prog.simps [of queue])
  next
    case True
    show ?thesis
    proof (cases "heap_pop PQ_Less queue")
      case None
      then show ?thesis using True "1.prems"(3,4) by (simp add: schedule_prog.simps [of queue])
    next
      case (Some jq)
      obtain job queue' where jq: "jq = (job, queue')" by fastforce
      note pop = pq.heap.pop_invar [OF "1.prems"(1) Some [unfolded jq]] pq.heap.pop_elems [OF "1.prems"(1) Some [unfolded jq]]
      from arg_cong [OF pop(2), of set_mset] have sub: "set queue = insert job (set queue')" by simp
      have rest: "par.safe n w' (schedule_prog queue' limit acc' k)"
        if "world_keeps w w'" and "acc' = acc \<or> (\<exists>placed. acc' = acc @ [placed])" for w' acc'
        using that(2) True "1.prems"(2-4) sub version_of_keeps [OF _ that(1)] par.keeps_trans [OF that(1)]
          "1.IH"(1) [OF True Some jq [symmetric] pop(1), of w'] "1.IH"(2) [OF True Some jq [symmetric] pop(1), of w']
        by auto
      have "par.safe n w (placeJob_prog job (\<lambda>r. case r of
          Inl placeErr \<Rightarrow> atomic (\<lambda>w. ((), trace_add w (Job_TraceID job) ''job.schedule.skip''
            [(''job_id'', Job_ID job), (''reason'', Error placeErr)])) (\<lambda>_. schedule_prog queue' limit acc k)
        | Inr placed \<Rightarrow> schedule_prog queue' limit (acc @ [placed]) k))"
        using "1.prems"(2) sub
        by (intro safe_placeJob) (auto intro!: safe_frame rest intro: par.keeps_trans)
      then show ?thesis using True Some jq by (simp add: schedule_prog.simps [of queue])
    qed
  qed
qed

lemma set_NewPriorityQueue: "set (NewPriorityQueue js) = set js"
  unfolding NewPriorityQueue_def by (rule mset_eq_setD) simp

lemma safe_SchedulePending:
  assumes "\<And>w' err. world_keeps w w' \<Longrightarrow> par.safe n w' (k (Inl err))"
    and "\<And>w' ps. world_keeps w w' \<Longrightarrow> length ps \<le> nat limit \<Longrightarrow> par.safe n w' (k (Inr ps))"
  shows "par.safe n w (SchedulePending_prog limit k)"
  unfolding SchedulePending_prog_def
proof (rule par.safe_step [where post = "\<lambda>w1 a w2. \<forall>js. a = Inr js \<longrightarrow> (\<forall>job \<in> set js. version_of w2 job)"], goal_cases)
  case (1 w1 a w2)
  let ?ord = "fst (map_order w1)"
  have w2: "repo w2 = repo w1" "sequence w2 = sequence w1" "environment w2 = environment w1"
    and a: "a = Memory_ListJobs ?ord (repo w1)"
    using 1(3) by (auto simp: list_jobs_step_def split_beta)
  note ok2 = conc_frame [OF 1(1) w2]
  have "version_of w2 job" if js: "a = Inr js" "job \<in> set js" for js job
  proof -
    have "mset js = mset (map snd (jobs (repo w1)))"
      using conc_ok_D(1) [OF 1(1)] map_order_ok [OF conc_ok_D(5) [OF 1(1)]] js(1) [unfolded a]
      by (rule Memory_ListJobs_perm)
    with js(2) have "job \<in> snd ` set (jobs (repo w1))" by (metis set_map set_mset_mset)
    then obtain jid where "find_job (repo w2) jid = Some job"
      using store_wf_distinct(1) [OF conc_ok_D(1) [OF 1(1)]] by (auto simp: find_job_def w2)
    with ok2(1) show ?thesis by (rule version_of_find)
  qed
  with ok2 w2 show ?case by simp
next
  case (2 w1 a w2)
  have "set (NewPriorityQueue (filterSchedulable js)) \<subseteq> set js" for js
    by (auto simp: set_NewPriorityQueue filterSchedulable_def)
  then show ?case
    using 2(4) assms [OF par.keeps_trans [OF 2(2)]] assms(1) [OF 2(2)]
    by (auto intro!: safe_schedule NewPriorityQueue_heap split: sum.splits)
qed

subsection \<open>Cancelling, retrying and running\<close>

text \<open>The versions of a job that the services write.\<close>

lemma version_of_status:
  assumes "version_of w job" and "st \<noteq> JobStatusRetrying"
  shows "version_of w (job\<lparr>Job_Status := st, Job_UpdatedAt := t\<rparr>)"
    and "version_of w (job\<lparr>Job_Status := st, Job_LastError := msg, Job_UpdatedAt := t\<rparr>)"
    and "version_of w (job\<lparr>Job_Status := st, Job_UpdatedAt := t, Job_LastError := msg\<rparr>)"
  using assms
  by (auto intro!: version_of_change [OF assms(1)] simp: same_fields_def job_ok_def version_of_def)

lemma version_of_retrying:
  "version_of w job \<Longrightarrow> Scheduler_CanRetry job \<Longrightarrow> version_of w (MarkRetrying t job msg)"
  by (rule version_of_change [OF _ same_fields_MarkRetrying job_ok_MarkRetrying]) (simp_all add: version_of_def)

lemma safe_CancelJob:
  assumes "\<And>w' r. world_keeps w w' \<Longrightarrow> par.safe n w' (k r)"
  shows "par.safe n w (CancelJob_prog jid k)"
  unfolding CancelJob_prog_def
  by (rule safe_get_job) (auto intro!: assms safe_update_job version_of_status intro: par.keeps_trans)

lemma safe_RetryJob:
  assumes "\<And>w' r. world_keeps w w' \<Longrightarrow> par.safe n w' (k r)"
  shows "par.safe n w (RetryJob_prog jid k)"
  unfolding RetryJob_prog_def
  by (rule safe_get_job) (auto intro!: assms safe_update_job version_of_status intro: par.keeps_trans)

text \<open>The end of an execution, whatever its outcome.\<close>

lemma finish_execution_step:
  assumes "conc_ok w" and "run_of w ex" and "w1 = snd (time_Now w)" and "Exec_ID ex1 = Exec_ID ex" and "same_run ex ex1"
  shows "Memory_UpdateExecution (repo w1) ex1 = Inr (put_execution (repo w) ex1)"
    and "conc_ok (w1\<lparr>repo := put_execution (repo w) ex1\<rparr>)" and "world_keeps w (w1\<lparr>repo := put_execution (repo w) ex1\<rparr>)"
proof -
  have run: "run_of w ex1" using assms(2,4,5) by (auto simp: run_of_def same_run_def)
  then show "Memory_UpdateExecution (repo w1) ex1 = Inr (put_execution (repo w) ex1)"
    using assms(3) Memory_UpdateExecution_stored by (auto simp: run_of_def)
  show "conc_ok (w1\<lparr>repo := put_execution (repo w) ex1\<rparr>)" "world_keeps w (w1\<lparr>repo := put_execution (repo w) ex1\<rparr>)"
    using conc_put_execution [OF assms(1) run] assms(3) by simp_all
qed

lemma safe_fail_execution:
  assumes "run_of w ex" and "\<And>w' r. world_keeps w w' \<Longrightarrow> par.safe n w' (k r)"
  shows "par.safe n w (atomic (fail_execution ex err res) k)"
proof (rule par.safe_step [where post = "\<lambda>w1 a w2. True"], goal_cases)
  case (1 w1 a w2)
  let ?ex = "ex\<lparr>Exec_Status := ExecutionStatusFailed, Exec_Logs := Result_Logs res,
        Exec_Manifest := Result_Manifest res, Exec_ExitCode := Result_ExitCode res,
        Exec_Error := Error err, Exec_FinishedAt := fst (time_Now w1)\<rparr>"
  from finish_execution_step [OF 1(1) run_of_keeps [OF assms(1) 1(2)] refl, of ?ex] 1(3)
  show ?case by (auto simp: fail_execution_def split_beta Let_def same_run_def)
qed (use assms(2) in auto)

lemma safe_succeed_execution:
  assumes "run_of w ex" and "\<And>w' r. world_keeps w w' \<Longrightarrow> par.safe n w' (k r)"
  shows "par.safe n w (atomic (succeed_execution ex res) k)"
proof (rule par.safe_step [where post = "\<lambda>w1 a w2. True"], goal_cases)
  case (1 w1 a w2)
  let ?ex = "ex\<lparr>Exec_Status := ExecutionStatusSucceeded, Exec_Logs := Result_Logs res,
        Exec_Manifest := Result_Manifest res, Exec_ExitCode := Result_ExitCode res, Exec_FinishedAt := fst (time_Now w1)\<rparr>"
  from finish_execution_step [OF 1(1) run_of_keeps [OF assms(1) 1(2)] refl, of ?ex] 1(3)
  show ?case by (auto simp: succeed_execution_def split_beta Let_def same_run_def)
qed (use assms(2) in auto)

lemma safe_write_job:
  assumes "version_of w job" and "\<And>w' r. world_keeps w w' \<Longrightarrow> par.safe n w' (k r)"
    and "\<And>w1. version_of w1 job \<Longrightarrow> \<exists>job'. version_of w1 job' \<and> repo (snd (g w1)) = put_job (repo w1) job' \<and>
      sequence (snd (g w1)) = sequence w1 \<and> environment (snd (g w1)) = environment w1"
  shows "par.safe n w (atomic g k)"
proof (rule par.safe_step [where post = "\<lambda>w1 a w2. True"], goal_cases)
  case (1 w1 a w2)
  from assms(3) [OF version_of_keeps [OF assms(1) 1(2)]] 1(3) obtain job' where
    "version_of w1 job'" "repo w2 = put_job (repo w1) job'" "sequence w2 = sequence w1" "environment w2 = environment w1"
    by auto
  with conc_put_job [OF 1(1)] show ?case by blast
qed (use assms(2) in auto)

lemma version_of_update: "version_of w job \<Longrightarrow> Memory_UpdateJob (repo w) job = Inr (put_job (repo w) job)"
  using Memory_UpdateJob_stored by (auto simp: version_of_def)

lemma safe_fail_job:
  assumes "version_of w job" and "\<And>w' r. world_keeps w w' \<Longrightarrow> par.safe n w' (k r)"
  shows "par.safe n w (atomic (fail_job job ex err) k)"
proof (rule safe_write_job [OF assms(1)], goal_cases)
  case (1 w' r)
  then show ?case by (rule assms(2))
next
  case (2 w1)
  let ?job = "if Scheduler_CanRetry job then MarkRetrying (fst (time_Now w1)) job (Error err)
     else job\<lparr>Job_Status := JobStatusFailed, Job_LastError := Error err, Job_UpdatedAt := Exec_FinishedAt ex\<rparr>"
  have "version_of w1 ?job" using 2 by (simp add: version_of_retrying version_of_status)
  with version_of_update [OF this] show ?case
    by (intro exI [of _ ?job] conjI) (simp_all add: fail_job_def split_beta Let_def split: if_splits)
qed

lemma safe_succeed_job:
  assumes "version_of w job" and "\<And>w' r. world_keeps w w' \<Longrightarrow> par.safe n w' (k r)"
  shows "par.safe n w (atomic (succeed_job job ex) k)"
proof (rule safe_write_job [OF assms(1)], goal_cases)
  case (1 w' r)
  then show ?case by (rule assms(2))
next
  case (2 w1)
  let ?job = "job\<lparr>Job_Status := JobStatusSucceeded, Job_UpdatedAt := Exec_FinishedAt ex, Job_LastError := ''''\<rparr>"
  have "version_of w1 ?job" using 2 by (simp add: version_of_status)
  with version_of_update [OF this] show ?case
    by (intro exI [of _ ?job] conjI) (simp_all add: succeed_job_def Let_def)
qed

lemma safe_finishFailed:
  assumes "version_of w job" and "run_of w ex" and "\<And>w' r. world_keeps w w' \<Longrightarrow> par.safe n w' (k r)"
  shows "par.safe n w (finishFailed_prog job ex err res k)"
  unfolding finishFailed_prog_def using assms
  by (auto intro!: safe_fail_execution safe_fail_job assms intro: version_of_keeps par.keeps_trans split: sum.splits)

lemma safe_finishSucceeded:
  assumes "version_of w job" and "run_of w ex" and "\<And>w' r. world_keeps w w' \<Longrightarrow> par.safe n w' (k r)"
  shows "par.safe n w (finishSucceeded_prog job ex res k)"
  unfolding finishSucceeded_prog_def using assms
  by (auto intro!: safe_succeed_execution safe_succeed_job assms intro: version_of_keeps par.keeps_trans split: sum.splits)

lemma safe_runExecutor:
  assumes "version_of w job" and "run_of w ex" and "\<And>w' r. world_keeps w w' \<Longrightarrow> par.safe n w' (k r)"
  shows "par.safe n w (runExecutor_prog registry job ex k)"
proof (cases "Registry_Get registry (Job_Executor job)")
  case (Inl err)
  then show ?thesis using assms by (simp add: runExecutor_prog_def safe_finishFailed)
next
  case (Inr executor)
  have "par.safe n w' (case runErr of
      Some err \<Rightarrow> if is_panic err then k (None, Some err)
        else finishFailed_prog job ex err result (\<lambda>e. k (Some ex, Some e))
    | None \<Rightarrow> finishSucceeded_prog job ex result k)" if "world_keeps w w'" for w' result runErr
    using assms(3) [OF that] assms(3) [OF par.keeps_trans [OF that]] version_of_keeps [OF assms(1) that]
      run_of_keeps [OF assms(2) that]
    by (auto intro!: safe_finishFailed safe_finishSucceeded split: option.splits)
  then have "par.safe n w (atomic (call_executor executor job) (\<lambda>(result, runErr). case runErr of
      Some err \<Rightarrow> if is_panic err then k (None, Some err)
        else finishFailed_prog job ex err result (\<lambda>e. k (Some ex, Some e))
    | None \<Rightarrow> finishSucceeded_prog job ex result k))"
    by (intro safe_frame) (auto simp: call_executor_def)
  with Inr show ?thesis by (simp add: runExecutor_prog_def)
qed

text \<open>A new execution takes a fresh identifier; nothing else in a run does.\<close>

lemma create_execution_step:
  assumes "conc_ok w" and "version_of w job" and "Suc (sequence w) < max_ids" and "create_execution job w = (r, w')"
  shows "conc_ok w'" and "world_keeps w w'" and "sequence w' = Suc (sequence w)" and "\<exists>ex. r = Inr ex \<and> run_of w' ex"
proof -
  obtain ex where r: "r = Inr ex" "repo w' = add_execution (repo w) ex" "sequence w' = Suc (sequence w)"
      "environment w' = environment w"
    and ex: "Exec_ID ex = fst (nextID w ''exec'')" "Exec_JobID ex = Job_ID job" "Exec_Attempt ex = i64 (Job_RetryCount job + 1)"
    using assms(4)
    by (auto simp: create_execution_def split_beta Let_def Memory_CreateExecution_def add_execution_def index_of_def)
  have fresh: "executions (repo w) (Exec_ID ex) = None" "id_seq (Exec_ID ex) = Suc (sequence w)"
    using nextID_fresh [OF conc_ok_D(6) [OF assms(1)] assms(3) [unfolded max_ids_def] refl, of "''exec''"]
    by (simp_all add: ex(1))
  obtain old where old: "job_ok job" "find_job (repo w) (Job_ID job) = Some old" "same_fields old job"
    using assms(2) by (auto simp: version_of_def)
  have "Exec_Attempt ex \<le> Job_MaxRetries old + 1"
    using old(1) i64_le [of "Job_RetryCount job"] same_fields_D(2) [OF old(3)] by (simp add: ex(3) job_ok_def)
  then have "attempts_bounded (repo w')"
    using conc_ok_D(4) [OF assms(1)] old(2) ex(2) unfolding attempts_bounded_def r(2) by (auto split: if_splits)
  moreover have "store_wf (repo w')"
    unfolding r(2) using conc_ok_D(1) [OF assms(1)] fresh(1) by (rule store_wf_add_execution)
  moreover have "ids_below (repo w') (sequence w')"
    unfolding r(2,3) using ids_below_mono [OF conc_ok_D(6) [OF assms(1)]] fresh(2) by (auto intro!: ids_below_add_execution)
  ultimately show "conc_ok w'" using assms(1) r(2,4) by (simp add: conc_ok_def conc_store_ok_def)
  show "world_keeps w w'"
    using r(2,4) fresh(1) by (auto simp: world_keeps_def store_keeps_def entries_evolve_def same_run_def)
  show "sequence w' = Suc (sequence w)" by (rule r(3))
  show "\<exists>ex. r = Inr ex \<and> run_of w' ex" using r by (simp add: run_of_def same_run_def)
qed

lemma safe_startExecution:
  assumes "version_of w job" and "\<And>w' r. world_keeps w w' \<Longrightarrow> par.safe n w' (k r)"
  shows "par.safe (Suc n) w (startExecution_prog registry job k)"
  unfolding startExecution_prog_def
proof (rule par.safe_atomic)
  fix w1 created w2
  assume w1: "conc_ok w1" "world_keeps w w1" "sequence w1 + Suc n < max_ids" "create_execution job w1 = (created, w2)"
  then have "Suc (sequence w1) < max_ids" by simp
  from create_execution_step [OF w1(1) version_of_keeps [OF assms(1) w1(2)] this w1(4)] obtain ex where
    c: "conc_ok w2" "world_keeps w1 w2" "sequence w2 = Suc (sequence w1)" "created = Inr ex" "run_of w2 ex" by blast
  note keeps = par.keeps_trans [OF w1(2) c(2)]
  have "par.safe n w2 (atomic (update_job (\<lambda>now. job\<lparr>Job_Status := JobStatusRunning, Job_UpdatedAt := now\<rparr>)
      ''mark job running'' IncRunning ''job.run_started'')
      (\<lambda>marked. case marked of Inl err \<Rightarrow> k (None, Some err) | Inr job1 \<Rightarrow> runExecutor_prog registry job1 ex k))"
  proof (rule safe_update_job)
    fix t
    show "version_of w2 (job\<lparr>Job_Status := JobStatusRunning, Job_UpdatedAt := t\<rparr>)"
      using version_of_keeps [OF assms(1) keeps] by (simp add: version_of_status)
    fix w3
    assume w3: "world_keeps w2 w3"
    have "version_of w3 (job\<lparr>Job_Status := JobStatusRunning, Job_UpdatedAt := t\<rparr>)"
      using version_of_keeps [OF assms(1) par.keeps_trans [OF keeps w3]] by (simp add: version_of_status)
    then show "par.safe n w3 (case Inr (job\<lparr>Job_Status := JobStatusRunning, Job_UpdatedAt := t\<rparr>) of
        Inl err \<Rightarrow> k (None, Some err) | Inr job1 \<Rightarrow> runExecutor_prog registry job1 ex k)"
      using run_of_keeps [OF c(5) w3] assms(2) [OF par.keeps_trans [OF par.keeps_trans [OF keeps w3]]]
      by (auto intro!: safe_runExecutor)
  qed
  then show "conc_ok w2 \<and> world_keeps w1 w2 \<and> (\<exists>m. sequence w2 + m \<le> sequence w1 + Suc n \<and>
      par.safe m w2 (case created of Inl err \<Rightarrow> k (None, Some err)
        | Inr execution \<Rightarrow> atomic (update_job (\<lambda>now. job\<lparr>Job_Status := JobStatusRunning, Job_UpdatedAt := now\<rparr>)
            ''mark job running'' IncRunning ''job.run_started'')
            (\<lambda>marked. case marked of Inl err \<Rightarrow> k (None, Some err) | Inr job1 \<Rightarrow> runExecutor_prog registry job1 execution k)))"
    using c(1-4) by (auto intro!: exI [of _ n])
qed

lemma safe_RunJob:
  assumes "\<And>w' r. world_keeps w w' \<Longrightarrow> par.safe n w' (k r)"
  shows "par.safe (Suc n) w (RunJob_prog registry jid k)"
proof -
  have early: "par.safe (Suc n) w' (k r)" if "world_keeps w w'" for w' r
    using assms [OF that] by (rule par.safe_mono) simp
  have start: "par.safe (Suc n) w' (startExecution_prog registry job k)" if "world_keeps w w'" "version_of w' job" for w' job
    using that(2) assms [OF par.keeps_trans [OF that(1)]] by (rule safe_startExecution)
  have sched: "par.safe (Suc n) w' (ScheduleJob_prog jid (\<lambda>r. case r of
      Inl err \<Rightarrow> k (None, Some err) | Inr job1 \<Rightarrow> startExecution_prog registry job1 k))" if "world_keeps w w'" for w'
    by (rule safe_ScheduleJob) (use early start par.keeps_trans [OF that] in auto)
  show ?thesis
    unfolding RunJob_prog_def by (rule safe_get_job) (use early start sched in auto)
qed

lemma safe_run_all:
  assumes "\<And>w' r. world_keeps w w' \<Longrightarrow> par.safe n w' (k r)"
  shows "par.safe (length js + n) w (run_all_prog registry js exs k)"
  using assms
proof (induction js arbitrary: exs w)
  case (Cons job js)
  have "par.safe (Suc (length js + n)) w (RunJob_prog registry (Job_ID job) (\<lambda>r. case r of
      (_, Some runErr) \<Rightarrow> k (exs, Some runErr)
    | (Some ex, None) \<Rightarrow> run_all_prog registry js (exs @ [ex]) k
    | (None, None) \<Rightarrow> run_all_prog registry js exs k))"
  proof (rule safe_RunJob)
    fix w' and r :: run_result
    assume w': "world_keeps w w'"
    have "par.safe (length js + n) w' (run_all_prog registry js exs' k)" for exs'
      using Cons.prems [OF par.keeps_trans [OF w']] by (rule Cons.IH)
    moreover have "par.safe (length js + n) w' (k (exs, e))" for e
      using Cons.prems [OF w'] by (rule par.safe_mono) simp
    ultimately show "par.safe (length js + n) w' (case r of
        (_, Some runErr) \<Rightarrow> k (exs, Some runErr)
      | (Some ex, None) \<Rightarrow> run_all_prog registry js (exs @ [ex]) k
      | (None, None) \<Rightarrow> run_all_prog registry js exs k)"
      by (auto split: prod.splits option.splits)
  qed
  then show ?case by simp
qed simp

lemma safe_DispatchPending:
  assumes "\<And>w' r. world_keeps w w' \<Longrightarrow> par.safe n w' (k r)"
  shows "par.safe (nat limit + n) w (DispatchPending_prog registry limit k)"
  unfolding DispatchPending_prog_def
proof (rule safe_SchedulePending)
  fix w' and err :: error
  assume w': "world_keeps w w'"
  show "par.safe (nat limit + n) w' (case Inl err of Inl err \<Rightarrow> k ([], Some err)
      | Inr scheduledJobs \<Rightarrow> run_all_prog registry scheduledJobs [] k)"
    using par.safe_mono [OF assms [OF w']] by simp
next
  fix w' and ps :: "Job list"
  assume w': "world_keeps w w'" and len: "length ps \<le> nat limit"
  have "par.safe (length ps + n) w' (run_all_prog registry ps [] k)"
    using assms [OF par.keeps_trans [OF w']] by (rule safe_run_all)
  then show "par.safe (nat limit + n) w' (case Inr ps of Inl err \<Rightarrow> k ([], Some err)
      | Inr scheduledJobs \<Rightarrow> run_all_prog registry scheduledJobs [] k)"
    using len par.safe_mono by fastforce
qed

lemma CreateJob_conc:
  assumes "conc_ok w" and "Suc (sequence w) < max_ids" and "is_i64 (Input_MaxRetries inp)"
  shows "conc_ok (snd (CreateJob w inp)) \<and> world_keeps w (snd (CreateJob w inp)) \<and>
    sequence (snd (CreateJob w inp)) \<le> Suc (sequence w)"
proof (cases "CreateJobInput_Validate inp")
  case None
  from CreateJob_fresh [OF conc_ok_D(6) [OF assms(1)] assms(2) [unfolded max_ids_def] None] obtain job w' where
    c: "CreateJob w inp = (Inr job, w')" "submitted_as inp job" "repo w' = put_job (repo w) job"
      "find_job (repo w) (Job_ID job) = None" "id_seq (Job_ID job) = Suc (sequence w)"
      "sequence w' = Suc (sequence w)" "environment w' = environment w" .
  have "job_ok job" using submitted_job_new [OF c(2) None assms(3)] by (rule job_ok_new)
  moreover have "attempts_bounded (repo w')"
    unfolding c(3) using conc_ok_D(4) [OF assms(1)] by (rule attempts_bounded_put_job) (simp add: c(4))
  moreover have "ids_below (repo w') (sequence w')"
    unfolding c(3,6) using ids_below_mono [OF conc_ok_D(6) [OF assms(1)]] c(5) by (auto intro!: ids_below_put_job)
  ultimately have "conc_ok w'"
    using assms(1) c(3,7) by (simp add: conc_ok_def conc_store_ok_def store_wf_put_job' jobs_ok_put_job)
  moreover have "world_keeps w w'" using c(3,4,7) by (auto simp: world_keeps_def intro!: keeps_put_job)
  ultimately show ?thesis using c(1,6) by simp
next
  case (Some err)
  with assms(1) show ?thesis by (simp add: CreateJob_invalid)
qed

lemma RegisterNode_conc:
  assumes "conc_ok w" and "node_ok node"
  shows "conc_ok (RegisterNode w node)" and "world_keeps w (RegisterNode w node)"
proof -
  have "store_wf (repo (RegisterNode w node))" "gpu_wf (repo (RegisterNode w node))"
    unfolding RegisterNode_repo using conc_ok_D(1,2) [OF assms(1)] assms(2)
    by (auto intro!: store_wf_put_node gpu_wf_put)
  with assms(1) show "conc_ok (RegisterNode w node)"
    by (simp add: conc_ok_def conc_store_ok_def jobs_ok_def attempts_bounded_def ids_below_def)
  show "world_keeps w (RegisterNode w node)"
    by (simp add: world_keeps_def store_keeps_def entries_evolve_refl same_run_def)
qed

lemma prog_of_safe: "command_ok c \<Longrightarrow> par.safe (new_ids c) w (prog_of registry c)"
proof (cases c)
  case (Submit inp)
  assume ok: "command_ok c"
  have "par.safe 1 w (atomic (\<lambda>w. CreateJob w inp) (\<lambda>_. Ret ()))"
  proof (rule par.safe_atomic)
    fix w1 r w2
    assume "conc_ok w1" "sequence w1 + 1 < max_ids" "CreateJob w1 inp = (r, w2)"
    with CreateJob_conc [of w1 inp] ok Submit
    show "conc_ok w2 \<and> world_keeps w1 w2 \<and> (\<exists>m. sequence w2 + m \<le> sequence w1 + 1 \<and> par.safe m w2 (Ret ()))"
      by (auto intro!: exI [of _ 0] par.safe_Ret)
  qed
  with Submit show ?thesis by simp
next
  case (Register node)
  assume "command_ok c"
  then show ?thesis using Register RegisterNode_conc by (auto intro!: par.safe_atomic par.safe_Ret)
next
  case (Strategy st)
  then show ?thesis by (auto intro!: safe_frame par.safe_Ret simp: SetStrategy_def)
next
  case (Run jid)
  then show ?thesis using safe_RunJob [of w 0 "\<lambda>_. Ret ()" registry jid] by (simp add: par.safe_Ret)
next
  case (Dispatch limit)
  then show ?thesis using safe_DispatchPending [of w 0 "\<lambda>_. Ret ()" limit registry] by (simp add: par.safe_Ret)
qed (auto intro!: safe_CancelJob safe_RetryJob safe_ScheduleJob safe_SchedulePending par.safe_Ret)

lemma progs_safe:
  assumes "conc_ok w" and "list_all command_ok cmds" and "sequence w + sum_list (map new_ids cmds) < 2 ^ 64"
  shows "par.all_safe (map new_ids cmds) (map (prog_of registry) cmds, w)"
  using assms unfolding par.all_safe_def max_ids_def [symmetric]
  by (auto simp: list_all2_conv_all_nth list_all_length prog_of_safe)

text \<open>
  Property C8. Requests that run at the same time and interleave in any way between their store
  operations keep the store consistent: jobs, nodes and executions are stored once under their
  identifiers and indexed exactly under their jobs, no node offers a negative number of GPUs
  or more than it has, no retry count exceeds its budget, an attempt number is at most the
  retries allowed plus one; no job or execution is lost, what a job asked for does not
  change, and an execution keeps its job and number.
\<close>

theorem concurrent_store_safe:
  assumes "service_ok w" and "list_all command_ok cmds" and "sequence w + sum_list (map new_ids cmds) < 2 ^ 64"
    and "interleave schedule (map (prog_of registry) cmds, w) = (ps, w')"
  shows "conc_store_ok (repo w') \<and> store_keeps (repo w) (repo w')"
  using par.interleave_safe [OF progs_safe [OF service_ok_conc [OF assms(1)] assms(2,3), of registry], of schedule] assms(4)
  by (simp add: conc_ok_def world_keeps_def)

theorem concurrent_store_safe_witness:
  "conc_store_ok (repo (snd (interleave [0, 1, 0, 2, 1, 0, 2, 1, 0, 1, 2]
     (map (prog_of demo_registry) [Run ''job-2'', Run ''job-2'', Submit (demo_input 1)], demo))))"
proof -
  let ?cmds = "[Run ''job-2'', Run ''job-2'', Submit (demo_input 1)]"
  let ?c = "interleave [0, 1, 0, 2, 1, 0, 2, 1, 0, 1, 2] (map (prog_of demo_registry) ?cmds, demo)"
  have "list_all command_ok ?cmds" by (simp add: demo_input_def is_i64_def)
  from concurrent_store_safe [OF demo_ok this, of "[0, 1, 0, 2, 1, 0, 2, 1, 0, 1, 2]" demo_registry "fst ?c" "snd ?c"]
  show ?thesis by simp
qed

section \<open>What does not survive\<close>

lemma advance_atomic:
  assumes "i < length ps" and "ps ! i = atomic g k" and "g s = (a, s')"
  shows "advance i (ps, s) = (ps[i := k a], s')"
  using assms by (simp add: advance_def atomic_def)

lemma get_job_stored: "find_job (repo w) jid = Some job \<Longrightarrow> get_job jid w = (Inr job, w)"
  by (simp add: get_job_def Memory_GetJob_def find_job_def)

lemma create_execution_new:
  assumes "ids_below (repo w) (sequence w)" and "Suc (sequence w) < 2 ^ 64"
  obtains ex w' where "create_execution job w = (Inr ex, w')" and "repo w' = add_execution (repo w) ex"
    and "sequence w' = Suc (sequence w)" and "Exec_JobID ex = Job_ID job" and "Exec_Status ex = ExecutionStatusRunning"
    and "executions (repo w) (Exec_ID ex) = None" and "ids_below (repo w') (sequence w')"
proof -
  obtain ex w' where c: "create_execution job w = (Inr ex, w')" and r: "repo w' = add_execution (repo w) ex"
      "sequence w' = Suc (sequence w)"
    and ex: "Exec_ID ex = fst (nextID w ''exec'')" "Exec_JobID ex = Job_ID job" "Exec_Status ex = ExecutionStatusRunning"
    by (auto simp: create_execution_def split_beta Let_def Memory_CreateExecution_def add_execution_def index_of_def)
  have "executions (repo w) (Exec_ID ex) = None" "id_seq (Exec_ID ex) = Suc (sequence w)"
    using nextID_fresh [OF assms refl, of "''exec''"] by (simp_all add: ex(1))
  moreover from this have "ids_below (repo w') (sequence w')"
    unfolding r using ids_below_mono [OF assms(1)] by (auto intro!: ids_below_add_execution)
  ultimately show thesis using that c r ex by blast
qed

lemma update_job_put:
  assumes "find_job (repo w) jid = Some old" and "\<And>t. Job_ID (change t) = jid"
  obtains t w' where "update_job change what inc event w = (Inr (change t), w')" and "repo w' = put_job (repo w) (change t)"
proof -
  obtain t w1 where t: "time_Now w = (t, w1)" by fastforce
  note w1 = time_Now_frame [of w, unfolded t snd_conv]
  have "Memory_UpdateJob (repo w) (change t) = Inr (put_job (repo w) (change t))"
    using assms by (intro Memory_UpdateJob_stored) simp
  then show thesis by (intro that [of t]) (auto simp: update_job_def t w1 Let_def)
qed

lemmas mark_running = update_job_put [where change = "\<lambda>now. job\<lparr>Job_Status := JobStatusRunning, Job_UpdatedAt := now\<rparr>"
    and what = "''mark job running''" and inc = IncRunning and event = "''job.run_started''" for job]

text \<open>
  Property C9. Two requests to run one scheduled job at the same time both run it: when they
  read the job before either has written it, the job ends up running with two running
  executions. No lock or conditional update prevents it, and the invariant that holds for
  requests one after another is broken.
\<close>

theorem run_race:
  assumes "service_ok w" and "find_job (repo w) jid = Some job" and "Job_Status job = JobStatusScheduled"
    and "sequence w + 2 < 2 ^ 64"
    and "interleave [0, 1, 0, 1, 0, 1] (map (prog_of registry) [Run jid, Run jid], w) = (ps, w')"
  shows "is_running (repo w') jid \<and> card (running_of (repo w') jid) = 2 \<and> \<not> runs_ok (repo w')"
proof -
  have jid: "Job_ID job = jid" using service_ok_D(3) [OF assms(1)] assms(2) by (rule find_job_key)
  have ids: "ids_below (repo w) (sequence w)" "Suc (sequence w) < 2 ^ 64"
    using service_ok_D(2) [OF assms(1)] assms(4) by simp_all
  obtain ex1 w1 where c1: "create_execution job w = (Inr ex1, w1)" "repo w1 = add_execution (repo w) ex1"
      "sequence w1 = Suc (sequence w)" "Exec_JobID ex1 = Job_ID job" "Exec_Status ex1 = ExecutionStatusRunning"
      "executions (repo w) (Exec_ID ex1) = None" "ids_below (repo w1) (sequence w1)"
    using ids by (rule create_execution_new)
  have "Suc (sequence w1) < 2 ^ 64" using c1(3) assms(4) by simp
  with c1(7) obtain ex2 w2 where c2: "create_execution job w1 = (Inr ex2, w2)" "repo w2 = add_execution (repo w1) ex2"
      "Exec_JobID ex2 = Job_ID job" "Exec_Status ex2 = ExecutionStatusRunning" "executions (repo w1) (Exec_ID ex2) = None"
    by (rule create_execution_new) blast
  let ?run = "\<lambda>now. job\<lparr>Job_Status := JobStatusRunning, Job_UpdatedAt := now\<rparr>"
  let ?upd = "update_job ?run ''mark job running'' IncRunning ''job.run_started''"
  have id: "Job_ID (?run t) = jid" for t by (simp add: jid)
  have f2: "find_job (repo w2) jid = Some job" using assms(2) by (simp add: c1(2) c2(2))
  from mark_running [OF f2 id] obtain t1 w3 where
    u1: "?upd w2 = (Inr (?run t1), w3)" "repo w3 = put_job (repo w2) (?run t1)" .
  have f3: "find_job (repo w3) jid = Some (?run t1)" by (simp add: u1(2) jid)
  from mark_running [OF f3 id] obtain t2 w4 where
    u2: "?upd w3 = (Inr (?run t2), w4)" "repo w4 = put_job (repo w3) (?run t2)" .
  have w': "w' = w4"
    using assms(5)
    by (simp add: RunJob_prog_def startExecution_prog_def advance_atomic get_job_stored [OF assms(2)] assms(3) c1(1) c2(1) u1(1) u2(1))
  have "running_of (repo w) jid = {}"
    using service_ok_D(5) [OF assms(1)] assms(2,3) by (auto simp: store_ok_def runs_ok_def is_running_def)
  then have run: "running_of (repo w') jid = {Exec_ID ex1, Exec_ID ex2}"
    using c1 c2 jid by (auto simp: w' u1(2) u2(2) running_of_def)
  have "Exec_ID ex1 \<noteq> Exec_ID ex2" using c2(5) by (auto simp: c1(2))
  moreover have "is_running (repo w') jid" by (simp add: w' u2(2) is_running_def jid)
  ultimately have "is_running (repo w') jid" "card (running_of (repo w') jid) = 2" using run by simp_all
  moreover from this have "\<not> runs_ok (repo w')"
    using runs_ok_D(1) [of "repo w'" jid "Exec_ID ex1"] run by auto
  ultimately show ?thesis by simp
qed

text \<open>A platform whose first job is scheduled.\<close>

definition demo_ready :: World where
  "demo_ready = demo\<lparr>repo := put_job (repo demo) (demo_job ''job-1'' JobStatusScheduled ''shell'' 1 0)\<rparr>"

lemma demo_ready_ok: "service_ok demo_ready"
proof -
  have "lifecycle_step (repo demo) (repo demo_ready)"
    using lifecycle_step.schedule_cpu [OF demo_find(1), of 0]
    by (simp add: demo_ready_def demo_job_def CanSchedule_def mark_scheduled_def)
  moreover have "ids_below (repo demo_ready) (sequence demo_ready)"
    using service_ok_D(2) [OF demo_ok] by (auto simp: demo_ready_def demo_job_def intro!: ids_below_put_job)
  ultimately have "service_step 0 demo demo_ready"
    using demo_ok by (intro service_stepI) (auto simp: demo_ready_def)
  then show ?thesis by (simp add: service_step_def)
qed

lemma demo_ready_find: "find_job (repo demo_ready) ''job-1'' = Some (demo_job ''job-1'' JobStatusScheduled ''shell'' 1 0)"
  by (simp add: demo_ready_def demo_job_def)

theorem run_race_witness:
  "card (running_of (repo (snd (interleave [0, 1, 0, 1, 0, 1]
     (map (prog_of demo_registry) [Run ''job-1'', Run ''job-1''], demo_ready)))) ''job-1'') = 2"
proof -
  let ?c = "interleave [0, 1, 0, 1, 0, 1] (map (prog_of demo_registry) [Run ''job-1'', Run ''job-1''], demo_ready)"
  have "sequence demo_ready + 2 < 2 ^ 64" by (simp add: demo_ready_def)
  from run_race [OF demo_ready_ok demo_ready_find _ this, of demo_registry "fst ?c" "snd ?c"] show ?thesis
    by (simp add: demo_job_def)
qed

text \<open>
  Property C10. A cancellation can be overwritten: when a run has read a scheduled job, a
  cancellation that is carried out and acknowledged in between does not stop it. The job,
  already stored as cancelled, is stored as running again.
\<close>

theorem cancel_race:
  assumes "service_ok w" and "find_job (repo w) jid = Some job" and "Job_Status job = JobStatusScheduled"
    and "Suc (sequence w) < 2 ^ 64"
    and "interleave [0, 1, 1] (map (prog_of registry) [Run jid, Cancel jid], w) = (ps, w1)"
    and "interleave [0, 0] (ps, w1) = (ps', w2)"
  shows "map_option Job_Status (find_job (repo w1) jid) = Some JobStatusCancelled \<and> ps ! 1 = Ret () \<and>
    is_running (repo w2) jid"
proof -
  have jid: "Job_ID job = jid" using service_ok_D(3) [OF assms(1)] assms(2) by (rule find_job_key)
  let ?cancel = "\<lambda>now. job\<lparr>Job_Status := JobStatusCancelled, Job_UpdatedAt := now\<rparr>"
  let ?run = "\<lambda>now. job\<lparr>Job_Status := JobStatusRunning, Job_UpdatedAt := now\<rparr>"
  have id: "Job_ID (?cancel t) = jid" "Job_ID (?run t) = jid" for t by (simp_all add: jid)
  from update_job_put [OF assms(2) id(1)] obtain t w3 where
    u: "update_job ?cancel (''cancel job '' @ jid) IncCancelled ''job.cancelled'' w = (Inr (?cancel t), w3)"
      "repo w3 = put_job (repo w) (?cancel t)" .
  have can: "CanCancel job" using assms(3) by (simp add: CanCancel_def)
  have first: "ps ! 1 = Ret ()" "ps ! 0 = startExecution_prog registry job (\<lambda>_. Ret ())" "length ps = 2" "w1 = w3"
    using assms(5) can u(1)
    by (auto simp: RunJob_prog_def CancelJob_prog_def advance_atomic get_job_stored [OF assms(2)] assms(3))
  have "version_of w (?cancel t)" for t
    using version_of_find [OF service_ok_conc [OF assms(1)] assms(2)] by (simp add: version_of_status)
  from update_job_step [OF service_ok_conc [OF assms(1)] this u(1)]
  have ok: "ids_below (repo w3) (sequence w3)" "Suc (sequence w3) < 2 ^ 64"
    using conc_ok_D(6) [of w3] assms(4) by simp_all
  obtain ex w4 where c: "create_execution job w3 = (Inr ex, w4)" "repo w4 = add_execution (repo w3) ex"
    using ok by (rule create_execution_new)
  have f: "find_job (repo w4) jid = Some (?cancel t)" by (simp add: c(2) u(2) jid)
  from mark_running [OF f id(2)] obtain t' w5 where
    m: "update_job ?run ''mark job running'' IncRunning ''job.run_started'' w4 = (Inr (?run t'), w5)"
      "repo w5 = put_job (repo w4) (?run t')" .
  have "w2 = w5"
    using assms(6) first c(1) m(1) by (simp add: startExecution_prog_def advance_atomic)
  then show ?thesis using first(1,4) u(2) m(2) by (simp add: is_running_def jid)
qed

theorem cancel_race_witness:
  "is_running (repo (snd (interleave [0, 1, 1, 0, 0]
     (map (prog_of demo_registry) [Run ''job-1'', Cancel ''job-1''], demo_ready)))) ''job-1''"
proof -
  let ?c = "interleave [0, 1, 1] (map (prog_of demo_registry) [Run ''job-1'', Cancel ''job-1''], demo_ready)"
  let ?d = "interleave [0, 0] ?c"
  have "Suc (sequence demo_ready) < 2 ^ 64" by (simp add: demo_ready_def)
  from cancel_race [OF demo_ready_ok demo_ready_find _ this, of demo_registry "fst ?c" "snd ?c" "fst ?d" "snd ?d"]
  show ?thesis by (simp add: demo_job_def)
qed

end
