(* ===== verification/Rate_Limit.thy ===== *)
theory Rate_Limit
  imports Float64 Go_Text
begin

text \<open>
  The two token-bucket rate limiters, \<^verbatim>\<open>internal/gateway/limiter.go\<close> and
  \<^verbatim>\<open>internal/otelgateway/processor/ratelimit\<close>. Tokens are \<^verbatim>\<open>float64\<close> values, with the
  rounding of every operation. The instant of a call is an argument. What both buckets
  promise is the locale \<open>token_bucket\<close>: a bucket grants exactly what it holds, so no burst
  takes out more than it held, and time only adds to it, up to its capacity.
\<close>

section \<open>Exact subtraction\<close>

lemma is_f64_scaled:
  assumes "is_f64 x"
  obtains m where "x = of_int m * 2 powi ulp_exponent x"
  using assms by (metis f64_def is_f64_def mult_zero_left of_int_0)

text \<open>Taking a whole number from a float that holds it loses nothing.\<close>

lemma f64_sub_int:
  assumes x: "is_f64 x" and n: "0 \<le> n" "of_int n \<le> x" and bound: "x < 2 ^ 53"
  shows "f64 (x - of_int n) = x - of_int n"
proof (cases "x = of_int n \<or> n = 0")
  case True
  with x show ?thesis by (auto simp: is_f64_def)
next
  case False
  with n have pos: "0 < x - of_int n" "0 < x" "x - of_int n \<le> x" by auto
  obtain m where m: "x = of_int m * 2 powi ulp_exponent x" using is_f64_scaled [OF x] .
  define k where "k = ulp_exponent x"
  have "k \<le> 0"
    unfolding k_def using pos bound by (intro ulp_exponent_le) (simp_all add: power_int_def)
  then have "(2 :: rat) powi k * 2 ^ nat (- k) = 1"
    by (simp add: power_int_def power_inverse divide_simps)
  then have "x - of_int n = of_int (m - n * 2 ^ nat (- k)) * 2 powi k"
    using m by (simp add: k_def algebra_simps)
  moreover have "ulp_exponent (x - of_int n) \<le> k"
    unfolding k_def ulp_exponent_def using exponent_mono [of "x - of_int n" x] pos by auto
  ultimately show ?thesis by (rule f64_exact)
qed

section \<open>The contract\<close>

text \<open>Requests at one instant, in order: which are granted.\<close>

fun take_all :: "('t \<Rightarrow> int \<Rightarrow> 'b \<Rightarrow> bool \<times> 'b) \<Rightarrow> 't \<Rightarrow> int list \<Rightarrow> 'b \<Rightarrow> (int \<times> bool) list \<times> 'b" where
  "take_all tk t [] b = ([], b)"
| "take_all tk t (n # ns) b =
     (let (ok, b1) = tk t n b; (rs, b2) = take_all tk t ns b1 in ((n, ok) # rs, b2))"

definition granted :: "(int \<times> bool) list \<Rightarrow> int" where
  "granted rs = sum_list (map fst (filter snd rs))"

locale token_bucket =
  fixes invar :: "'b \<Rightarrow> bool" and level :: "'b \<Rightarrow> rat" and capacity_of :: "'b \<Rightarrow> rat"
    and last_time :: "'b \<Rightarrow> gtime" and cost_ok :: "int \<Rightarrow> bool"
    and take_tokens :: "gtime \<Rightarrow> int \<Rightarrow> 'b \<Rightarrow> bool \<times> 'b"
  assumes level_bounds: "invar b \<Longrightarrow> 0 \<le> level b \<and> level b \<le> capacity_of b"
    and take_invar: "invar b \<Longrightarrow> last_time b \<le> t \<Longrightarrow> cost_ok n \<Longrightarrow> take_tokens t n b = (ok, b') \<Longrightarrow>
      invar b' \<and> last_time b' = t \<and> capacity_of b' = capacity_of b"
    and take_now: "invar b \<Longrightarrow> cost_ok n \<Longrightarrow> take_tokens (last_time b) n b = (ok, b') \<Longrightarrow>
      ok = (of_int n \<le> level b) \<and> level b' = (if ok then level b - of_int n else level b)"
begin

lemma take_all_conserves:
  "invar b \<Longrightarrow> last_time b = t \<Longrightarrow> \<forall>n \<in> set ns. cost_ok n \<Longrightarrow> take_all take_tokens t ns b = (rs, b') \<Longrightarrow>
   invar b' \<and> last_time b' = t \<and> level b' = level b - of_int (granted rs)"
proof (induction ns arbitrary: b rs b')
  case (Cons n ns)
  obtain ok b1 where b1: "take_tokens t n b = (ok, b1)" by fastforce
  obtain rs' b2 where b2: "take_all take_tokens t ns b1 = (rs', b2)" by fastforce
  have b1_ok: "invar b1" "last_time b1 = t" using take_invar [OF Cons.prems(1) _ _ b1] Cons.prems by auto
  have "level b1 = (if ok then level b - of_int n else level b)"
    using take_now [OF Cons.prems(1)] b1 Cons.prems by auto
  with Cons.IH [OF b1_ok _ b2] Cons.prems b1 b2 show ?case by (auto simp: granted_def)
qed (auto simp: granted_def)

text \<open>A burst never gets more than the bucket held, however many requests it has.\<close>

lemma burst_bound:
  assumes "invar b" and "last_time b = t" and "\<forall>n \<in> set ns. cost_ok n" and "take_all take_tokens t ns b = (rs, b')"
  shows "of_int (granted rs) \<le> level b" and "of_int (granted rs) \<le> capacity_of b"
  using take_all_conserves [OF assms] level_bounds [of b'] level_bounds [OF assms(1)] by auto

text \<open>Of requests for one token each, the first as many as the bucket holds whole tokens are granted.\<close>

lemma burst_exact:
  assumes "cost_ok 1"
  shows "invar b \<Longrightarrow> last_time b = t \<Longrightarrow>
    fst (take_all take_tokens t (replicate k 1) b) =
      (let g = min k (nat \<lfloor>level b\<rfloor>) in replicate g (1, True) @ replicate (k - g) (1, False))"
proof (induction k arbitrary: b)
  case (Suc k)
  obtain ok b1 where b1: "take_tokens t 1 b = (ok, b1)" by fastforce
  have inv1: "invar b1" "last_time b1 = t" using take_invar [OF Suc.prems(1) _ assms b1] Suc.prems(2) by auto
  have ok: "ok \<longleftrightarrow> 1 \<le> level b" "level b1 = (if ok then level b - 1 else level b)"
    using take_now [OF Suc.prems(1) assms] b1 Suc.prems(2) by auto
  have rest: "fst (take_all take_tokens t (replicate (Suc k) 1) b) = (1, ok) # fst (take_all take_tokens t (replicate k 1) b1)"
    by (simp add: b1 split_beta)
  show ?case
  proof (cases "1 \<le> level b")
    case True
    then have "nat \<lfloor>level b\<rfloor> = Suc (nat \<lfloor>level b1\<rfloor>)" using ok by (simp add: le_floor_iff Suc_nat_eq_nat_zadd1)
    with rest Suc.IH [OF inv1] ok True show ?thesis by (simp add: Let_def)
  next
    case False
    then have "nat \<lfloor>level b\<rfloor> = 0" using level_bounds [OF Suc.prems(1)] by (simp add: floor_le_iff not_le)
    with rest Suc.IH [OF inv1] ok False show ?thesis by (simp add: Let_def)
  qed
qed simp

end


section \<open>The limiter of the inference gateway\<close>

record TokenBucket =
  tb_rate :: rat
  tb_capacity :: rat
  tb_tokens :: rat
  tb_lastRefill :: gtime

definition NewTokenBucket :: "gtime \<Rightarrow> int \<Rightarrow> TokenBucket" where
  "NewTokenBucket now rps =
     (let cap = (if f64 (of_int rps) < 1 then 1 else f64 (of_int rps))
      in \<lparr>tb_rate = cap, tb_capacity = f64 (cap * 2), tb_tokens = cap, tb_lastRefill = now\<rparr>)"

definition TokenBucket_refill :: "gtime \<Rightarrow> TokenBucket \<Rightarrow> TokenBucket" where
  "TokenBucket_refill now tb =
     (let elapsed = Seconds (time_Sub now (tb_lastRefill tb));
          toks = f64 (tb_tokens tb + f64 (elapsed * tb_rate tb))
      in tb\<lparr>tb_tokens := (if toks > tb_capacity tb then tb_capacity tb else toks), tb_lastRefill := now\<rparr>)"

definition TokenBucket_Allow :: "gtime \<Rightarrow> TokenBucket \<Rightarrow> bool \<times> TokenBucket" where
  "TokenBucket_Allow now tb =
     (let tb1 = TokenBucket_refill now tb
      in if tb_tokens tb1 \<ge> 1 then (True, tb1\<lparr>tb_tokens := f64 (tb_tokens tb1 - 1)\<rparr>) else (False, tb1))"

record RateLimiterRegistry =
  rl_limiters :: "string \<rightharpoonup> TokenBucket"
  rl_defaultRPS :: int
  rl_modelRPS :: "string \<rightharpoonup> int"

definition NewRateLimiterRegistry :: "int \<Rightarrow> (string \<rightharpoonup> int) \<Rightarrow> RateLimiterRegistry" where
  "NewRateLimiterRegistry defaultRPS modelRPS =
     \<lparr>rl_limiters = Map.empty, rl_defaultRPS = defaultRPS, rl_modelRPS = modelRPS\<rparr>"

text \<open>A bucket is made at the first request for its model, at the instant \<open>now0\<close>.\<close>

definition Registry_Allow ::
  "gtime \<Rightarrow> gtime \<Rightarrow> RateLimiterRegistry \<Rightarrow> string \<Rightarrow> bool \<times> RateLimiterRegistry" where
  "Registry_Allow now0 now r modelName =
     (let limiter =
            (case rl_limiters r modelName of
               Some limiter \<Rightarrow> limiter
             | None \<Rightarrow>
                 (let rps = (case rl_modelRPS r modelName of Some custom \<Rightarrow> custom | None \<Rightarrow> rl_defaultRPS r)
                  in NewTokenBucket now0 rps));
          (ok, limiter') = TokenBucket_Allow now limiter
      in (ok, r\<lparr>rl_limiters := (rl_limiters r)(modelName \<mapsto> limiter')\<rparr>))"

definition TokenBucket_ok :: "TokenBucket \<Rightarrow> bool" where
  "TokenBucket_ok tb \<longleftrightarrow>
     1 \<le> tb_rate tb \<and> is_f64 (tb_rate tb) \<and> 2 \<le> tb_capacity tb \<and> tb_capacity tb < 2 ^ 53 \<and>
     is_f64 (tb_capacity tb) \<and> is_f64 (tb_tokens tb) \<and> 0 \<le> tb_tokens tb \<and> tb_tokens tb \<le> tb_capacity tb"

lemma is_f64_small [simp]: "is_f64 1" "is_f64 2" "is_f64 0"
  using is_f64_of_int [of 1] is_f64_of_int [of 2] by (simp_all add: is_f64_def)

lemma NewTokenBucket_ok:
  assumes "rps < 2 ^ 52"
  shows "TokenBucket_ok (NewTokenBucket now rps)"
proof -
  have int: "f64 (of_int rps) = of_int rps \<and> f64 (of_int rps * 2) = of_int rps * 2" if "1 \<le> rps"
    using f64_of_int [of rps] f64_of_int [of "rps * 2"] assms that by simp
  have low: "f64 (of_int rps) < 1" if "rps < 1"
    using that f64_mono [of "of_int rps" 0] by (simp add: f64_0)
  have "rps * 2 < 2 ^ 53" using assms by simp
  then have "(of_int (rps * 2) :: rat) < of_int (2 ^ 53)" by (simp only: of_int_less_iff)
  then have "of_int rps * 2 < (2 :: rat) ^ 53" by simp
  then show ?thesis
    using int low is_f64_f64 [of "of_int rps"] is_f64_f64 [of "of_int rps * 2"] is_f64_small(1,2)
    by (cases "rps < 1") (simp_all add: NewTokenBucket_def TokenBucket_ok_def Let_def is_f64_def)
qed

lemma refill_bounds:
  assumes "TokenBucket_ok tb" and "tb_lastRefill tb \<le> now"
  shows "TokenBucket_ok (TokenBucket_refill now tb)"
    and "tb_tokens tb \<le> tb_tokens (TokenBucket_refill now tb)"
proof -
  let ?add = "f64 (Seconds (time_Sub now (tb_lastRefill tb)) * tb_rate tb)"
  have "0 \<le> time_Sub now (tb_lastRefill tb)" using assms(2) by (simp add: time_Sub_def)
  then have "0 \<le> ?add"
    using assms(1) by (intro f64_nonneg mult_nonneg_nonneg Seconds_nonneg) (simp_all add: TokenBucket_ok_def)
  then have ge: "tb_tokens tb \<le> f64 (tb_tokens tb + ?add)"
    using assms(1) by (intro f64_ge_f64) (simp_all add: TokenBucket_ok_def)
  then show "tb_tokens tb \<le> tb_tokens (TokenBucket_refill now tb)"
    using assms(1) by (simp add: TokenBucket_refill_def TokenBucket_ok_def Let_def)
  show "TokenBucket_ok (TokenBucket_refill now tb)"
    using assms(1) ge by (auto simp: TokenBucket_refill_def TokenBucket_ok_def Let_def)
qed

lemma refill_now:
  assumes "TokenBucket_ok tb"
  shows "TokenBucket_refill (tb_lastRefill tb) tb = tb"
  using assms by (simp add: TokenBucket_refill_def TokenBucket_ok_def time_Sub_def Seconds_def quot_def is_f64_def)

lemma refill_last [simp]: "tb_lastRefill (TokenBucket_refill now tb) = now"
  and refill_capacity [simp]: "tb_capacity (TokenBucket_refill now tb) = tb_capacity tb"
  and refill_rate [simp]: "tb_rate (TokenBucket_refill now tb) = tb_rate tb"
  by (simp_all add: TokenBucket_refill_def Let_def)

lemma TokenBucket_sub:
  assumes "TokenBucket_ok tb" and "1 \<le> tb_tokens tb"
  shows "f64 (tb_tokens tb - 1) = tb_tokens tb - 1" and "TokenBucket_ok (tb\<lparr>tb_tokens := tb_tokens tb - 1\<rparr>)"
proof -
  show *: "f64 (tb_tokens tb - 1) = tb_tokens tb - 1"
    using f64_sub_int [of "tb_tokens tb" 1] assms by (simp add: TokenBucket_ok_def)
  then show "TokenBucket_ok (tb\<lparr>tb_tokens := tb_tokens tb - 1\<rparr>)"
    using assms by (simp add: TokenBucket_ok_def is_f64_def)
qed

lemma TokenBucket_Allow_spec:
  assumes "TokenBucket_ok tb" and "tb_lastRefill tb \<le> now" and "TokenBucket_Allow now tb = (ok, tb')"
  shows "TokenBucket_ok tb'" and "tb_lastRefill tb' = now" and "tb_capacity tb' = tb_capacity tb"
    and "ok = (1 \<le> tb_tokens (TokenBucket_refill now tb))"
    and "tb_tokens tb' = tb_tokens (TokenBucket_refill now tb) - (if ok then 1 else 0)"
proof -
  let ?tb = "TokenBucket_refill now tb"
  note okr = refill_bounds(1) [OF assms(1,2)]
  show "TokenBucket_ok tb'" "tb_lastRefill tb' = now" "tb_capacity tb' = tb_capacity tb"
    "ok = (1 \<le> tb_tokens ?tb)" "tb_tokens tb' = tb_tokens ?tb - (if ok then 1 else 0)"
    using assms(3) okr TokenBucket_sub [OF okr] by (auto simp: TokenBucket_Allow_def Let_def split: if_splits)
qed

text \<open>A second without traffic always lets the next request through.\<close>

lemma Seconds_ge:
  assumes "0 < n" and "n < 2 ^ 53" and "n * 10 ^ 9 \<le> d"
  shows "of_int n \<le> Seconds d"
proof -
  have "0 < n * 10 ^ 9" using assms(1) by simp
  with assms(3) have d: "0 < d" by linarith
  then have q: "quot d (10 ^ 9) = d div 10 ^ 9" by (simp add: quot_def)
  have "n * 10 ^ 9 div 10 ^ 9 \<le> d div (10 ^ 9 :: int)" using assms(3) by (intro zdiv_mono1) simp_all
  then have n: "n \<le> d div 10 ^ 9" by simp
  have f: "is_f64 (of_int n)" using assms(1,2) by (intro is_f64_of_int) simp
  from n have "of_int n \<le> f64 (of_int (quot d (10 ^ 9)))" unfolding q by (intro f64_ge_f64 f) simp
  moreover have "0 \<le> d - quot d (10 ^ 9) * 10 ^ 9" unfolding q by (simp add: minus_div_mult_eq_mod)
  then have "0 \<le> f64 (f64 (of_int (d - quot d (10 ^ 9) * 10 ^ 9)) / 10 ^ 9)"
    by (intro f64_nonneg divide_nonneg_nonneg) simp_all
  ultimately show ?thesis by (auto simp: Seconds_def Let_def intro!: f64_ge_f64 f)
qed

lemmas Seconds_ge_1 = Seconds_ge [of 1, simplified]

lemma TokenBucket_refill_second:
  assumes "TokenBucket_ok tb" and "tb_lastRefill tb + 10 ^ 9 \<le> now"
  shows "1 \<le> tb_tokens (TokenBucket_refill now tb)"
proof -
  let ?e = "Seconds (time_Sub now (tb_lastRefill tb))"
  have "1 \<le> ?e" using assms(2) by (intro Seconds_ge_1) (simp add: time_Sub_def)
  with assms(1) have "1 * 1 \<le> ?e * tb_rate tb" by (intro mult_mono) (simp_all add: TokenBucket_ok_def)
  then have "1 \<le> f64 (?e * tb_rate tb)" by (intro f64_ge_f64) simp_all
  with assms(1) have "1 \<le> f64 (tb_tokens tb + f64 (?e * tb_rate tb))"
    by (intro f64_ge_f64) (simp_all add: TokenBucket_ok_def)
  with assms(1) show ?thesis by (simp add: TokenBucket_refill_def TokenBucket_ok_def Let_def)
qed

text \<open>Two seconds fill a bucket of the gateway, whose capacity is twice its rate.\<close>

lemma TokenBucket_refill_full:
  assumes "TokenBucket_ok tb" and "tb_capacity tb = 2 * tb_rate tb" and "tb_lastRefill tb + 2 * 10 ^ 9 \<le> now"
  shows "tb_tokens (TokenBucket_refill now tb) = tb_capacity tb"
proof -
  let ?e = "Seconds (time_Sub now (tb_lastRefill tb))"
  have cap: "is_f64 (tb_capacity tb)" using assms(1) by (simp add: TokenBucket_ok_def)
  have "2 \<le> ?e" using Seconds_ge [of 2 "time_Sub now (tb_lastRefill tb)"] assms(3) by (simp add: time_Sub_def)
  then have "tb_capacity tb \<le> ?e * tb_rate tb"
    unfolding assms(2) using assms(1) by (intro mult_right_mono) (simp_all add: TokenBucket_ok_def)
  then have "tb_capacity tb \<le> f64 (?e * tb_rate tb)" by (rule f64_ge_f64 [OF _ cap])
  with assms(1) have "tb_capacity tb \<le> f64 (tb_tokens tb + f64 (?e * tb_rate tb))"
    by (intro f64_ge_f64 [OF _ cap]) (simp add: TokenBucket_ok_def)
  then show ?thesis by (auto simp: TokenBucket_refill_def Let_def)
qed

lemma TokenBucket_bounds: "TokenBucket_ok tb \<Longrightarrow> 0 \<le> tb_tokens tb \<and> tb_tokens tb \<le> tb_capacity tb"
  by (simp add: TokenBucket_ok_def)

interpretation gateway_bucket: token_bucket TokenBucket_ok tb_tokens tb_capacity tb_lastRefill
  "\<lambda>n. n = 1" "\<lambda>t n. TokenBucket_Allow t"
proof unfold_locales
  fix b ok b' and n :: int
  assume "TokenBucket_ok b" and "n = 1" and a: "TokenBucket_Allow (tb_lastRefill b) b = (ok, b')"
  with TokenBucket_Allow_spec [OF \<open>TokenBucket_ok b\<close> order_refl a]
  show "ok = (of_int n \<le> tb_tokens b) \<and> tb_tokens b' = (if ok then tb_tokens b - of_int n else tb_tokens b)"
    by (simp add: refill_now)
qed (use TokenBucket_bounds in blast, use TokenBucket_Allow_spec(1-3) in metis)

section \<open>The rate limiter of the telemetry pipeline\<close>

record Ratelimit_Config =
  cfg_TraceRatePerSec :: rat
  cfg_MetricRatePerSec :: rat
  cfg_BurstMultiplier :: rat

definition Ratelimit_DefaultConfig :: Ratelimit_Config where
  "Ratelimit_DefaultConfig =
     \<lparr>cfg_TraceRatePerSec = 10000, cfg_MetricRatePerSec = 50000, cfg_BurstMultiplier = 2\<rparr>"

record tokenBucket =
  bk_tokens :: rat
  bk_maxTokens :: rat
  bk_rate :: rat
  bk_lastTime :: gtime

definition newBucket :: "gtime \<Rightarrow> rat \<Rightarrow> rat \<Rightarrow> tokenBucket" where
  "newBucket now ratePerSec burstMultiplier =
     (let mx = f64 (ratePerSec * burstMultiplier)
      in \<lparr>bk_tokens = mx, bk_maxTokens = mx, bk_rate = ratePerSec, bk_lastTime = now\<rparr>)"

definition tryConsume :: "gtime \<Rightarrow> int \<Rightarrow> tokenBucket \<Rightarrow> bool \<times> tokenBucket" where
  "tryConsume now n b =
     (let elapsed = Seconds (time_Sub now (bk_lastTime b));
          refilled = f64 (bk_tokens b + f64 (elapsed * bk_rate b));
          toks = (if refilled > bk_maxTokens b then bk_maxTokens b else refilled);
          b1 = b\<lparr>bk_lastTime := now, bk_tokens := toks\<rparr>;
          cost = f64 (of_int n)
      in if toks < cost then (False, b1) else (True, b1\<lparr>bk_tokens := f64 (toks - cost)\<rparr>))"

record Ratelimit =
  rp_traceBucket :: tokenBucket
  rp_metricBucket :: tokenBucket

definition Ratelimit_New :: "gtime \<Rightarrow> gtime \<Rightarrow> Ratelimit_Config \<Rightarrow> Ratelimit" where
  "Ratelimit_New t1 t2 cfg =
     \<lparr>rp_traceBucket = newBucket t1 (cfg_TraceRatePerSec cfg) (cfg_BurstMultiplier cfg),
      rp_metricBucket = newBucket t2 (cfg_MetricRatePerSec cfg) (cfg_BurstMultiplier cfg)\<rparr>"

definition Ratelimit_UpdateConfig :: "gtime \<Rightarrow> gtime \<Rightarrow> Ratelimit_Config \<Rightarrow> Ratelimit \<Rightarrow> Ratelimit" where
  "Ratelimit_UpdateConfig t1 t2 cfg p =
     p\<lparr>rp_traceBucket := newBucket t1 (cfg_TraceRatePerSec cfg) (cfg_BurstMultiplier cfg),
       rp_metricBucket := newBucket t2 (cfg_MetricRatePerSec cfg) (cfg_BurstMultiplier cfg)\<rparr>"

definition tokenBucket_ok :: "tokenBucket \<Rightarrow> bool" where
  "tokenBucket_ok b \<longleftrightarrow>
     0 \<le> bk_rate b \<and> bk_maxTokens b < 2 ^ 53 \<and> is_f64 (bk_maxTokens b) \<and> is_f64 (bk_tokens b) \<and>
     0 \<le> bk_tokens b \<and> bk_tokens b \<le> bk_maxTokens b"

definition span_count_ok :: "int \<Rightarrow> bool" where
  "span_count_ok n \<longleftrightarrow> 0 \<le> n \<and> n < 2 ^ 53"

lemma newBucket_ok:
  "0 \<le> r \<Longrightarrow> 0 \<le> m \<Longrightarrow> f64 (r * m) < 2 ^ 53 \<Longrightarrow> tokenBucket_ok (newBucket now r m)"
  by (simp add: newBucket_def tokenBucket_ok_def Let_def f64_nonneg)

lemma tryConsume_spec:
  assumes "tokenBucket_ok b" and "bk_lastTime b \<le> now" and "span_count_ok n" and "tryConsume now n b = (ok, b')"
  defines "toks \<equiv> min (bk_maxTokens b) (f64 (bk_tokens b + f64 (Seconds (time_Sub now (bk_lastTime b)) * bk_rate b)))"
  shows "tokenBucket_ok b'" and "bk_lastTime b' = now" and "bk_maxTokens b' = bk_maxTokens b"
    and "ok = (of_int n \<le> toks)" and "bk_tokens b' = toks - (if ok then of_int n else 0)"
    and "bk_tokens b \<le> toks"
proof -
  let ?add = "f64 (Seconds (time_Sub now (bk_lastTime b)) * bk_rate b)"
  have "0 \<le> time_Sub now (bk_lastTime b)" using assms(2) by (simp add: time_Sub_def)
  then have "0 \<le> ?add"
    using assms(1) by (intro f64_nonneg mult_nonneg_nonneg Seconds_nonneg) (simp_all add: tokenBucket_ok_def)
  then have "bk_tokens b \<le> f64 (bk_tokens b + ?add)"
    using assms(1) by (intro f64_ge_f64) (simp_all add: tokenBucket_ok_def)
  then show le: "bk_tokens b \<le> toks" using assms(1) by (simp add: toks_def tokenBucket_ok_def)
  have t: "is_f64 toks" "0 \<le> toks" "toks \<le> bk_maxTokens b" "toks < 2 ^ 53"
    using assms(1) le by (auto simp: toks_def tokenBucket_ok_def min_def)
  have cost: "f64 (of_int n) = of_int n" using assms(3) by (intro f64_of_int) (simp add: span_count_ok_def)
  have exact: "f64 (toks - of_int n) = toks - of_int n" if "of_int n \<le> toks"
    using t that assms(3) by (intro f64_sub_int) (simp_all add: span_count_ok_def)
  have toks: "(if f64 (bk_tokens b + ?add) > bk_maxTokens b then bk_maxTokens b else f64 (bk_tokens b + ?add)) = toks"
    by (simp add: toks_def min_def)
  have r: "tryConsume now n b =
      (if toks < of_int n then (False, b\<lparr>bk_lastTime := now, bk_tokens := toks\<rparr>)
       else (True, b\<lparr>bk_lastTime := now, bk_tokens := f64 (toks - of_int n)\<rparr>))"
    unfolding tryConsume_def Let_def toks cost by simp
  have "0 \<le> n" using assms(3) by (simp add: span_count_ok_def)
  with assms(1,4) r t exact is_f64_f64 [of "toks - of_int n"]
  show "tokenBucket_ok b'" "bk_lastTime b' = now" "bk_maxTokens b' = bk_maxTokens b"
    "ok = (of_int n \<le> toks)" "bk_tokens b' = toks - (if ok then of_int n else 0)"
    by (auto simp: tokenBucket_ok_def is_f64_def split: if_splits)
qed

lemma tryConsume_now:
  assumes "tokenBucket_ok b"
  shows "min (bk_maxTokens b) (f64 (bk_tokens b + f64 (Seconds (time_Sub (bk_lastTime b) (bk_lastTime b)) * bk_rate b))) =
    bk_tokens b"
  using assms by (simp add: tokenBucket_ok_def time_Sub_def Seconds_def quot_def is_f64_def)

lemma tokenBucket_bounds: "tokenBucket_ok b \<Longrightarrow> 0 \<le> bk_tokens b \<and> bk_tokens b \<le> bk_maxTokens b"
  by (simp add: tokenBucket_ok_def)

interpretation pipeline_bucket: token_bucket tokenBucket_ok bk_tokens bk_maxTokens bk_lastTime
  span_count_ok tryConsume
proof unfold_locales
  fix b ok b' n
  assume b: "tokenBucket_ok b" and "span_count_ok n" and "tryConsume (bk_lastTime b) n b = (ok, b')"
  from tryConsume_spec(4,5) [OF b order_refl this(2,3)]
  show "ok = (of_int n \<le> bk_tokens b) \<and> bk_tokens b' = (if ok then bk_tokens b - of_int n else bk_tokens b)"
    unfolding tryConsume_now [OF b] by simp
qed (use tokenBucket_bounds in blast, use tryConsume_spec(1-3) in metis)

section \<open>Properties\<close>

text \<open>What a bucket has become after requests at the given instants.\<close>

definition after_requests :: "gtime list \<Rightarrow> TokenBucket \<Rightarrow> TokenBucket" where
  "after_requests ts tb = fold (\<lambda>t tb. snd (TokenBucket_Allow t tb)) ts tb"

lemma after_requests_ok:
  "TokenBucket_ok tb \<Longrightarrow> sorted (tb_lastRefill tb # ts) \<Longrightarrow>
   TokenBucket_ok (after_requests ts tb) \<and> tb_lastRefill (after_requests ts tb) = last (tb_lastRefill tb # ts) \<and>
   tb_capacity (after_requests ts tb) = tb_capacity tb \<and> tb_rate (after_requests ts tb) = tb_rate tb"
proof (induction ts arbitrary: tb)
  case (Cons t ts)
  obtain ok tb' where a: "TokenBucket_Allow t tb = (ok, tb')" by fastforce
  have le: "tb_lastRefill tb \<le> t" using Cons.prems(2) by simp
  note sp = TokenBucket_Allow_spec [OF Cons.prems(1) le a]
  have "tb_rate tb' = tb_rate tb" using a by (auto simp: TokenBucket_Allow_def Let_def split: if_splits)
  with Cons.IH [OF sp(1)] Cons.prems(2) sp(2,3) a show ?case by (simp add: after_requests_def)
qed (simp add: after_requests_def)

text \<open>The requests of a burst see the bucket as its first request has refilled it.\<close>

lemma burst_refills:
  assumes "TokenBucket_ok tb" and "tb_lastRefill tb \<le> t"
  shows "fst (take_all (\<lambda>t n. TokenBucket_Allow t) t ns tb) = fst (take_all (\<lambda>t n. TokenBucket_Allow t) t ns (TokenBucket_refill t tb))"
proof (cases ns)
  case (Cons n ns')
  have "TokenBucket_Allow t (TokenBucket_refill t tb) = TokenBucket_Allow t tb"
    using refill_now [OF refill_bounds(1) [OF assms]] by (simp add: TokenBucket_Allow_def)
  with Cons show ?thesis by simp
qed simp

lemma NewTokenBucket_fields:
  assumes "rps < 2 ^ 52"
  shows "tb_lastRefill (NewTokenBucket now rps) = now" and "tb_rate (NewTokenBucket now rps) = of_int (max 1 rps)"
    and "tb_capacity (NewTokenBucket now rps) = of_int (2 * max 1 rps)"
proof -
  have "f64 (of_int rps) < 1" if "rps < 1" using that f64_mono [of "of_int rps" 0] by simp
  moreover have "f64 (of_int rps) = of_int rps \<and> f64 (of_int rps * 2) = of_int rps * 2" if "1 \<le> rps"
    using f64_of_int [of rps] f64_of_int [of "rps * 2"] assms that by simp
  moreover have "f64 2 = 2" using f64_of_int [of 2] by simp
  ultimately show "tb_lastRefill (NewTokenBucket now rps) = now" "tb_rate (NewTokenBucket now rps) = of_int (max 1 rps)"
      "tb_capacity (NewTokenBucket now rps) = of_int (2 * max 1 rps)"
    by (cases "rps < 1"; simp add: NewTokenBucket_def Let_def max_def)+
qed

text \<open>
  Property C32. Bursts of the gateway. Whatever requests a bucket has served since it was made,
  of any number of requests that arrive at one later instant it grants the first ones and no
  more than twice the configured rate, and exactly that many, or all, when the bucket has been
  idle for two seconds or longer. A rate below one counts as one.
\<close>

theorem gateway_burst:
  assumes "rps < 2 ^ 52" and "sorted (t0 # ts @ [t])"
  shows "\<exists>g. map snd (fst (take_all (\<lambda>t n. TokenBucket_Allow t) t (replicate k 1) (after_requests ts (NewTokenBucket t0 rps)))) =
      replicate g True @ replicate (k - g) False \<and>
    int g \<le> 2 * max 1 rps \<and> (last (t0 # ts) + 2 * 10 ^ 9 \<le> t \<longrightarrow> int g = min (int k) (2 * max 1 rps))"
proof -
  define tb where "tb = after_requests ts (NewTokenBucket t0 rps)"
  define tbr where "tbr = TokenBucket_refill t tb"
  note new = NewTokenBucket_fields [OF assms(1), of t0]
  have tb: "TokenBucket_ok tb" "tb_lastRefill tb = last (t0 # ts)" "tb_capacity tb = of_int (2 * max 1 rps)"
      "tb_rate tb = of_int (max 1 rps)"
    using after_requests_ok [OF NewTokenBucket_ok [OF assms(1)], of t0 ts] assms(2) new by (simp_all add: tb_def sorted_append)
  have le: "tb_lastRefill tb \<le> t" unfolding tb(2) using assms(2) by (auto simp: sorted_append)
  have ok: "TokenBucket_ok tbr" "tb_lastRefill tbr = t" unfolding tbr_def using refill_bounds(1) [OF tb(1) le] by simp_all
  define g where "g = min k (nat \<lfloor>tb_tokens tbr\<rfloor>)"
  have "map snd (fst (take_all (\<lambda>t n. TokenBucket_Allow t) t (replicate k 1) tb)) = replicate g True @ replicate (k - g) False"
    using gateway_bucket.burst_exact [OF refl ok, of k] burst_refills [OF tb(1) le] by (simp add: g_def tbr_def Let_def)
  moreover have "tb_tokens tbr \<le> of_int (2 * max 1 rps)" using TokenBucket_bounds [OF ok(1)] tb(3) by (simp add: tbr_def)
  then have "\<lfloor>tb_tokens tbr\<rfloor> \<le> 2 * max 1 rps" by (simp add: floor_le_iff)
  then have "int g \<le> 2 * max 1 rps" by (simp add: g_def)
  moreover have "int g = min (int k) (2 * max 1 rps)" if "last (t0 # ts) + 2 * 10 ^ 9 \<le> t"
  proof -
    have "tb_tokens tbr = of_int (2 * max 1 rps)"
      using TokenBucket_refill_full [OF tb(1) _ that [folded tb(2)]] tb(3,4) by (simp add: tbr_def)
    then have "\<lfloor>tb_tokens tbr\<rfloor> = 2 * max 1 rps" by (simp only: floor_of_int)
    then show ?thesis by (simp add: g_def)
  qed
  ultimately show ?thesis unfolding tb_def by blast
qed

theorem gateway_burst_witness:
  "map snd (fst (take_all (\<lambda>t n. TokenBucket_Allow t) (5 * 10 ^ 9) (replicate 8 1) (after_requests [0, 1, 1] (NewTokenBucket 0 3)))) =
     replicate 6 True @ replicate 2 False"
  using gateway_burst [of 3 0 "[0, 1, 1]" "5 * 10 ^ 9" 8] by auto

text \<open>
  Property C31. No model starves: the first request for a model is granted, and so is every
  request that comes at least a second after the previous one for that model, whatever the
  configured rate. A request for one model leaves the buckets of the others alone.
\<close>

theorem Registry_Allow_live:
  assumes "now0 \<le> now"
    and "case rl_limiters r m of
           None \<Rightarrow> (case rl_modelRPS r m of None \<Rightarrow> rl_defaultRPS r | Some rps \<Rightarrow> rps) < 2 ^ 52
         | Some tb \<Rightarrow> TokenBucket_ok tb \<and> tb_lastRefill tb + 10 ^ 9 \<le> now"
  shows "fst (Registry_Allow now0 now r m) \<and>
    (\<forall>m'. m' \<noteq> m \<longrightarrow> rl_limiters (snd (Registry_Allow now0 now r m)) m' = rl_limiters r m') \<and>
    (\<exists>tb. rl_limiters (snd (Registry_Allow now0 now r m)) m = Some tb \<and> TokenBucket_ok tb)"
proof -
  define tb where "tb = (case rl_limiters r m of Some limiter \<Rightarrow> limiter
     | None \<Rightarrow> NewTokenBucket now0 (case rl_modelRPS r m of Some custom \<Rightarrow> custom | None \<Rightarrow> rl_defaultRPS r))"
  obtain ok tb' where a: "TokenBucket_Allow now tb = (ok, tb')" by fastforce
  have tb: "TokenBucket_ok tb" "tb_lastRefill tb \<le> now" "1 \<le> tb_tokens (TokenBucket_refill now tb)"
  proof -
    show "TokenBucket_ok tb" "tb_lastRefill tb \<le> now"
      using assms by (auto simp: tb_def NewTokenBucket_ok split: option.splits)
        (simp_all add: NewTokenBucket_def Let_def)
    show "1 \<le> tb_tokens (TokenBucket_refill now tb)"
    proof (cases "rl_limiters r m")
      case None
      then have "1 \<le> tb_tokens tb" by (simp add: tb_def NewTokenBucket_def Let_def)
      with refill_bounds(2) [OF \<open>TokenBucket_ok tb\<close> \<open>tb_lastRefill tb \<le> now\<close>] show ?thesis by simp
    next
      case (Some limiter)
      with assms(2) \<open>TokenBucket_ok tb\<close> show ?thesis by (intro TokenBucket_refill_second) (simp_all add: tb_def)
    qed
  qed
  have "Registry_Allow now0 now r m = (ok, r\<lparr>rl_limiters := (rl_limiters r)(m \<mapsto> tb')\<rparr>)"
    using a unfolding Registry_Allow_def tb_def Let_def by (simp split: option.splits)
  with TokenBucket_Allow_spec(1,4) [OF tb(1,2) a] tb(3) show ?thesis by simp
qed

theorem Registry_Allow_live_witness:
  "fst (Registry_Allow 0 0 (NewRateLimiterRegistry 10 [''m'' \<mapsto> 0]) ''m'')"
  using Registry_Allow_live [of 0 0 "NewRateLimiterRegistry 10 [''m'' \<mapsto> 0]" "''m''"]
  by (simp add: NewRateLimiterRegistry_def)

text \<open>
  The telemetry limiter passes a payload exactly when the refilled bucket
  covers its spans, takes exactly that many tokens, and takes none from a payload it
  rejects; payloads that arrive at one instant never get more than the burst in all.
\<close>

lemma pipeline_burst:
  assumes "tokenBucket_ok b" and "list_all span_count_ok ns"
    and "take_all tryConsume (bk_lastTime b) ns b = (rs, b')"
  shows "of_int (granted rs) \<le> bk_tokens b \<and> of_int (granted rs) \<le> bk_maxTokens b \<and>
    bk_tokens b' = bk_tokens b - of_int (granted rs) \<and> tokenBucket_ok b'"
  using pipeline_bucket.burst_bound [OF assms(1) refl _ assms(3)]
    pipeline_bucket.take_all_conserves [OF assms(1) refl _ assms(3)] assms(2)
  by (simp add: list_all_iff)

end
