(* ===== verification/Gateway.thy ===== *)
theory Gateway
  imports Model Go_Sort Rate_Limit "HOL-Library.Sublist"
begin

text \<open>
  \<^verbatim>\<open>internal/gateway\<close>: the inference gateway. The health of the backends is a list with a
  flag each; a probe and a proxied request are answered by arbitrary functions for the
  network, the random source by a function that stays below its bound, and what JSON
  decoding finds in a body by functions of the body. A proxied request returns the response
  together with the backends it was sent to, in order.
\<close>

section \<open>Configuration\<close>

record Gateway_Config =
  gc_ListenAddr :: string
  gc_Backends :: "Backend list"
  gc_RateLimits :: "string \<rightharpoonup> int"
  gc_DefaultRPS :: int
  gc_RequestTimeout :: duration
  gc_HealthInterval :: duration
  gc_HealthTimeout :: duration

definition Gateway_DefaultConfig :: Gateway_Config where
  "Gateway_DefaultConfig = \<lparr>gc_ListenAddr = '':9090'', gc_Backends = [], gc_RateLimits = Map.empty,
     gc_DefaultRPS = 100, gc_RequestTimeout = 60 * 10 ^ 9, gc_HealthInterval = 10 * 10 ^ 9,
     gc_HealthTimeout = 3 * 10 ^ 9\<rparr>"

section \<open>Health checking\<close>

record HealthChecker =
  hc_backends :: "Backend list"
  hc_interval :: duration
  hc_timeout :: duration

definition NewHealthChecker :: "Backend list \<Rightarrow> duration \<Rightarrow> duration \<Rightarrow> HealthChecker" where
  "NewHealthChecker backends interval timeout =
     \<lparr>hc_backends = backends, hc_interval = interval, hc_timeout = timeout\<rparr>"

definition GetHealthyBackends :: "HealthChecker \<Rightarrow> Backend list" where
  "GetHealthyBackends hc = filter Backend_Healthy (hc_backends hc)"

definition GetAllBackends :: "HealthChecker \<Rightarrow> Backend list" where
  "GetAllBackends hc = hc_backends hc"

text \<open>\<open>get\<close> answers a GET with the status, or \<open>None\<close> for a transport error.\<close>

definition probe :: "(string \<Rightarrow> int option) \<Rightarrow> string \<Rightarrow> bool" where
  "probe get endpoint =
     (case get (endpoint @ ''/health'') of None \<Rightarrow> False | Some code \<Rightarrow> code = 200)"

text \<open>
  \<^verbatim>\<open>probeAll\<close> starts a goroutine per backend and waits for all of them. Each one writes
  the flag of its own index under the lock, so the writes happen in some order of the
  indexes.
\<close>

definition probe_write :: "(string \<Rightarrow> int option) \<Rightarrow> Backend list \<Rightarrow> nat \<Rightarrow> Backend list" where
  "probe_write get bs idx = bs[idx := (bs ! idx)\<lparr>Backend_Healthy := probe get (Backend_Endpoint (bs ! idx))\<rparr>]"

definition probeAll :: "(string \<Rightarrow> int option) \<Rightarrow> nat list \<Rightarrow> HealthChecker \<Rightarrow> HealthChecker" where
  "probeAll get order hc = hc\<lparr>hc_backends := foldl (probe_write get) (hc_backends hc) order\<rparr>"

lemma probe_writes_nth:
  "distinct order \<Longrightarrow> \<forall>i \<in> set order. i < length bs \<Longrightarrow>
   length (foldl (probe_write get) bs order) = length bs \<and>
   (\<forall>i < length bs. foldl (probe_write get) bs order ! i =
      (if i \<in> set order then (bs ! i)\<lparr>Backend_Healthy := probe get (Backend_Endpoint (bs ! i))\<rparr> else bs ! i))"
proof (induction order arbitrary: bs)
  case (Cons k order)
  have len: "length (probe_write get bs k) = length bs" by (simp add: probe_write_def)
  from Cons.IH [of "probe_write get bs k"] Cons.prems show ?case
    by (auto simp: len) (auto simp: probe_write_def nth_list_update)
qed simp

lemma probeAll_any_order:
  assumes "mset order = mset [0..<length (hc_backends hc)]"
  shows "hc_backends (probeAll get order hc) =
    map (\<lambda>b. b\<lparr>Backend_Healthy := probe get (Backend_Endpoint b)\<rparr>) (hc_backends hc)"
proof -
  have "distinct order" using assms by (metis distinct_upt mset_eq_imp_distinct_iff)
  moreover have "set order = {0..<length (hc_backends hc)}" using assms by (metis atLeastLessThan_upt mset_eq_setD)
  ultimately show ?thesis
    using probe_writes_nth [of order "hc_backends hc" get]
    by (intro nth_equalityI) (auto simp: probeAll_def)
qed

section \<open>Choosing backends\<close>

definition shuffle_step :: "(nat \<Rightarrow> nat \<Rightarrow> nat) \<Rightarrow> Backend list \<Rightarrow> nat \<Rightarrow> Backend list" where
  "shuffle_step intn bs i =
     (let j = i + intn i (length bs - i)
      in if Backend_Weight (bs ! j) > Backend_Weight (bs ! i) then swap bs i j else bs)"

definition weightedShuffle :: "(nat \<Rightarrow> nat \<Rightarrow> nat) \<Rightarrow> Backend list \<Rightarrow> Backend list" where
  "weightedShuffle intn bs =
     (if length bs \<le> 1 then bs else foldl (shuffle_step intn) bs [0..<length bs])"

definition intn_ok :: "(nat \<Rightarrow> nat \<Rightarrow> nat) \<Rightarrow> bool" where
  "intn_ok intn \<longleftrightarrow> (\<forall>i n. 0 < n \<longrightarrow> intn i n < n)"

definition findBackends :: "(nat \<Rightarrow> nat \<Rightarrow> nat) \<Rightarrow> HealthChecker \<Rightarrow> string \<Rightarrow> Backend list" where
  "findBackends intn hc modelName =
     weightedShuffle intn (filter (\<lambda>b. SupportsModel b modelName) (GetHealthyBackends hc))"

lemma intn_bound: "intn_ok intn \<Longrightarrow> i < n \<Longrightarrow> i + intn i (n - i) < n"
  unfolding intn_ok_def by (metis add.commute less_diff_conv zero_less_diff)

lemma shuffle_step_perm:
  "intn_ok intn \<Longrightarrow> i < length bs \<Longrightarrow>
   mset (shuffle_step intn bs i) = mset bs \<and> length (shuffle_step intn bs i) = length bs"
  by (auto simp: shuffle_step_def intn_bound Let_def intro!: mset_swap_nth)

lemma shuffle_perm:
  "intn_ok intn \<Longrightarrow> \<forall>i \<in> set is. i < length bs \<Longrightarrow>
   mset (foldl (shuffle_step intn) bs is) = mset bs \<and> length (foldl (shuffle_step intn) bs is) = length bs"
proof (induction "is" arbitrary: bs)
  case (Cons i "is")
  then show ?case using shuffle_step_perm [of intn i bs] by auto
qed simp

lemma mset_weightedShuffle: "intn_ok intn \<Longrightarrow> mset (weightedShuffle intn bs) = mset bs"
  using shuffle_perm [of intn "[0..<length bs]" bs] by (auto simp: weightedShuffle_def)

lemma shuffle_equal_weights:
  "intn_ok intn \<Longrightarrow> \<forall>b \<in> set bs. Backend_Weight b = wt \<Longrightarrow> \<forall>i \<in> set is. i < length bs \<Longrightarrow>
   foldl (shuffle_step intn) bs is = bs"
proof (induction "is")
  case (Cons i "is")
  then have "i + intn i (length bs - i) < length bs" by (simp add: intn_bound)
  with Cons have "shuffle_step intn bs i = bs" by (auto simp: shuffle_step_def Let_def)
  with Cons show ?case by simp
qed simp

lemma findBackends_set:
  assumes "intn_ok intn"
  shows "set (findBackends intn hc m) = {b \<in> set (hc_backends hc). Backend_Healthy b \<and> m \<in> set (Backend_Models b)}"
  using arg_cong [OF mset_weightedShuffle [OF assms], of set_mset]
  by (auto simp: findBackends_def GetHealthyBackends_def SupportsModel_iff)

section \<open>Proxying\<close>

type_synonym Header = "string \<rightharpoonup> string list"

definition ToLower :: "string \<Rightarrow> string" where
  "ToLower s = map (\<lambda>c. if 65 \<le> (of_char c :: nat) \<and> (of_char c :: nat) \<le> 90 then char_of ((of_char c :: nat) + 32) else c) s"

definition header_values :: "Header \<Rightarrow> string \<Rightarrow> string list" where
  "header_values h k = (case h k of None \<Rightarrow> [] | Some vs \<Rightarrow> vs)"

definition copyHeaders :: "Header \<Rightarrow> Header \<Rightarrow> Header" where
  "copyHeaders dst src =
     (\<lambda>k. if ToLower k = ''host'' \<or> ToLower k = ''content-length'' then dst k
          else if header_values src k = [] then dst k
          else Some (header_values dst k @ header_values src k))"

record ProxyRequest =
  pr_URL :: string
  pr_Body :: string
  pr_Header :: Header

text \<open>
  The reply to a proxied request; building the request can fail as well. The body of an
  answer is given by what the successive reads of it return before they end.
\<close>

datatype upstream = RequestError | ResponseError | Upstream int Header "string list"

datatype gateway_response =
    GatewayError int string
  | Forwarded int Header string
  | Streamed int Header "string list"
  | GatewayStatus string nat nat
  | BackendList "Backend list"

fun tryBackends ::
  "(Backend \<Rightarrow> ProxyRequest \<Rightarrow> upstream) \<Rightarrow> (Backend \<Rightarrow> ProxyRequest) \<Rightarrow> Backend list \<Rightarrow>
   upstream option \<times> Backend list" where
  "tryBackends do_request build [] = (None, [])"
| "tryBackends do_request build (b # bs) =
     (case do_request b (build b) of
        RequestError \<Rightarrow> tryBackends do_request build bs
      | ResponseError \<Rightarrow> (case tryBackends do_request build bs of (r, sent) \<Rightarrow> (r, b # sent))
      | Upstream code hdr body \<Rightarrow>
          if code \<ge> 500 \<and> bs \<noteq> [] then (case tryBackends do_request build bs of (r, sent) \<Rightarrow> (r, b # sent))
          else (Some (Upstream code hdr body), [b]))"

record GatewayRequest =
  gr_Method :: string
  gr_Body :: "string option"
  gr_Header :: Header

record gateway_env =
  ge_model :: "string \<Rightarrow> string option"
  ge_stream :: "string \<Rightarrow> bool"
  ge_intn :: "nat \<Rightarrow> nat \<Rightarrow> nat"
  ge_do :: "Backend \<Rightarrow> ProxyRequest \<Rightarrow> upstream"
  ge_now :: "gtime \<times> gtime"

definition extractModel :: "gateway_env \<Rightarrow> string \<Rightarrow> string" where
  "extractModel env body = (case ge_model env body of None \<Rightarrow> '''' | Some m \<Rightarrow> m)"

definition extractStream :: "gateway_env \<Rightarrow> string \<Rightarrow> bool" where
  "extractStream env body = ge_stream env body"

record Gateway =
  gw_health :: HealthChecker
  gw_limiter :: RateLimiterRegistry
  gw_config :: Gateway_Config

definition Gateway_New :: "Gateway_Config \<Rightarrow> Gateway" where
  "Gateway_New cfg = \<lparr>gw_health = NewHealthChecker (gc_Backends cfg) (gc_HealthInterval cfg) (gc_HealthTimeout cfg),
     gw_limiter = NewRateLimiterRegistry (gc_DefaultRPS cfg) (gc_RateLimits cfg), gw_config = cfg\<rparr>"

text \<open>
  A streamed answer carries the event-stream headers and the chunks in the order in which
  they are written and flushed; empty reads write nothing. A forwarded answer carries the
  upstream headers and the whole body.
\<close>

fun stream_loop :: "string list \<Rightarrow> string list" where
  "stream_loop [] = []"
| "stream_loop (buf # reads) = (if length buf > 0 then buf # stream_loop reads else stream_loop reads)"

definition streamResponse :: "int \<Rightarrow> string list \<Rightarrow> gateway_response" where
  "streamResponse code reads = Streamed code
     [''Content-Type'' \<mapsto> [''text/event-stream''], ''Cache-Control'' \<mapsto> [''no-cache''], ''Connection'' \<mapsto> [''keep-alive'']]
     (stream_loop reads)"

definition forwardResponse :: "int \<Rightarrow> Header \<Rightarrow> string list \<Rightarrow> gateway_response" where
  "forwardResponse code hdr reads = Forwarded code
     (\<lambda>k. if header_values hdr k = [] then None else Some (header_values hdr k)) (concat reads)"

lemma concat_stream_loop: "concat (stream_loop reads) = concat reads"
  by (induction reads) simp_all

definition proxy_request :: "GatewayRequest \<Rightarrow> string \<Rightarrow> string \<Rightarrow> Backend \<Rightarrow> ProxyRequest" where
  "proxy_request r path body b = \<lparr>pr_URL = Backend_Endpoint b @ path, pr_Body = body,
     pr_Header = (copyHeaders Map.empty (gr_Header r))(''Content-Type'' \<mapsto> [''application/json''])\<rparr>"

definition proxyInference ::
  "gateway_env \<Rightarrow> Gateway \<Rightarrow> GatewayRequest \<Rightarrow> string \<Rightarrow> gateway_response \<times> Backend list \<times> Gateway" where
  "proxyInference env gw r path =
     (case gr_Body r of
        None \<Rightarrow> (GatewayError 400 ''failed to read request body'', [], gw)
      | Some body \<Rightarrow>
          (let modelName = extractModel env body
           in if modelName = '''' then (GatewayError 400 ''model field is required'', [], gw)
              else
                (let (ok, limiter) = Registry_Allow (fst (ge_now env)) (snd (ge_now env)) (gw_limiter gw) modelName;
                     gw1 = gw\<lparr>gw_limiter := limiter\<rparr>
                 in if \<not> ok then (GatewayError 429 (''rate limit exceeded for model '' @ modelName), [], gw1)
                    else
                      (let candidates = findBackends (ge_intn env) (gw_health gw1) modelName
                       in if candidates = [] then
                            (GatewayError 503 (''no healthy backend for model '' @ modelName), [], gw1)
                          else
                            (let isStream = extractStream env body
                             in case tryBackends (ge_do env) (proxy_request r path body) candidates of
                                  (Some (Upstream code hdr reply), sent) \<Rightarrow>
                                    (if isStream \<and> code = 200 then streamResponse code reply
                                     else forwardResponse code hdr reply, sent, gw1)
                                | (_, sent) \<Rightarrow> (GatewayError 502 ''all backends failed'', sent, gw1))))))"

definition handleChatCompletions ::
  "gateway_env \<Rightarrow> Gateway \<Rightarrow> GatewayRequest \<Rightarrow> gateway_response \<times> Backend list \<times> Gateway" where
  "handleChatCompletions env gw r =
     (if gr_Method r \<noteq> ''POST'' then (GatewayError 405 ''method not allowed'', [], gw)
      else proxyInference env gw r ''/v1/chat/completions'')"

definition handleCompletions ::
  "gateway_env \<Rightarrow> Gateway \<Rightarrow> GatewayRequest \<Rightarrow> gateway_response \<times> Backend list \<times> Gateway" where
  "handleCompletions env gw r =
     (if gr_Method r \<noteq> ''POST'' then (GatewayError 405 ''method not allowed'', [], gw)
      else proxyInference env gw r ''/v1/completions'')"

definition handleGatewayHealth :: "Gateway \<Rightarrow> gateway_response" where
  "handleGatewayHealth gw =
     (let healthy = GetHealthyBackends (gw_health gw)
      in GatewayStatus (if length healthy = 0 then ''degraded'' else ''ok'') (length healthy)
           (length (gc_Backends (gw_config gw))))"

definition handleListBackends :: "Gateway \<Rightarrow> gateway_response" where
  "handleListBackends gw = BackendList (GetAllBackends (gw_health gw))"

section \<open>Failover\<close>

definition accepted :: "upstream \<Rightarrow> bool" where
  "accepted u = (case u of Upstream code _ _ \<Rightarrow> code < 500 | _ \<Rightarrow> False)"

lemma tryBackends_sent: "tryBackends d build bs = (r, sent) \<Longrightarrow> subseq sent bs"
  by (induction bs arbitrary: r sent)
    (auto split: upstream.splits prod.splits if_splits intro: subseq_Cons')

lemma tryBackends_skip:
  "\<forall>b \<in> set pre. \<not> accepted (d b (build b)) \<Longrightarrow> bs \<noteq> [] \<Longrightarrow>
   fst (tryBackends d build (pre @ bs)) = fst (tryBackends d build bs)"
  by (induction pre) (auto simp: accepted_def split: upstream.splits prod.splits)

text \<open>The first acceptable answer in the order of the candidates is the one returned.\<close>

lemma tryBackends_first:
  assumes "\<forall>b \<in> set pre. \<not> accepted (d b (build b))" and "d b (build b) = Upstream code hdr body" and "code < 500"
  shows "fst (tryBackends d build (pre @ b # bs)) = Some (Upstream code hdr body)"
  using tryBackends_skip [of pre d build "b # bs"] assms by simp

text \<open>With no acceptable answer, only the last candidate's server error is passed on.\<close>

lemma tryBackends_none:
  assumes "\<forall>b \<in> set bs. \<not> accepted (d b (build b))" and "bs \<noteq> []"
  shows "fst (tryBackends d build bs) =
    (case d (last bs) (build (last bs)) of Upstream code hdr body \<Rightarrow> Some (Upstream code hdr body) | _ \<Rightarrow> None)"
proof -
  have "fst (tryBackends d build (butlast bs @ [last bs])) = fst (tryBackends d build [last bs])"
    using assms by (intro tryBackends_skip) (auto dest: in_set_butlastD)
  with assms(2) show ?thesis by (simp split: upstream.splits)
qed

section \<open>Properties\<close>

text \<open>
  The outcome of probing all backends does not depend on the order in which
  the concurrent probes finish: every backend is flagged healthy exactly when its own
  health endpoint answered 200, and nothing else changes.
\<close>

lemma probeAll_deterministic:
  assumes "mset order = mset [0..<length (hc_backends hc)]"
  shows "hc_backends (probeAll get order hc) =
    map (\<lambda>b. b\<lparr>Backend_Healthy := (get (Backend_Endpoint b @ ''/health'') = Some 200)\<rparr>) (hc_backends hc)"
  unfolding probeAll_any_order [OF assms] by (simp add: probe_def split: option.splits)

definition demo_backend :: "string \<Rightarrow> int \<Rightarrow> bool \<Rightarrow> Backend" where
  "demo_backend bid wt up = \<lparr>Backend_ID = bid, Backend_Name = bid, Backend_Endpoint = bid, Backend_Models = [''m''],
     Backend_Weight = wt, Backend_Healthy = up\<rparr>"

definition demo_checker :: HealthChecker where
  "demo_checker = NewHealthChecker [demo_backend ''a'' 1 True, demo_backend ''b'' 1 True, demo_backend ''c'' 1 False] 1 1"

text \<open>
  Property C33. The weighted shuffle reorders the candidates and loses none, but among
  backends of equal weight it changes nothing: the first one configured is always tried
  first, so equal weights give no load balancing.
\<close>

theorem weightedShuffle_equal:
  assumes "intn_ok intn"
  shows "mset (weightedShuffle intn bs) = mset bs \<and>
    ((\<forall>b \<in> set bs. \<forall>c \<in> set bs. Backend_Weight b = Backend_Weight c) \<longrightarrow> weightedShuffle intn bs = bs)"
proof -
  have "weightedShuffle intn bs = bs" if "\<forall>b \<in> set bs. \<forall>c \<in> set bs. Backend_Weight b = Backend_Weight c"
  proof -
    have "\<forall>b \<in> set bs. Backend_Weight b = Backend_Weight (hd bs)"
    proof
      fix b assume "b \<in> set bs"
      then have "hd bs \<in> set bs" by (cases bs) simp_all
      with that \<open>b \<in> set bs\<close> show "Backend_Weight b = Backend_Weight (hd bs)" by blast
    qed
    then have "foldl (shuffle_step intn) bs [0..<length bs] = bs"
      by (rule shuffle_equal_weights [OF assms]) simp
    then show ?thesis by (simp add: weightedShuffle_def)
  qed
  with mset_weightedShuffle [OF assms] show ?thesis by blast
qed

theorem weightedShuffle_equal_witness:
  "weightedShuffle (\<lambda>i n. n - 1) [demo_backend ''a'' 1 True, demo_backend ''b'' 1 True] =
     [demo_backend ''a'' 1 True, demo_backend ''b'' 1 True]"
  using weightedShuffle_equal [of "\<lambda>i n. n - 1" "[demo_backend ''a'' 1 True, demo_backend ''b'' 1 True]"]
  by (simp add: intn_ok_def demo_backend_def)


text \<open>What is left of a proxied request once its body names a model and the limiter lets it through.\<close>

definition proxy_reply :: "gateway_env \<Rightarrow> GatewayRequest \<Rightarrow> string \<Rightarrow> string \<Rightarrow> Backend list \<Rightarrow> gateway_response \<times> Backend list" where
  "proxy_reply env r path body candidates =
     (case tryBackends (ge_do env) (proxy_request r path body) candidates of
        (Some (Upstream code hdr reply), sent) \<Rightarrow>
          (if extractStream env body \<and> code = 200 then streamResponse code reply else forwardResponse code hdr reply, sent)
      | (_, sent) \<Rightarrow> (GatewayError 502 ''all backends failed'', sent))"

lemma proxyInference_cases:
  assumes "proxyInference env gw r path = (resp, sent, gw')"
  obtains (early) code msg where "resp = GatewayError code msg" and "code \<in> {400, 429, 503}" and "sent = []"
      and "gw_health gw' = gw_health gw"
    | (proxied) body where "gr_Body r = Some body"
      and "findBackends (ge_intn env) (gw_health gw) (extractModel env body) \<noteq> []"
      and "proxy_reply env r path body (findBackends (ge_intn env) (gw_health gw) (extractModel env body)) = (resp, sent)"
      and "gw_health gw' = gw_health gw"
proof (cases "gr_Body r")
  case None
  with assms have "resp = GatewayError 400 ''failed to read request body'' \<and> sent = [] \<and> gw' = gw"
    by (simp add: proxyInference_def)
  then show thesis by (intro early [of 400]) auto
next
  case (Some body)
  obtain ok lim where lim: "Registry_Allow (fst (ge_now env)) (snd (ge_now env)) (gw_limiter gw) (extractModel env body) = (ok, lim)"
    by fastforce
  let ?cands = "findBackends (ge_intn env) (gw_health gw) (extractModel env body)"
  consider "extractModel env body = ''''" | "extractModel env body \<noteq> ''''" "\<not> ok"
    | "extractModel env body \<noteq> ''''" ok "?cands = []" | "extractModel env body \<noteq> ''''" ok "?cands \<noteq> []" by blast
  then show thesis
  proof cases
    case 4
    obtain rep snt where rep: "proxy_reply env r path body ?cands = (rep, snt)" by fastforce
    with 4 assms Some lim have "resp = rep \<and> sent = snt \<and> gw' = gw\<lparr>gw_limiter := lim\<rparr>"
      by (auto simp: proxyInference_def proxy_reply_def Let_def
          split: prod.splits option.splits upstream.splits)
    with Some 4(3) rep show thesis by (intro proxied) simp_all
  qed (use assms Some lim in \<open>auto simp: proxyInference_def Let_def intro!: early\<close>)
qed

lemma proxy_reply_sent: "proxy_reply env r path body cands = (resp, sent) \<Longrightarrow> subseq sent cands"
  by (auto simp: proxy_reply_def Let_def split: prod.splits option.splits upstream.splits intro: tryBackends_sent)

lemma tryBackends_Some_sent: "tryBackends d build bs = (Some u, sent) \<Longrightarrow> sent \<noteq> []"
  by (induction bs arbitrary: u sent) (auto split: upstream.splits prod.splits if_splits)

lemma proxy_reply_forwards:
  "proxy_reply env r path body cands = (resp, sent) \<Longrightarrow>
   (case resp of GatewayError code msg \<Rightarrow> code = 502 | Forwarded _ _ _ \<Rightarrow> sent \<noteq> [] | Streamed _ _ _ \<Rightarrow> sent \<noteq> [] | _ \<Rightarrow> False)"
  by (auto simp: proxy_reply_def Let_def streamResponse_def forwardResponse_def
      split: prod.splits option.splits upstream.splits if_splits dest: tryBackends_Some_sent)

text \<open>
  A request is sent only to healthy backends that serve its model, in the
  order of the shuffle and to each entry at most once; a request that is malformed, rate
  limited or without a backend is answered by the gateway itself and sent to none.
\<close>

lemma proxy_targets:
  assumes "intn_ok (ge_intn env)" and "proxyInference env gw r path = (resp, sent, gw')"
  shows "list_all (\<lambda>b. b \<in> set (hc_backends (gw_health gw)) \<and> Backend_Healthy b \<and>
      (case gr_Body r of None \<Rightarrow> False | Some body \<Rightarrow> extractModel env body \<in> set (Backend_Models b))) sent \<and>
    (case resp of GatewayError code msg \<Rightarrow> code = 502 \<or> sent = [] | _ \<Rightarrow> sent \<noteq> []) \<and>
    subseq sent (case gr_Body r of None \<Rightarrow> []
      | Some body \<Rightarrow> findBackends (ge_intn env) (gw_health gw) (extractModel env body)) \<and>
    gw_health gw' = gw_health gw"
  using assms(2)
proof (cases rule: proxyInference_cases)
  case (early code msg)
  then show ?thesis by simp
next
  case (proxied body)
  let ?cands = "findBackends (ge_intn env) (gw_health gw) (extractModel env body)"
  have "set sent \<subseteq> set ?cands" using proxy_reply_sent [OF proxied(3)] by (rule subseq_set)
  then have "list_all (\<lambda>b. b \<in> set (hc_backends (gw_health gw)) \<and> Backend_Healthy b \<and>
      extractModel env body \<in> set (Backend_Models b)) sent"
    unfolding findBackends_set [OF assms(1)] by (auto simp: list_all_iff)
  moreover have "case resp of GatewayError code msg \<Rightarrow> code = 502 \<or> sent = [] | _ \<Rightarrow> sent \<noteq> []"
    using proxy_reply_forwards [OF proxied(3)] by (auto split: gateway_response.splits)
  ultimately show ?thesis using proxied(1,4) proxy_reply_sent [OF proxied(3)] by simp
qed

definition demo_genv :: gateway_env where
  "demo_genv = \<lparr>ge_model = (\<lambda>body. Some ''m''), ge_stream = (\<lambda>body. False), ge_intn = (\<lambda>i n. 0),
     ge_do = (\<lambda>b req. if Backend_ID b = ''a'' then Upstream 503 Map.empty [] else Upstream 200 Map.empty [''hi'', ''!'']),
     ge_now = (0, 0)\<rparr>"

definition demo_gateway :: Gateway where
  "demo_gateway = (Gateway_New Gateway_DefaultConfig)\<lparr>gw_health := demo_checker\<rparr>"

definition demo_grequest :: GatewayRequest where
  "demo_grequest = \<lparr>gr_Method = ''POST'', gr_Body = Some ''{}'', gr_Header = Map.empty\<rparr>"

lemma demo_find_backends:
  "findBackends (ge_intn demo_genv) (gw_health demo_gateway) ''m'' = [demo_backend ''a'' 1 True, demo_backend ''b'' 1 True]"
  by (simp add: findBackends_def weightedShuffle_def shuffle_step_def GetHealthyBackends_def demo_gateway_def
      demo_checker_def NewHealthChecker_def demo_backend_def demo_genv_def SupportsModel_iff)

lemma demo_allowed: "fst (Registry_Allow 0 0 (gw_limiter demo_gateway) ''m'')"
proof -
  have "f64 100 = 100" "f64 200 = 200" using f64_of_int [of 100] f64_of_int [of 200] by simp_all
  then show ?thesis
    by (simp add: Registry_Allow_def demo_gateway_def Gateway_New_def Gateway_DefaultConfig_def
        NewRateLimiterRegistry_def NewTokenBucket_def TokenBucket_Allow_def TokenBucket_refill_def Let_def
        time_Sub_def Seconds_def quot_def split_beta)
qed

text \<open>
  Property C29. Failover: the client gets the first answer below 500 in the order of the
  candidates, whatever the ones before it did; if there is none it gets the last
  candidate's own server error, or 502 when that one could not be reached.
\<close>

theorem proxy_failover:
  assumes "gr_Body r = Some body" and "extractModel env body = m" and "m \<noteq> ''''"
    and "fst (Registry_Allow (fst (ge_now env)) (snd (ge_now env)) (gw_limiter gw) m)"
    and "findBackends (ge_intn env) (gw_health gw) m = pre @ b # post"
    and "\<forall>c \<in> set pre. \<not> accepted (ge_do env c (proxy_request r path body c))"
    and "post = [] \<or> accepted (ge_do env b (proxy_request r path body b))"
  shows "fst (proxyInference env gw r path) =
    (case ge_do env b (proxy_request r path body b) of
       Upstream code hdr reply \<Rightarrow>
         if extractStream env body \<and> code = 200 then streamResponse code reply else forwardResponse code hdr reply
     | _ \<Rightarrow> GatewayError 502 ''all backends failed'')"
proof -
  obtain ok lim where lim: "Registry_Allow (fst (ge_now env)) (snd (ge_now env)) (gw_limiter gw) m = (ok, lim)" by fastforce
  let ?attempt = "tryBackends (ge_do env) (proxy_request r path body)"
  have "fst (?attempt (pre @ b # post)) = fst (?attempt (b # post))" using assms(6) by (intro tryBackends_skip) simp_all
  also have "\<dots> = (case ge_do env b (proxy_request r path body b) of
      Upstream code hdr reply \<Rightarrow> Some (Upstream code hdr reply) | _ \<Rightarrow> None)"
    using assms(7) by (auto simp: accepted_def split: upstream.splits)
  finally have "fst (?attempt (pre @ b # post)) = (case ge_do env b (proxy_request r path body b) of
      Upstream code hdr reply \<Rightarrow> Some (Upstream code hdr reply) | _ \<Rightarrow> None)" .
  then show ?thesis
    using assms(1-5) lim
    by (cases "?attempt (pre @ b # post)")
      (auto simp: proxyInference_def Let_def split: upstream.splits)
qed

theorem proxy_failover_witness:
  "fst (proxyInference demo_genv demo_gateway demo_grequest ''/v1/completions'') = Forwarded 200 Map.empty ''hi!''"
proof -
  have "fst (Registry_Allow (fst (ge_now demo_genv)) (snd (ge_now demo_genv)) (gw_limiter demo_gateway) ''m'')"
    using demo_allowed by (simp add: demo_genv_def)
  then show ?thesis
    using proxy_failover [of demo_grequest "''{}''" demo_genv "''m''" demo_gateway "[demo_backend ''a'' 1 True]"
        "demo_backend ''b'' 1 True" "[]" "''/v1/completions''"] demo_find_backends
    by (simp add: demo_grequest_def extractModel_def extractStream_def demo_genv_def accepted_def demo_backend_def
        forwardResponse_def header_values_def)
qed

end
