(* ===== verification/Gateway_Server.thy ===== *)
theory Gateway_Server
  imports Gateway Api
begin

text \<open>
  The running gateway (\<^verbatim>\<open>Start\<close>, \<^verbatim>\<open>Stop\<close> and \<^verbatim>\<open>Handler\<close> of \<^verbatim>\<open>internal/gateway\<close>): requests are
  served while the goroutine of the health checker probes the backends. A round of
  probing starts one goroutine per backend; each of them writes the flag of its own
  backend when its probe has ended, so requests see every mixture of old and new flags.
  A request goes through several steps, too: it passes the rate limiter, takes a copy of the
  healthy backends, and then sends to one of them after the other, while probes end and other
  requests run. A session is a sequence of such events, each of which must be possible where it
  happens. \<open>Gateway_Handler\<close> is a request that nothing interrupts.
\<close>

section \<open>The health checker's goroutine\<close>

text \<open>
  \<open>gs_flight\<close> are the handlers that run, \<open>gs_pending\<close> are the backends whose probe of the current round has not ended,
  \<open>gs_cancelled\<close> says that the context is cancelled, \<open>gs_exited\<close> that the loop has returned.
\<close>

text \<open>
  Where the handler of a proxied request is: behind the rate limiter, or at the first of the
  candidates that are left.
\<close>

datatype flight =
    Admitted gateway_env string GatewayRequest string string
  | Trying gateway_env string GatewayRequest string "Backend list"

record GatewayServer =
  gs_gateway :: Gateway
  gs_flight :: "nat \<rightharpoonup> flight"
  gs_pending :: "nat list"
  gs_cancelled :: bool
  gs_exited :: bool

text \<open>
  \<^verbatim>\<open>Start\<close> probes all backends before it returns. The loop it starts creates a ticker,
  which panics for an interval that is not positive.
\<close>

definition HealthChecker_Start :: "(string \<Rightarrow> int option) \<Rightarrow> nat list \<Rightarrow> HealthChecker \<Rightarrow> error + HealthChecker" where
  "HealthChecker_Start get order hc =
     (let hc1 = probeAll get order hc
      in if hc_interval hc1 \<le> 0 then Inl (GoPanic ''non-positive interval for NewTicker'') else Inr hc1)"

definition Gateway_Start :: "(string \<Rightarrow> int option) \<Rightarrow> nat list \<Rightarrow> Gateway \<Rightarrow> error + GatewayServer" where
  "Gateway_Start get order gw =
     (case HealthChecker_Start get order (gw_health gw) of
        Inl err \<Rightarrow> Inl err
      | Inr hc \<Rightarrow> Inr \<lparr>gs_gateway = gw\<lparr>gw_health := hc\<rparr>, gs_flight = Map.empty, gs_pending = [], gs_cancelled = False, gs_exited = False\<rparr>)"

text \<open>The loop takes a tick between two rounds; with the context cancelled it may still do so.\<close>

definition loop_tick :: "GatewayServer \<Rightarrow> GatewayServer option" where
  "loop_tick s =
     (if gs_pending s = [] \<and> \<not> gs_exited s
      then Some (s\<lparr>gs_pending := [0..<length (hc_backends (gw_health (gs_gateway s)))]\<rparr>) else None)"

definition loop_probed :: "nat \<Rightarrow> int option \<Rightarrow> GatewayServer \<Rightarrow> GatewayServer option" where
  "loop_probed idx answer s =
     (if idx \<in> set (gs_pending s)
      then (let gw = gs_gateway s; hc = gw_health gw;
                hc1 = hc\<lparr>hc_backends := probe_write (\<lambda>url. answer) (hc_backends hc) idx\<rparr>
            in Some (s\<lparr>gs_gateway := gw\<lparr>gw_health := hc1\<rparr>, gs_pending := remove1 idx (gs_pending s)\<rparr>))
      else None)"

definition loop_done :: "GatewayServer \<Rightarrow> GatewayServer option" where
  "loop_done s =
     (if gs_pending s = [] \<and> gs_cancelled s \<and> \<not> gs_exited s then Some (s\<lparr>gs_exited := True\<rparr>) else None)"

text \<open>A running health checker has the function that cancels its context.\<close>

definition HealthChecker_Stop :: "GatewayServer \<Rightarrow> GatewayServer" where
  "HealthChecker_Stop s = s\<lparr>gs_cancelled := True\<rparr>"

definition Gateway_Stop :: "GatewayServer \<Rightarrow> GatewayServer" where
  "Gateway_Stop s = HealthChecker_Stop s"

section \<open>Routes\<close>

datatype mux_reply = MovedTo string | PageNotFound | Replied gateway_response

definition Gateway_Handler ::
  "gateway_env \<Rightarrow> string \<Rightarrow> GatewayRequest \<Rightarrow> Gateway \<Rightarrow> mux_reply \<times> Backend list \<times> Gateway" where
  "Gateway_Handler env path r gw =
     (if cleanPath path \<noteq> path then (MovedTo (cleanPath path), [], gw)
      else if path = ''/v1/chat/completions'' then
        (case handleChatCompletions env gw r of (resp, sent, gw') \<Rightarrow> (Replied resp, sent, gw'))
      else if path = ''/v1/completions'' then
        (case handleCompletions env gw r of (resp, sent, gw') \<Rightarrow> (Replied resp, sent, gw'))
      else if path = ''/gateway/health'' then (Replied (handleGatewayHealth gw), [], gw)
      else if path = ''/gateway/backends'' then (Replied (handleListBackends gw), [], gw)
      else (PageNotFound, [], gw))"

section \<open>The steps of a request\<close>

text \<open>What a step shows: the reply, when it ends the request, and what it sends to which backend.\<close>

type_synonym gateway_out = "mux_reply option \<times> (Backend \<times> ProxyRequest) option"

definition replied :: "gateway_response \<Rightarrow> gateway_out" where
  "replied resp = (Some (Replied resp), None)"

text \<open>
  Up to the rate limiter. \<open>n\<close> names the request; a name is free again when its handler has
  returned. The routes that are not proxied reply at once.
\<close>

definition request_begin ::
  "nat \<Rightarrow> gateway_env \<Rightarrow> string \<Rightarrow> GatewayRequest \<Rightarrow> GatewayServer \<Rightarrow> (gateway_out \<times> GatewayServer) option" where
  "request_begin n env path r s =
     (if gs_flight s n \<noteq> None then None
      else if cleanPath path \<noteq> path then Some ((Some (MovedTo (cleanPath path)), None), s)
      else if path = ''/v1/chat/completions'' \<or> path = ''/v1/completions'' then
        (if gr_Method r \<noteq> ''POST'' then Some (replied (GatewayError 405 ''method not allowed''), s)
         else
           (case gr_Body r of
              None \<Rightarrow> Some (replied (GatewayError 400 ''failed to read request body''), s)
            | Some body \<Rightarrow>
                (let modelName = extractModel env body; gw = gs_gateway s
                 in if modelName = '''' then Some (replied (GatewayError 400 ''model field is required''), s)
                    else
                      (let (ok, limiter) = Registry_Allow (fst (ge_now env)) (snd (ge_now env)) (gw_limiter gw) modelName;
                           s1 = s\<lparr>gs_gateway := gw\<lparr>gw_limiter := limiter\<rparr>\<rparr>
                       in if \<not> ok then Some (replied (GatewayError 429 (''rate limit exceeded for model '' @ modelName)), s1)
                          else Some ((None, None), s1\<lparr>gs_flight := (gs_flight s1)(n \<mapsto> Admitted env path r body modelName)\<rparr>)))))
      else if path = ''/gateway/health'' then Some (replied (handleGatewayHealth (gs_gateway s)), s)
      else if path = ''/gateway/backends'' then Some (replied (handleListBackends (gs_gateway s)), s)
      else Some ((Some PageNotFound, None), s))"

text \<open>The copy of the healthy backends.\<close>

definition request_choose :: "nat \<Rightarrow> GatewayServer \<Rightarrow> (gateway_out \<times> GatewayServer) option" where
  "request_choose n s =
     (case gs_flight s n of
        Some (Admitted env path r body modelName) \<Rightarrow>
          (let candidates = findBackends (ge_intn env) (gw_health (gs_gateway s)) modelName
           in if candidates = [] then
                Some (replied (GatewayError 503 (''no healthy backend for model '' @ modelName)), s\<lparr>gs_flight := (gs_flight s)(n := None)\<rparr>)
              else Some ((None, None), s\<lparr>gs_flight := (gs_flight s)(n \<mapsto> Trying env path r body candidates)\<rparr>))
      | _ \<Rightarrow> None)"

text \<open>One turn of the loop over the candidates; \<open>answer\<close> is what the network says to it.\<close>

definition final_reply :: "gateway_env \<Rightarrow> string \<Rightarrow> Backend list \<Rightarrow> upstream \<Rightarrow> gateway_response option" where
  "final_reply env body rest answer =
     (case answer of
        Upstream code hdr reads \<Rightarrow>
          if code \<ge> 500 \<and> rest \<noteq> [] then None
          else Some (if extractStream env body \<and> code = 200 then streamResponse code reads else forwardResponse code hdr reads)
      | _ \<Rightarrow> if rest = [] then Some (GatewayError 502 ''all backends failed'') else None)"

definition request_send :: "nat \<Rightarrow> upstream \<Rightarrow> GatewayServer \<Rightarrow> (gateway_out \<times> GatewayServer) option" where
  "request_send n answer s =
     (case gs_flight s n of
        Some (Trying env path r body (b # rest)) \<Rightarrow>
          (let sent = (if answer = RequestError then None else Some (b, proxy_request r path body b))
           in case final_reply env body rest answer of
                Some resp \<Rightarrow> Some ((Some (Replied resp), sent), s\<lparr>gs_flight := (gs_flight s)(n := None)\<rparr>)
              | None \<Rightarrow> Some ((None, sent), s\<lparr>gs_flight := (gs_flight s)(n \<mapsto> Trying env path r body rest)\<rparr>))
      | _ \<Rightarrow> None)"

section \<open>Sessions\<close>

datatype gateway_event =
    Begin nat gateway_env string GatewayRequest
  | Choose nat
  | Send nat upstream
  | Tick
  | Probed nat "int option"
  | Stop
  | LoopDone

definition quiet :: "GatewayServer option \<Rightarrow> (gateway_out \<times> GatewayServer) option" where
  "quiet r = map_option (Pair (None, None)) r"

fun gateway_do :: "gateway_event \<Rightarrow> GatewayServer \<Rightarrow> (gateway_out \<times> GatewayServer) option" where
  "gateway_do (Begin n env path r) s = request_begin n env path r s"
| "gateway_do (Choose n) s = request_choose n s"
| "gateway_do (Send n answer) s = request_send n answer s"
| "gateway_do Tick s = quiet (loop_tick s)"
| "gateway_do (Probed idx answer) s = quiet (loop_probed idx answer s)"
| "gateway_do Stop s = quiet (Some (Gateway_Stop s))"
| "gateway_do LoopDone s = quiet (loop_done s)"

fun gateway_session :: "gateway_event list \<Rightarrow> GatewayServer \<Rightarrow> (gateway_out list \<times> GatewayServer) option" where
  "gateway_session [] s = Some ([], s)"
| "gateway_session (e # es) s =
     (case gateway_do e s of
        None \<Rightarrow> None
      | Some (out, s1) \<Rightarrow> (case gateway_session es s1 of None \<Rightarrow> None | Some (outs, s') \<Rightarrow> Some (out # outs, s')))"

section \<open>A request that nothing interrupts\<close>

definition replies :: "gateway_out list \<Rightarrow> mux_reply list" where
  "replies outs = concat (map (\<lambda>(rep, snt). case rep of None \<Rightarrow> [] | Some x \<Rightarrow> [x]) outs)"

definition sends :: "gateway_out list \<Rightarrow> Backend list" where
  "sends outs = concat (map (\<lambda>(rep, snt). case snt of None \<Rightarrow> [] | Some x \<Rightarrow> [fst x]) outs)"

lemma replies_sends_simps [simp]:
  "replies [] = []" "replies ((Some x, y) # outs) = x # replies outs" "replies ((None, y) # outs) = replies outs"
  "sends [] = []" "sends ((z, Some y') # outs) = fst y' # sends outs" "sends ((z, None) # outs) = sends outs"
  by (simp_all add: replies_def sends_def)

lemma gs_gateway_same [simp]: "s\<lparr>gs_gateway := gs_gateway s\<rparr> = s"
  by (cases s) simp

text \<open>What the network says to the turns of the loop when a function answers it.\<close>

fun tries :: "(Backend \<Rightarrow> upstream) \<Rightarrow> Backend list \<Rightarrow> upstream list" where
  "tries ans [] = []"
| "tries ans (b # bs) =
     ans b # (case ans b of Upstream code _ _ \<Rightarrow> if code \<ge> 500 \<and> bs \<noteq> [] then tries ans bs else [] | _ \<Rightarrow> tries ans bs)"

lemma sends_undisturbed:
  assumes "gs_flight s n = Some (Trying env path r body cands)" and "cands \<noteq> []"
    and "proxy_reply env r path body cands = (resp, sent)"
  shows "\<exists>outs. gateway_session (map (Send n) (tries (\<lambda>b. ge_do env b (proxy_request r path body b)) cands)) s =
      Some (outs, s\<lparr>gs_flight := (gs_flight s)(n := None)\<rparr>) \<and> replies outs = [Replied resp] \<and> sends outs = sent"
  using assms
proof (induction cands arbitrary: s resp sent)
  case (Cons b bs)
  let ?ans = "\<lambda>b. ge_do env b (proxy_request r path body b)"
  show ?case
  proof (cases "final_reply env body bs (?ans b)")
    case (Some x)
    have "proxy_reply env r path body (b # bs) = (x, if ?ans b = RequestError then [] else [b])"
      using Some by (auto simp: proxy_reply_def final_reply_def split: upstream.splits if_splits)
    moreover have "tries ?ans (b # bs) = [?ans b]"
      using Some by (auto simp: final_reply_def split: upstream.splits if_splits)
    ultimately show ?thesis using Cons.prems(1,3) Some by (auto simp: request_send_def Let_def fun_upd_def)
  next
    case None
    then have bs: "bs \<noteq> []" and t: "tries ?ans (b # bs) = ?ans b # tries ?ans bs"
      by (auto simp: final_reply_def split: upstream.splits if_splits)
    obtain resp' sent' where p: "proxy_reply env r path body bs = (resp', sent')" by fastforce
    have rs: "resp = resp' \<and> sent = (if ?ans b = RequestError then sent' else b # sent')"
      using None bs p Cons.prems(3)
      by (auto simp: proxy_reply_def final_reply_def split: upstream.splits if_splits prod.splits option.splits)
    let ?s1 = "s\<lparr>gs_flight := (gs_flight s)(n \<mapsto> Trying env path r body bs)\<rparr>"
    have s2: "?s1\<lparr>gs_flight := (gs_flight ?s1)(n := None)\<rparr> = s\<lparr>gs_flight := (gs_flight s)(n := None)\<rparr>" by simp
    have "gs_flight ?s1 n = Some (Trying env path r body bs)" by simp
    from Cons.IH [OF this bs p] obtain outs where
      outs: "gateway_session (map (Send n) (tries ?ans bs)) ?s1 = Some (outs, s\<lparr>gs_flight := (gs_flight s)(n := None)\<rparr>)"
        "replies outs = [Replied resp']" "sends outs = sent'" unfolding s2 by blast
    let ?out = "(None, if ?ans b = RequestError then None else Some (b, proxy_request r path body b))"
    have "gateway_do (Send n (?ans b)) s = Some (?out, ?s1)"
      using None Cons.prems(1) by (simp add: request_send_def Let_def)
    with outs t rs show ?thesis by (intro exI [of _ "?out # outs"]) (simp add: fun_upd_def)
  qed
qed simp

definition step_of :: "nat \<Rightarrow> gateway_event \<Rightarrow> bool" where
  "step_of n e \<longleftrightarrow> (case e of Choose m \<Rightarrow> m = n | Send m _ \<Rightarrow> m = n | _ \<Rightarrow> False)"

text \<open>
  Undisturbed, the steps of a request do what the handler does: the same reply, the same
  backends in the same order, and the same state of the gateway.
\<close>

lemma undisturbed_proxy:
  assumes "proxyInference env (gs_gateway s) r path = (resp, sent, gw')" and "gs_flight s n = None"
    and "cleanPath path = path" and "path = ''/v1/chat/completions'' \<or> path = ''/v1/completions''" and "gr_Method r = ''POST''"
  shows "\<exists>es outs. list_all (step_of n) es \<and>
    gateway_session (Begin n env path r # es) s = Some (outs, s\<lparr>gs_gateway := gw'\<rparr>) \<and>
    replies outs = [Replied resp] \<and> sends outs = sent"
proof (cases "gr_Body r")
  case None
  with assms show ?thesis by (intro exI [of _ "[] :: gateway_event list"]) (auto simp: proxyInference_def request_begin_def replied_def)
next
  case (Some body)
  let ?m = "extractModel env body" and ?gw = "gs_gateway s"
  obtain ok lim where lim: "Registry_Allow (fst (ge_now env)) (snd (ge_now env)) (gw_limiter ?gw) ?m = (ok, lim)" by fastforce
  let ?cands = "findBackends (ge_intn env) (gw_health ?gw) ?m"
  let ?s1 = "s\<lparr>gs_gateway := ?gw\<lparr>gw_limiter := lim\<rparr>, gs_flight := (gs_flight s)(n \<mapsto> Admitted env path r body ?m)\<rparr>"
  note simps = proxyInference_def request_begin_def request_choose_def replied_def step_of_def Some lim Let_def
  have freed: "(gs_flight s)(n := None) = gs_flight s" using assms(2) by (simp add: fun_upd_idem)
  show ?thesis
  proof (cases "?m = '''' \<or> \<not> ok")
    case True
    with assms show ?thesis by (intro exI [of _ "[] :: gateway_event list"]) (auto simp: simps)
  next
    case False
    then have b: "gateway_do (Begin n env path r) s = Some ((None, None), ?s1)" using assms(2-5) by (auto simp: simps)
    show ?thesis
    proof (cases "?cands = []")
      case True
      then have "gateway_do (Choose n) ?s1 = Some (replied (GatewayError 503 (''no healthy backend for model '' @ ?m)),
          s\<lparr>gs_gateway := ?gw\<lparr>gw_limiter := lim\<rparr>\<rparr>)"
        by (simp add: simps freed)
      with True False b assms(1) show ?thesis by (intro exI [of _ "[Choose n]"]) (auto simp: simps)
    next
      case c: False
      let ?s2 = "?s1\<lparr>gs_flight := (gs_flight s)(n \<mapsto> Trying env path r body ?cands)\<rparr>"
      have ch: "gateway_do (Choose n) ?s1 = Some ((None, None), ?s2)" using c by (simp add: simps)
      have pr: "proxy_reply env r path body ?cands = (resp, sent)" and gw': "gw' = ?gw\<lparr>gw_limiter := lim\<rparr>"
        using assms(1) False c Some lim
        by (auto simp: proxyInference_def proxy_reply_def Let_def split: prod.splits option.splits upstream.splits)
      have fl: "gs_flight ?s2 n = Some (Trying env path r body ?cands)" by simp
      have s3: "?s2\<lparr>gs_flight := (gs_flight ?s2)(n := None)\<rparr> = s\<lparr>gs_gateway := gw'\<rparr>"
        using freed by (cases s) (simp add: gw')
      obtain outs where
        "gateway_session (map (Send n) (tries (\<lambda>b. ge_do env b (proxy_request r path body b)) ?cands)) ?s2 =
          Some (outs, s\<lparr>gs_gateway := gw'\<rparr>)" "replies outs = [Replied resp]" "sends outs = sent"
        using sends_undisturbed [OF fl c pr] unfolding s3 by blast
      with b ch show ?thesis
        by (intro exI [of _ "Choose n # map (Send n) (tries (\<lambda>b. ge_do env b (proxy_request r path body b)) ?cands)"]
            exI [of _ "(None, None) # (None, None) # outs"]) (simp add: list_all_iff step_of_def)
    qed
  qed
qed

lemma Handler_undisturbed:
  assumes "Gateway_Handler env path r (gs_gateway s) = (reply, sent, gw')" and "gs_flight s n = None"
  shows "\<exists>es outs. list_all (step_of n) es \<and>
    gateway_session (Begin n env path r # es) s = Some (outs, s\<lparr>gs_gateway := gw'\<rparr>) \<and>
    replies outs = [reply] \<and> sends outs = sent"
proof (cases "cleanPath path = path \<and> (path = ''/v1/chat/completions'' \<or> path = ''/v1/completions'') \<and> gr_Method r = ''POST''")
  case True
  then obtain resp where "proxyInference env (gs_gateway s) r path = (resp, sent, gw')" "reply = Replied resp"
    using assms(1) by (auto simp: Gateway_Handler_def handleChatCompletions_def handleCompletions_def split: prod.splits)
  with undisturbed_proxy [OF _ assms(2)] True show ?thesis by blast
next
  case False
  with assms show ?thesis
    by (intro exI [of _ "[] :: gateway_event list"])
      (auto simp: Gateway_Handler_def handleChatCompletions_def handleCompletions_def request_begin_def replied_def
        split: if_splits)
qed

section \<open>The flags follow the last probe\<close>

fun last_answer :: "int option \<Rightarrow> nat \<Rightarrow> gateway_event list \<Rightarrow> int option" where
  "last_answer a i [] = a"
| "last_answer a i (Probed j b # es) = last_answer (if j = i then b else a) i es"
| "last_answer a i (_ # es) = last_answer a i es"

definition flags_ok :: "Backend list \<Rightarrow> (nat \<Rightarrow> int option) \<Rightarrow> GatewayServer \<Rightarrow> bool" where
  "flags_ok bs answer s \<longleftrightarrow>
     hc_backends (gw_health (gs_gateway s)) =
       map (\<lambda>i. (bs ! i)\<lparr>Backend_Healthy := (answer i = Some 200)\<rparr>) [0..<length bs] \<and>
     set (gs_pending s) \<subseteq> {..<length bs} \<and> (gs_exited s \<longrightarrow> gs_pending s = [])"

lemma flags_ok_start:
  assumes "Gateway_Start get order (Gateway_New cfg) = Inr s" and "mset order = mset [0..<length (gc_Backends cfg)]"
  shows "flags_ok (gc_Backends cfg) (\<lambda>i. get (Backend_Endpoint (gc_Backends cfg ! i) @ ''/health'')) s"
proof -
  let ?hc = "NewHealthChecker (gc_Backends cfg) (gc_HealthInterval cfg) (gc_HealthTimeout cfg)"
  have "hc_backends (probeAll get order ?hc) =
      map (\<lambda>b. b\<lparr>Backend_Healthy := probe get (Backend_Endpoint b)\<rparr>) (gc_Backends cfg)"
    using probeAll_any_order [of order ?hc get] assms(2) by (simp add: NewHealthChecker_def)
  also have "\<dots> = map (\<lambda>i. (gc_Backends cfg ! i)\<lparr>Backend_Healthy :=
      (get (Backend_Endpoint (gc_Backends cfg ! i) @ ''/health'') = Some 200)\<rparr>) [0..<length (gc_Backends cfg)]"
    by (intro nth_equalityI) (simp_all add: probe_def split: option.splits)
  finally show ?thesis using assms(1)
    by (auto simp: Gateway_Start_def HealthChecker_Start_def Gateway_New_def flags_ok_def Let_def split: if_splits)
qed

lemma flags_ok_probed:
  assumes "flags_ok bs answer s" and "loop_probed idx a s = Some s'"
  shows "flags_ok bs (answer(idx := a)) s'"
proof -
  let ?f = "\<lambda>ans i. (bs ! i)\<lparr>Backend_Healthy := (ans i = Some 200)\<rparr>"
  have idx: "idx < length bs" using assms by (auto simp: flags_ok_def loop_probed_def Let_def split: if_splits)
  have "probe_write (\<lambda>url. a) (map (?f answer) [0..<length bs]) idx = map (?f (answer(idx := a))) [0..<length bs]"
    using idx by (intro nth_equalityI) (auto simp: probe_write_def probe_def nth_list_update split: option.splits)
  then show ?thesis using assms set_remove1_subset [of idx "gs_pending s"]
    by (auto simp: flags_ok_def loop_probed_def Let_def split: if_splits)
qed

text \<open>Requests leave the flags alone.\<close>

lemma request_frame:
  assumes "gateway_do e s = Some (out, s')" and "\<exists>n env path r. e = Begin n env path r \<or> (\<exists>n. e = Choose n) \<or> (\<exists>n a. e = Send n a)"
  shows "gw_health (gs_gateway s') = gw_health (gs_gateway s)" and "gs_pending s' = gs_pending s"
    and "gs_exited s' = gs_exited s" and "gs_cancelled s' = gs_cancelled s"
  using assms
  by (auto simp: request_begin_def request_choose_def request_send_def Let_def
      split: if_splits option.splits flight.splits list.splits prod.splits)

lemma flags_ok_request:
  "flags_ok bs answer s \<Longrightarrow> gw_health (gs_gateway s') = gw_health (gs_gateway s) \<Longrightarrow> gs_pending s' = gs_pending s \<Longrightarrow>
   gs_exited s' = gs_exited s \<Longrightarrow> flags_ok bs answer s'"
  by (simp add: flags_ok_def)

lemma flags_ok_step:
  assumes "flags_ok bs answer s" and "gateway_do e s = Some (out, s')"
  shows "flags_ok bs (\<lambda>i. last_answer (answer i) i [e]) s'"
proof (cases e)
  case (Probed idx a)
  with assms have "loop_probed idx a s = Some s'" by (auto simp: quiet_def)
  from flags_ok_probed [OF assms(1) this] Probed show ?thesis by (simp add: fun_upd_def eq_commute [of idx])
next
  case (Begin n env path r)
  with flags_ok_request [OF assms(1)] request_frame [OF assms(2)] show ?thesis by simp
next
  case (Choose n)
  with flags_ok_request [OF assms(1)] request_frame [OF assms(2)] show ?thesis by simp
next
  case (Send n a)
  with flags_ok_request [OF assms(1)] request_frame [OF assms(2)] show ?thesis by simp
next
  case Tick
  then have "\<not> gs_exited s" and s': "s' = s\<lparr>gs_pending := [0..<length (hc_backends (gw_health (gs_gateway s)))]\<rparr>"
    using assms(2) by (auto simp: quiet_def loop_tick_def split: if_splits)
  moreover have "length (hc_backends (gw_health (gs_gateway s))) = length bs" using assms(1) by (simp add: flags_ok_def)
  ultimately show ?thesis using assms(1) Tick by (simp add: flags_ok_def lessThan_atLeast0)
next
  case Stop
  then show ?thesis using assms by (auto simp: flags_ok_def quiet_def Gateway_Stop_def HealthChecker_Stop_def)
next
  case LoopDone
  then show ?thesis using assms by (auto simp: flags_ok_def quiet_def loop_done_def split: if_splits)
qed

lemma last_answer_append: "last_answer a i (es @ es') = last_answer (last_answer a i es) i es'"
  by (induction a i es rule: last_answer.induct) simp_all

section \<open>Where a request stands in the session\<close>

definition concerns :: "nat \<Rightarrow> gateway_event \<Rightarrow> bool" where
  "concerns n e \<longleftrightarrow> (case e of Begin m _ _ _ \<Rightarrow> m = n | Choose m \<Rightarrow> m = n | _ \<Rightarrow> False)"

definition inference_request :: "gateway_env \<Rightarrow> string \<Rightarrow> GatewayRequest \<Rightarrow> string \<Rightarrow> bool" where
  "inference_request env path r body \<longleftrightarrow>
     gr_Method r = ''POST'' \<and> (path = ''/v1/chat/completions'' \<or> path = ''/v1/completions'') \<and> gr_Body r = Some body"

text \<open>A configured backend that serves the model and whose last answer is 200.\<close>

definition target_ok :: "Backend list \<Rightarrow> (nat \<Rightarrow> int option) \<Rightarrow> string \<Rightarrow> Backend \<Rightarrow> bool" where
  "target_ok bs answer m b \<longleftrightarrow>
     (\<exists>i < length bs. b = (bs ! i)\<lparr>Backend_Healthy := True\<rparr> \<and> m \<in> set (Backend_Models (bs ! i)) \<and> answer i = Some 200)"

text \<open>
  A request that tries its candidates chose them from the answers that were there when it took
  its copy of the backends; \<open>first\<close> are the answers of the first round.
\<close>

fun flight_ok :: "Backend list \<Rightarrow> (nat \<Rightarrow> int option) \<Rightarrow> gateway_event list \<Rightarrow> nat \<Rightarrow> flight \<Rightarrow> bool" where
  "flight_ok bs first es n (Admitted env path r body m) \<longleftrightarrow>
     intn_ok (ge_intn env) \<and> inference_request env path r body \<and> m = extractModel env body \<and>
     (\<exists>e1 e2. es = e1 @ Begin n env path r # e2 \<and> \<not> list_ex (concerns n) e2)"
| "flight_ok bs first es n (Trying env path r body cands) \<longleftrightarrow>
     inference_request env path r body \<and>
     (\<exists>e1 e2 e3. es = e1 @ Begin n env path r # e2 @ Choose n # e3 \<and> \<not> list_ex (concerns n) (e2 @ e3) \<and>
        list_all (target_ok bs (\<lambda>i. last_answer (first i) i (e1 @ Begin n env path r # e2)) (extractModel env body)) cands)"

definition history_ok :: "Backend list \<Rightarrow> (nat \<Rightarrow> int option) \<Rightarrow> gateway_event list \<Rightarrow> GatewayServer \<Rightarrow> bool" where
  "history_ok bs first es s \<longleftrightarrow>
     flags_ok bs (\<lambda>i. last_answer (first i) i es) s \<and> (\<forall>n fl. gs_flight s n = Some fl \<longrightarrow> flight_ok bs first es n fl)"

lemma flight_ok_later:
  assumes "flight_ok bs first es n fl" and "\<not> concerns n e"
  shows "flight_ok bs first (es @ [e]) n fl"
proof (cases fl)
  case (Admitted env path r body m)
  with assms obtain e1 e2 where "es = e1 @ Begin n env path r # e2" "\<not> list_ex (concerns n) e2" by auto
  with assms have "es @ [e] = e1 @ Begin n env path r # (e2 @ [e]) \<and> \<not> list_ex (concerns n) (e2 @ [e])" by simp
  then have "\<exists>e1 e2. es @ [e] = e1 @ Begin n env path r # e2 \<and> \<not> list_ex (concerns n) e2" by blast
  with Admitted assms(1) show ?thesis by (simp only: flight_ok.simps simp_thms)
next
  case (Trying env path r body cands)
  with assms obtain e1 e2 e3 where e: "es = e1 @ Begin n env path r # e2 @ Choose n # e3" "\<not> list_ex (concerns n) (e2 @ e3)"
    "list_all (target_ok bs (\<lambda>i. last_answer (first i) i (e1 @ Begin n env path r # e2)) (extractModel env body)) cands"
    by auto
  with assms(2) have "es @ [e] = e1 @ Begin n env path r # e2 @ Choose n # (e3 @ [e]) \<and> \<not> list_ex (concerns n) (e2 @ e3 @ [e])"
    by simp
  with e(3) have "\<exists>e1 e2 e3. es @ [e] = e1 @ Begin n env path r # e2 @ Choose n # e3 \<and> \<not> list_ex (concerns n) (e2 @ e3) \<and>
      list_all (target_ok bs (\<lambda>i. last_answer (first i) i (e1 @ Begin n env path r # e2)) (extractModel env body)) cands"
    by (intro exI [of _ e1] exI [of _ e2] exI [of _ "e3 @ [e]"]) (simp only: simp_thms)
  with Trying assms(1) show ?thesis by (simp only: flight_ok.simps simp_thms)
qed

text \<open>What a step does to the handlers: only the one it belongs to changes.\<close>

lemma candidates_ok:
  assumes "flags_ok bs answer s" and "intn_ok intn"
  shows "list_all (target_ok bs answer m) (findBackends intn (gw_health (gs_gateway s)) m)"
proof -
  have "target_ok bs answer m b"
    if b: "b \<in> set (hc_backends (gw_health (gs_gateway s)))" "Backend_Healthy b" "m \<in> set (Backend_Models b)" for b
  proof -
    obtain i where "i < length bs" "b = (bs ! i)\<lparr>Backend_Healthy := (answer i = Some 200)\<rparr>"
      using assms(1) b(1) by (auto simp: flags_ok_def)
    with b(2,3) show ?thesis by (auto simp: target_ok_def)
  qed
  then show ?thesis by (simp add: list_all_iff findBackends_set [OF assms(2)])
qed

definition event_ok :: "gateway_event \<Rightarrow> bool" where
  "event_ok e \<longleftrightarrow> (case e of Begin n env path r \<Rightarrow> intn_ok (ge_intn env) | _ \<Rightarrow> True)"

lemma begin_flight:
  assumes "request_begin n env path r s = Some (out, s')" and "gs_flight s' m = Some fl"
  shows "m \<noteq> n \<and> gs_flight s m = Some fl \<or>
    m = n \<and> (\<exists>body. fl = Admitted env path r body (extractModel env body) \<and> inference_request env path r body)"
  using assms
  by (auto simp: request_begin_def inference_request_def Let_def split: if_splits option.splits prod.splits)

lemma choose_flight:
  assumes "request_choose n s = Some (out, s')" and "gs_flight s' m = Some fl"
  shows "m \<noteq> n \<and> gs_flight s m = Some fl \<or>
    m = n \<and> (\<exists>env path r body mo. gs_flight s n = Some (Admitted env path r body mo) \<and>
      fl = Trying env path r body (findBackends (ge_intn env) (gw_health (gs_gateway s)) mo))"
  using assms by (auto simp: request_choose_def Let_def split: if_splits option.splits flight.splits)

lemma send_flight:
  assumes "request_send n a s = Some (out, s')" and "gs_flight s' m = Some fl"
  shows "m \<noteq> n \<and> gs_flight s m = Some fl \<or>
    m = n \<and> (\<exists>env path r body b rest. gs_flight s n = Some (Trying env path r body (b # rest)) \<and> fl = Trying env path r body rest)"
  using assms by (auto simp: request_send_def Let_def split: if_splits option.splits flight.splits list.splits)

lemma history_ok_flight:
  assumes "history_ok bs first es s" and "gateway_do e s = Some (out, s')" and "event_ok e" and "gs_flight s' m = Some fl"
  shows "flight_ok bs first (es @ [e]) m fl"
proof -
  have old: "flight_ok bs first es m fl" if "gs_flight s m = Some fl" for m fl
    using assms(1) that by (simp add: history_ok_def)
  have later: "flight_ok bs first (es @ [e]) m fl" if "gs_flight s m = Some fl" "\<not> concerns m e"
    using flight_ok_later [OF old] that by blast
  show ?thesis
  proof (cases e)
    case (Begin n env path r)
    note do = assms(2) [unfolded Begin gateway_do.simps]
    from begin_flight [OF do assms(4)] consider "m \<noteq> n" "gs_flight s m = Some fl"
      | body where "m = n" "fl = Admitted env path r body (extractModel env body)" "inference_request env path r body" by blast
    then show ?thesis
    proof cases
      case 2
      have "\<exists>e1 e2. es @ [e] = e1 @ Begin n env path r # e2 \<and> \<not> list_ex (concerns n) e2"
        by (intro exI [of _ es] exI [of _ "[]"]) (simp add: Begin)
      with 2 assms(3) Begin show ?thesis by (simp add: event_ok_def)
    qed (use later in \<open>simp add: Begin concerns_def\<close>)
  next
    case (Choose n)
    note do = assms(2) [unfolded Choose gateway_do.simps]
    from choose_flight [OF do assms(4)] consider "m \<noteq> n" "gs_flight s m = Some fl"
      | env path r body mo where "m = n" "gs_flight s n = Some (Admitted env path r body mo)"
        "fl = Trying env path r body (findBackends (ge_intn env) (gw_health (gs_gateway s)) mo)" by blast
    then show ?thesis
    proof cases
      case 2
      note ad = old [OF 2(2), simplified]
      then obtain e1 e2 where e: "es = e1 @ Begin n env path r # e2" "\<not> list_ex (concerns n) e2" by blast
      have "list_all (target_ok bs (\<lambda>i. last_answer (first i) i es) mo) (findBackends (ge_intn env) (gw_health (gs_gateway s)) mo)"
        using assms(1) ad by (intro candidates_ok) (simp_all add: history_ok_def)
      with ad e 2 Choose show ?thesis
        by (simp only: flight_ok.simps simp_thms) (intro exI [of _ e1] exI [of _ e2] exI [of _ "[]"], simp)
    qed (use later in \<open>simp add: Choose concerns_def\<close>)
  next
    case (Send n a)
    note do = assms(2) [unfolded Send gateway_do.simps]
    from send_flight [OF do assms(4)] consider "gs_flight s m = Some fl"
      | env path r body b rest where "m = n" "gs_flight s n = Some (Trying env path r body (b # rest))"
        "fl = Trying env path r body rest" by blast
    then show ?thesis
    proof cases
      case 2
      from old [OF 2(2)] have "flight_ok bs first es n fl" by (auto simp: 2(3))
      then have "flight_ok bs first (es @ [e]) n fl" by (rule flight_ok_later) (simp add: Send concerns_def)
      with 2(1) show ?thesis by simp
    qed (use later in \<open>simp add: Send concerns_def\<close>)
  qed (use later assms(2,4) in \<open>auto simp: concerns_def quiet_def loop_tick_def loop_probed_def loop_done_def
      Gateway_Stop_def HealthChecker_Stop_def Let_def split: if_splits\<close>)
qed

lemma history_ok_step:
  assumes "history_ok bs first es s" and "gateway_do e s = Some (out, s')" and "event_ok e"
  shows "history_ok bs first (es @ [e]) s'"
  using flags_ok_step [OF _ assms(2), of bs "\<lambda>i. last_answer (first i) i es"] history_ok_flight [OF assms] assms(1)
  by (simp add: history_ok_def last_answer_append)

text \<open>Every event of a session happens in a state that the events before it explain.\<close>

lemma session_state:
  assumes "gateway_session es s = Some (outs, s')" and "history_ok bs first pre s" and "list_all event_ok es" and "k < length es"
  shows "\<exists>sk sk'. history_ok bs first (pre @ take k es) sk \<and> gateway_do (es ! k) sk = Some (outs ! k, sk')"
  using assms
proof (induction es arbitrary: s outs pre k)
  case (Cons e es)
  obtain out s1 outs1 where e: "gateway_do e s = Some (out, s1)" and es: "gateway_session es s1 = Some (outs1, s')"
    and outs: "outs = out # outs1" using Cons.prems(1) by (auto split: option.splits prod.splits)
  show ?case
  proof (cases k)
    case 0
    with Cons.prems(2) e outs show ?thesis by auto
  next
    case (Suc j)
    from Cons.prems(3) have "event_ok e" by simp
    from Cons.IH [OF es history_ok_step [OF Cons.prems(2) e this], of j] Suc Cons.prems(3,4) outs show ?thesis by simp
  qed
qed simp

text \<open>
  Property C30. Routing follows the probes: in any session of a gateway, however the steps of
  requests interleave with each other and with the probes of the health checker, what is sent
  is a POST to one of the two inference routes, with its body, and it is sent to a configured
  backend that serves the model it names and that had answered its most recent probe with 200
  when the request took its copy of the healthy backends. A probe that ends later does not
  stop the request from trying the candidates it has. The first round of probes has ended
  before the first request.
\<close>

theorem gateway_routes_to_probed:
  assumes "Gateway_Start get order (Gateway_New cfg) = Inr s" and "mset order = mset [0..<length (gc_Backends cfg)]"
    and "gateway_session es s = Some (outs, s')" and "list_all event_ok es"
    and "k < length es" and "es ! k = Send n answer" and "outs ! k = (reply, Some (b, req))"
  shows "\<exists>e1 e2 e3 env path r body.
    take k es = e1 @ Begin n env path r # e2 @ Choose n # e3 \<and> \<not> list_ex (concerns n) (e2 @ e3) \<and>
    gr_Method r = ''POST'' \<and> (path = ''/v1/chat/completions'' \<or> path = ''/v1/completions'') \<and>
    gr_Body r = Some body \<and> req = proxy_request r path body b \<and>
    (\<exists>i < length (gc_Backends cfg). b = (gc_Backends cfg ! i)\<lparr>Backend_Healthy := True\<rparr> \<and>
       extractModel env body \<in> set (Backend_Models (gc_Backends cfg ! i)) \<and>
       last_answer (get (Backend_Endpoint (gc_Backends cfg ! i) @ ''/health'')) i (e1 @ Begin n env path r # e2) = Some 200)"
proof -
  let ?bs = "gc_Backends cfg"
  let ?first = "\<lambda>i. get (Backend_Endpoint (?bs ! i) @ ''/health'')"
  have "gs_flight s = Map.empty" using assms(1) by (auto simp: Gateway_Start_def split: sum.splits)
  then have "history_ok ?bs ?first [] s" using flags_ok_start [OF assms(1,2)] by (simp add: history_ok_def)
  from session_state [OF assms(3) this assms(4,5)] obtain sk sk' where
    sk: "history_ok ?bs ?first (take k es) sk" and send: "request_send n answer sk = Some ((reply, Some (b, req)), sk')"
    using assms(6,7) by auto
  from send obtain env path r body rest where
    fl: "gs_flight sk n = Some (Trying env path r body (b # rest))" "req = proxy_request r path body b"
    by (auto simp: request_send_def Let_def split: option.splits flight.splits list.splits if_splits)
  with sk have "flight_ok ?bs ?first (take k es) n (Trying env path r body (b # rest))" unfolding history_ok_def by blast
  with fl(2) show ?thesis by (simp add: inference_request_def target_ok_def) blast
qed

definition demo_gcfg :: Gateway_Config where
  "demo_gcfg = Gateway_DefaultConfig\<lparr>gc_Backends := [demo_backend ''a'' 1 False, demo_backend ''b'' 1 False]\<rparr>"

definition demo_session :: "gateway_event list" where
  "demo_session = [Begin 7 demo_genv ''/v1/completions'' demo_grequest, Choose 7, Tick, Probed 1 None,
     Send 7 ResponseError, Send 7 (Upstream 200 Map.empty [''hi''])]"

text \<open>
  Both backends answer the first round, and a request takes them as its candidates. Then the
  second one fails its next probe, and the request is sent to it all the same when the first
  one fails.
\<close>

lemma demo_session_sends:
  "\<exists>s outs s' reply req. Gateway_Start (\<lambda>url. Some 200) [1, 0] (Gateway_New demo_gcfg) = Inr s \<and>
     gateway_session demo_session s = Some (outs, s') \<and> outs ! 5 = (reply, Some (demo_backend ''b'' 1 True, req)) \<and>
     hc_backends (gw_health (gs_gateway s')) = [demo_backend ''a'' 1 True, demo_backend ''b'' 1 False]"
proof -
  let ?hc = "\<lparr>hc_backends = [demo_backend ''a'' 1 True, demo_backend ''b'' 1 True], hc_interval = 10 ^ 10, hc_timeout = 3 * 10 ^ 9\<rparr>"
  let ?gw = "(Gateway_New demo_gcfg)\<lparr>gw_health := ?hc\<rparr>"
  let ?s = "\<lparr>gs_gateway = ?gw, gs_flight = Map.empty, gs_pending = [], gs_cancelled = False, gs_exited = False\<rparr>"
  have start: "Gateway_Start (\<lambda>url. Some 200) [1, 0] (Gateway_New demo_gcfg) = Inr ?s"
    by (simp add: Gateway_Start_def HealthChecker_Start_def Gateway_New_def demo_gcfg_def Gateway_DefaultConfig_def
        NewHealthChecker_def probeAll_def probe_write_def probe_def demo_backend_def)
  have "gw_limiter ?gw = gw_limiter demo_gateway" by (simp add: Gateway_New_def demo_gcfg_def demo_gateway_def)
  then obtain lim where lim: "Registry_Allow 0 0 (gw_limiter ?gw) ''m'' = (True, lim)"
    using demo_allowed by (metis (full_types) prod.collapse)
  have clean: "cleanPath ''/v1/completions'' = ''/v1/completions''" by code_simp
  have find: "findBackends (ge_intn demo_genv) ?hc ''m'' = [demo_backend ''a'' 1 True, demo_backend ''b'' 1 True]"
    by (simp add: findBackends_def weightedShuffle_def shuffle_step_def GetHealthyBackends_def demo_backend_def
        demo_genv_def SupportsModel_iff)
  have model: "extractModel demo_genv body = ''m''" "ge_now demo_genv = (0, 0)" for body
    by (simp_all add: extractModel_def demo_genv_def)
  have req: "gr_Method demo_grequest = ''POST''" "gr_Body demo_grequest = Some ''{}''" by (simp_all add: demo_grequest_def)
  let ?a = "demo_backend ''a'' 1 True" and ?b = "demo_backend ''b'' 1 True" and ?fl = "Trying demo_genv ''/v1/completions'' demo_grequest ''{}''"
  let ?s1 = "\<lambda>fl bs ps. ?s\<lparr>gs_gateway := ?gw\<lparr>gw_limiter := lim, gw_health := ?hc\<lparr>hc_backends := bs\<rparr>\<rparr>, gs_flight := fl, gs_pending := ps\<rparr>"
  let ?bs = "[?a, demo_backend ''b'' 1 False]"
  have 1: "gateway_do (Begin 7 demo_genv ''/v1/completions'' demo_grequest) ?s =
      Some ((None, None), ?s1 [7 \<mapsto> Admitted demo_genv ''/v1/completions'' demo_grequest ''{}'' ''m''] [?a, ?b] [])"
    using lim by (simp add: request_begin_def clean model req Let_def)
  have 2: "gateway_do (Choose 7) (?s1 [7 \<mapsto> Admitted demo_genv ''/v1/completions'' demo_grequest ''{}'' ''m''] [?a, ?b] []) =
      Some ((None, None), ?s1 [7 \<mapsto> ?fl [?a, ?b]] [?a, ?b] [])"
    using find by (simp add: request_choose_def Let_def)
  have 3: "gateway_do Tick (?s1 [7 \<mapsto> ?fl [?a, ?b]] [?a, ?b] []) = Some ((None, None), ?s1 [7 \<mapsto> ?fl [?a, ?b]] [?a, ?b] [0, 1])"
    by (simp add: quiet_def loop_tick_def numeral_2_eq_2)
  have 4: "gateway_do (Probed 1 None) (?s1 [7 \<mapsto> ?fl [?a, ?b]] [?a, ?b] [0, 1]) = Some ((None, None), ?s1 [7 \<mapsto> ?fl [?a, ?b]] ?bs [0])"
    by (simp add: quiet_def loop_probed_def probe_write_def probe_def Let_def) (simp add: demo_backend_def)
  have 5: "gateway_do (Send 7 ResponseError) (?s1 [7 \<mapsto> ?fl [?a, ?b]] ?bs [0]) =
      Some ((None, Some (?a, proxy_request demo_grequest ''/v1/completions'' ''{}'' ?a)), ?s1 [7 \<mapsto> ?fl [?b]] ?bs [0])"
    by (simp add: request_send_def final_reply_def Let_def)
  obtain reply where 6: "gateway_do (Send 7 (Upstream 200 Map.empty [''hi''])) (?s1 [7 \<mapsto> ?fl [?b]] ?bs [0]) =
      Some ((reply, Some (?b, proxy_request demo_grequest ''/v1/completions'' ''{}'' ?b)), ?s1 Map.empty ?bs [0])"
    by (simp add: request_send_def final_reply_def Let_def)
  have "gateway_session demo_session ?s = Some ([(None, None), (None, None), (None, None), (None, None),
      (None, Some (?a, proxy_request demo_grequest ''/v1/completions'' ''{}'' ?a)),
      (reply, Some (?b, proxy_request demo_grequest ''/v1/completions'' ''{}'' ?b))], ?s1 Map.empty ?bs [0])"
    by (simp only: demo_session_def gateway_session.simps 1 2 3 4 5 6 option.case prod.case)
  with start show ?thesis by fastforce
qed

theorem gateway_routes_to_probed_witness:
  "\<exists>s outs s' reply req. Gateway_Start (\<lambda>url. Some 200) [1, 0] (Gateway_New demo_gcfg) = Inr s \<and>
     gateway_session demo_session s = Some (outs, s') \<and> outs ! 5 = (reply, Some (demo_backend ''b'' 1 True, req)) \<and>
     (\<exists>body. req = proxy_request demo_grequest ''/v1/completions'' body (demo_backend ''b'' 1 True))"
proof -
  obtain s outs s' reply req where
    r: "Gateway_Start (\<lambda>url. Some 200) [1, 0] (Gateway_New demo_gcfg) = Inr s"
      "gateway_session demo_session s = Some (outs, s')" "outs ! 5 = (reply, Some (demo_backend ''b'' 1 True, req))"
    using demo_session_sends by blast
  have order: "mset [1, 0] = mset [0..<length (gc_Backends demo_gcfg)]"
    by (simp add: demo_gcfg_def numeral_2_eq_2 add_mset_commute)
  have ok: "list_all event_ok demo_session"
    by (simp add: demo_session_def event_ok_def intn_ok_def demo_genv_def)
  have k: "5 < length demo_session" "demo_session ! 5 = Send 7 (Upstream 200 Map.empty [''hi''])"
    by (simp_all add: demo_session_def)
  from gateway_routes_to_probed [OF r(1) order r(2) ok k r(3)] obtain e1 e2 e3 env path q body where
    "take 5 demo_session = e1 @ Begin 7 env path q # e2 @ Choose 7 # e3" "req = proxy_request q path body (demo_backend ''b'' 1 True)"
    by blast
  then have "path = ''/v1/completions'' \<and> q = demo_grequest"
    by (auto simp: demo_session_def numeral_nat Cons_eq_append_conv)
  with r \<open>req = _\<close> show ?thesis by blast
qed

end
