(* ===== verification/Go_Hash.thy ===== *)
theory Go_Hash
  imports Prelude
begin

text \<open>
  The byte-level library functions the telemetry gateway uses: little-endian
  \<^verbatim>\<open>uint32\<close> of \<^verbatim>\<open>encoding/binary\<close>, the IEEE checksum of \<^verbatim>\<open>hash/crc32\<close> and the
  FNV-1a hashes of \<^verbatim>\<open>hash/fnv\<close>, on machine words. The main facts are the round trip of
  the encoding and that the checksum tells apart any two inputs that differ in one byte.
\<close>

unbundle bit_operations_syntax

type_synonym bytes = "8 word list"

definition string_bytes :: "string \<Rightarrow> bytes" where
  "string_bytes s = map (\<lambda>c. word_of_nat (of_char c)) s"

section \<open>Little-endian integers\<close>

definition PutUint32 :: "32 word \<Rightarrow> bytes" where
  "PutUint32 w = [ucast w, ucast (drop_bit 8 w), ucast (drop_bit 16 w), ucast (drop_bit 24 w)]"

definition Uint32 :: "bytes \<Rightarrow> 32 word" where
  "Uint32 bs = ucast (bs ! 0) OR push_bit 8 (ucast (bs ! 1)) OR push_bit 16 (ucast (bs ! 2)) OR push_bit 24 (ucast (bs ! 3))"

lemma length_PutUint32 [simp]: "length (PutUint32 w) = 4"
  by (simp add: PutUint32_def)

lemma Uint32_PutUint32: "Uint32 (PutUint32 w) = w"
proof (rule bit_word_eqI)
  fix n assume "n < LENGTH(32)"
  then show "bit (Uint32 (PutUint32 w)) n = bit w n"
    by (cases "n < 8"; cases "n < 16"; cases "n < 24") (auto simp: Uint32_def PutUint32_def bit_simps)
qed

section \<open>CRC-32\<close>

definition crc_step :: "32 word \<Rightarrow> 32 word" where
  "crc_step c = (if bit c 0 then drop_bit 1 c XOR 0xEDB88320 else drop_bit 1 c)"

definition crc_byte :: "32 word \<Rightarrow> 8 word \<Rightarrow> 32 word" where
  "crc_byte c b = (crc_step ^^ 8) (c XOR ucast b)"

definition ChecksumIEEE :: "bytes \<Rightarrow> 32 word" where
  "ChecksumIEEE bs = NOT (foldl crc_byte (NOT 0) bs)"

text \<open>The polynomial has its top bit set, so the top bit of a step tells which branch it took.\<close>

lemma crc_step_top: "bit (crc_step c) 31 = bit c 0"
proof -
  have "bit (0xEDB88320 :: 32 word) 31" by code_simp
  moreover have "\<not> bit c 32" using bit_imp_le_length [of c 32] by auto
  ultimately show ?thesis by (simp add: crc_step_def bit_simps)
qed

lemma inj_crc_step: "inj crc_step"
proof (rule injI)
  fix c d assume eq: "crc_step c = crc_step d"
  then have low: "bit c 0 = bit d 0" by (metis crc_step_top)
  have "drop_bit 1 c = drop_bit 1 d"
  proof (cases "bit c 0")
    case True
    with eq low have "(drop_bit 1 c XOR 0xEDB88320) XOR 0xEDB88320 = (drop_bit 1 d XOR 0xEDB88320) XOR 0xEDB88320"
      by (simp add: crc_step_def)
    then show ?thesis by (simp only: xor.assoc) simp
  next
    case False
    with eq low show ?thesis by (simp add: crc_step_def)
  qed
  then have high: "bit c (Suc n) = bit d (Suc n)" for n
    by (metis bit_drop_bit_eq plus_1_eq_Suc comp_apply)
  show "c = d"
  proof (rule bit_word_eqI)
    fix n show "bit c n = bit d n" using low high by (cases n) simp_all
  qed
qed

lemma word_xor_cancel: "c XOR x = d XOR x \<longleftrightarrow> c = d" "x XOR c = x XOR d \<longleftrightarrow> c = d" for x c d :: "'a::len word"
proof -
  have "(c XOR x) XOR x = c" "(d XOR x) XOR x = d" by (simp_all only: xor.assoc) simp_all
  then show "c XOR x = d XOR x \<longleftrightarrow> c = d" by metis
  then show "x XOR c = x XOR d \<longleftrightarrow> c = d" by (simp add: xor.commute)
qed

lemma crc_byte_inject: "crc_byte c b = crc_byte d b' \<longleftrightarrow> c XOR ucast b = d XOR ucast b'"
  by (simp add: crc_byte_def inj_eq [OF inj_fn [OF inj_crc_step]])

lemma crc_fold_inject: "foldl crc_byte c bs = foldl crc_byte d bs \<longleftrightarrow> c = d"
proof (induction bs arbitrary: c d)
  case (Cons b bs)
  from Cons show ?case by (simp add: crc_byte_inject word_xor_cancel)
qed simp

lemma ChecksumIEEE_one_byte:
  assumes "b \<noteq> b'"
  shows "ChecksumIEEE (pre @ b # post) \<noteq> ChecksumIEEE (pre @ b' # post)"
proof -
  have "(ucast b :: 32 word) \<noteq> ucast b'"
  proof
    assume eq: "(ucast b :: 32 word) = ucast b'"
    have "b = b'"
    proof (rule bit_word_eqI)
      fix n assume "n < LENGTH(8)"
      then show "bit b n = bit b' n" using arg_cong [OF eq, of "\<lambda>w. bit w n"] by (simp add: bit_simps)
    qed
    with assms show False by simp
  qed
  then have "foldl crc_byte (NOT 0) pre XOR ucast b \<noteq> foldl crc_byte (NOT 0) pre XOR ucast b'"
    by (simp add: word_xor_cancel)
  then have "foldl crc_byte (NOT 0) (pre @ b # post) \<noteq> foldl crc_byte (NOT 0) (pre @ b' # post)"
    by (simp add: crc_fold_inject crc_byte_inject)
  then show ?thesis unfolding ChecksumIEEE_def by (metis bit.double_compl)
qed

section \<open>FNV-1a\<close>

definition fnv32a :: "bytes \<Rightarrow> 32 word" where
  "fnv32a bs = foldl (\<lambda>h b. (h XOR ucast b) * 16777619) 2166136261 bs"

definition fnv64a :: "bytes \<Rightarrow> 64 word" where
  "fnv64a bs = foldl (\<lambda>h b. (h XOR ucast b) * 1099511628211) 14695981039346656037 bs"


text \<open>The published check values.\<close>

lemma crc_byte_unfold:
  "crc_byte c b = (let x1 = crc_step (c XOR ucast b); x2 = crc_step x1; x3 = crc_step x2; x4 = crc_step x3;
     x5 = crc_step x4; x6 = crc_step x5; x7 = crc_step x6 in crc_step x7)"
  by (simp add: crc_byte_def eval_nat_numeral)

lemma crc_check_value: "ChecksumIEEE (string_bytes ''123456789'') = 0xCBF43926"
  by (simp add: ChecksumIEEE_def string_bytes_def crc_byte_unfold crc_step_def)

lemma fnv_check_values:
  "fnv32a (string_bytes ''foobar'') = 0xBF9CF968" "fnv64a (string_bytes ''foobar'') = 0x85944171F73967E8"
  by (simp_all add: fnv32a_def fnv64a_def string_bytes_def)

end
