(* ===== verification/Wal.thy ===== *)
theory Wal
  imports Go_Hash Go_Text Go_Sort
begin

text \<open>
  The write-ahead log of the telemetry gateway (\<^verbatim>\<open>internal/otelgateway/wal/wal.go\<close>).
  The log directory is the list of its files with their contents. Every system call can
  fail: a \<open>wal_io\<close> gives the outcome of each call an operation makes, a failed write
  leaves the bytes written so far. The calls that change the Prometheus counters are
  counted in the environment. Records, rotation, restart and replay are modelled here; the
  background \<^verbatim>\<open>fsync\<close> has no effect on what a reader sees and is the subject of \<open>Wal_Sync\<close>.
\<close>

unbundle bit_operations_syntax

section \<open>Configuration and disk\<close>

record wal_Config =
  wc_Dir :: string
  wc_SegmentMaxSize :: int
  wc_SyncInterval :: int

definition wal_DefaultConfig :: wal_Config where
  "wal_DefaultConfig = \<lparr>wc_Dir = ''/tmp/gateway-wal'', wc_SegmentMaxSize = 64 * 1024 * 1024, wc_SyncInterval = 500000000\<rparr>"

definition headerSize :: nat where
  "headerSize = 8"

type_synonym wal_dir = "(string \<times> bytes) list"

record wal_env =
  we_dir :: wal_dir
  we_append :: nat
  we_replay :: nat
  we_corruption :: nat

text \<open>A write outcome is \<open>None\<close> for a complete write and \<open>Some k\<close> for an error after \<open>k\<close> bytes.\<close>

record wal_io =
  io_mkdir :: bool
  io_readdir :: bool
  io_close :: bool
  io_create :: bool
  io_header :: "nat option"
  io_data :: "nat option"

definition io_ok :: wal_io where
  "io_ok = \<lparr>io_mkdir = True, io_readdir = True, io_close = True, io_create = True, io_header = None, io_data = None\<rparr>"

definition io_error :: error where
  "io_error = ErrorString ''input/output error''"

definition ErrClosed :: error where
  "ErrClosed = ErrorString ''file already closed''"

definition ErrInvalid :: error where
  "ErrInvalid = ErrorString ''invalid argument''"

section \<open>The writer\<close>

text \<open>The current file is known by its name and whether its descriptor is still open.\<close>

record Writer =
  wr_cfg :: wal_Config
  wr_current :: "(string \<times> bool) option"
  wr_segSeq :: int
  wr_segSize :: int

definition pad10 :: "int \<Rightarrow> string" where
  "pad10 z =
     (if z < 0 then CHR ''-'' # replicate (9 - length (utoa (nat (- z)))) (CHR ''0'') @ utoa (nat (- z))
      else replicate (10 - length (utoa (nat z))) (CHR ''0'') @ utoa (nat z))"

definition seg_name :: "int \<Rightarrow> string" where
  "seg_name seq = ''seg-'' @ pad10 seq @ ''.wal''"

definition create_segment :: "wal_io \<Rightarrow> Writer \<Rightarrow> wal_env \<Rightarrow> error option \<times> Writer \<times> wal_env" where
  "create_segment io w env =
     (if \<not> io_create io then (Some (wrapf ''wal: create segment'' io_error), w, env)
      else (None,
        w\<lparr>wr_current := Some (seg_name (wr_segSeq w), True), wr_segSize := 0, wr_segSeq := i64 (wr_segSeq w + 1)\<rparr>,
        env\<lparr>we_dir := AList.update (seg_name (wr_segSeq w)) [] (we_dir env)\<rparr>))"

definition wal_rotate :: "wal_io \<Rightarrow> Writer \<Rightarrow> wal_env \<Rightarrow> error option \<times> Writer \<times> wal_env" where
  "wal_rotate io w env =
     (case wr_current w of
        None \<Rightarrow> create_segment io w env
      | Some (f, False) \<Rightarrow> (Some ErrClosed, w, env)
      | Some (f, True) \<Rightarrow>
          if \<not> io_close io then (Some io_error, w\<lparr>wr_current := Some (f, False)\<rparr>, env)
          else create_segment io (w\<lparr>wr_current := Some (f, False)\<rparr>) env)"

definition scan_segment :: "string \<Rightarrow> int option" where
  "scan_segment name = (if HasPrefix name ''seg-'' then Sscanf_d ''.wal'' (drop 4 name) else None)"

definition findMaxSegment :: "wal_dir \<Rightarrow> int" where
  "findMaxSegment dir =
     foldl (\<lambda>maxSeq (name, content).
       if HasSuffix name ''.wal'' then
         (case scan_segment name of None \<Rightarrow> maxSeq | Some seq \<Rightarrow> if seq > maxSeq then seq else maxSeq)
       else maxSeq) 0 dir"

definition NewWriter :: "wal_io \<Rightarrow> wal_Config \<Rightarrow> wal_env \<Rightarrow> (error + Writer) \<times> wal_env" where
  "NewWriter io cfg env =
     (if \<not> io_mkdir io then (Inl (wrapf ''wal: create dir'' io_error), env)
      else if \<not> io_readdir io then (Inl io_error, env)
      else
        (let w = \<lparr>wr_cfg = cfg, wr_current = None, wr_segSeq = i64 (findMaxSegment (we_dir env) + 1), wr_segSize = 0\<rparr>
         in case wal_rotate io w env of
              (Some err, _, env') \<Rightarrow> (Inl err, env')
            | (None, w', env') \<Rightarrow> (Inr w', env')))"

text \<open>\<open>file_write\<close> is \<^verbatim>\<open>os.File.Write\<close> on the current file.\<close>

definition file_write :: "nat option \<Rightarrow> (string \<times> bool) option \<Rightarrow> bytes \<Rightarrow> wal_dir \<Rightarrow> error option \<times> wal_dir" where
  "file_write outcome file data dir =
     (case file of
        None \<Rightarrow> (Some ErrInvalid, dir)
      | Some (f, False) \<Rightarrow> (Some ErrClosed, dir)
      | Some (f, True) \<Rightarrow>
          (let old = (case map_of dir f of None \<Rightarrow> [] | Some bs \<Rightarrow> bs)
           in case outcome of
                None \<Rightarrow> (None, AList.update f (old @ data) dir)
              | Some k \<Rightarrow> (Some io_error, AList.update f (old @ take k data) dir)))"

definition wal_header :: "bytes \<Rightarrow> bytes" where
  "wal_header data = PutUint32 (word_of_nat (length data)) @ PutUint32 (ChecksumIEEE data)"

definition write_record :: "wal_io \<Rightarrow> bytes \<Rightarrow> Writer \<Rightarrow> wal_env \<Rightarrow> error option \<times> Writer \<times> wal_env" where
  "write_record io data w env =
     (case file_write (io_header io) (wr_current w) (wal_header data) (we_dir env) of
        (Some err, dir) \<Rightarrow> (Some (wrapf ''wal: write header'' err), w, env\<lparr>we_dir := dir\<rparr>)
      | (None, dir) \<Rightarrow>
          (case file_write (io_data io) (wr_current w) data dir of
             (Some err, dir') \<Rightarrow> (Some (wrapf ''wal: write data'' err), w, env\<lparr>we_dir := dir'\<rparr>)
           | (None, dir') \<Rightarrow>
               (None, w\<lparr>wr_segSize := i64 (wr_segSize w + i64 (int headerSize + int (length data)))\<rparr>,
                env\<lparr>we_dir := dir', we_append := we_append env + 1\<rparr>)))"

definition Append :: "wal_io \<Rightarrow> bytes \<Rightarrow> Writer \<Rightarrow> wal_env \<Rightarrow> error option \<times> Writer \<times> wal_env" where
  "Append io data w env =
     (let recordSize = i64 (int headerSize + int (length data))
      in if i64 (wr_segSize w + recordSize) > wc_SegmentMaxSize (wr_cfg w) then
           (case wal_rotate io w env of
              (Some err, w', env') \<Rightarrow> (Some (wrapf ''wal: rotate'' err), w', env')
            | (None, w', env') \<Rightarrow> write_record io data w' env')
         else write_record io data w env)"

definition Writer_Close :: "wal_io \<Rightarrow> Writer \<Rightarrow> error option \<times> Writer" where
  "Writer_Close io w =
     (case wr_current w of
        None \<Rightarrow> (None, w)
      | Some (f, False) \<Rightarrow> (Some ErrClosed, w)
      | Some (f, True) \<Rightarrow> (if io_close io then None else Some io_error, w\<lparr>wr_current := Some (f, False)\<rparr>))"

section \<open>Replay\<close>

text \<open>
  Reading a segment yields its bytes and then either the end of the file or, when the flag
  is set, a read error. \<open>ReadFull\<close> is \<^verbatim>\<open>io.ReadFull\<close> for \<open>n\<close> bytes.
\<close>

datatype read_result = ReadOk bytes bytes | ReadEOF | ReadUnexpectedEOF | ReadError

definition ReadFull :: "nat \<Rightarrow> bool \<Rightarrow> bytes \<Rightarrow> read_result" where
  "ReadFull n failing bs =
     (if n \<le> length bs then ReadOk (take n bs) (drop n bs)
      else if failing then ReadError
      else if bs = [] then ReadEOF
      else ReadUnexpectedEOF)"

fun read_error :: "read_result \<Rightarrow> error" where
  "read_error ReadEOF = ErrorString ''EOF''"
| "read_error ReadUnexpectedEOF = ErrorString ''unexpected EOF''"
| "read_error _ = io_error"

lemma ReadFull_Ok: "ReadFull n failing bs = ReadOk data rest \<Longrightarrow> bs = data @ rest \<and> length data = n"
  by (auto simp: ReadFull_def split: if_splits)

type_synonym 's callback = "'s \<Rightarrow> bytes \<Rightarrow> error option \<times> 's"

function replay_loop :: "'s callback \<Rightarrow> bool \<Rightarrow> bytes \<Rightarrow> nat \<Rightarrow> nat \<Rightarrow> 's \<Rightarrow> nat \<times> error option \<times> nat \<times> 's" where
  "replay_loop fn failing bs cnt corrupt s =
     (case ReadFull headerSize failing bs of
        ReadEOF \<Rightarrow> (cnt, None, corrupt, s)
      | ReadUnexpectedEOF \<Rightarrow> (cnt, None, corrupt, s)
      | ReadError \<Rightarrow> (cnt, Some (wrapf ''read header'' io_error), corrupt, s)
      | ReadOk header rest \<Rightarrow>
          (case ReadFull (unat (Uint32 (take 4 header))) failing rest of
             ReadOk data rest' \<Rightarrow>
               (if ChecksumIEEE data \<noteq> Uint32 (drop 4 header) then
                  (cnt, Some (ErrorString (''crc mismatch at record '' @ itoa (int cnt))), Suc corrupt, s)
                else
                  (case fn s data of
                     (Some err, s') \<Rightarrow> (cnt, Some (wrapf (''callback error at record '' @ itoa (int cnt)) err), corrupt, s')
                   | (None, s') \<Rightarrow> replay_loop fn failing rest' (Suc cnt) corrupt s'))
           | r \<Rightarrow> (cnt, Some (wrapf ''read data'' (read_error r)), corrupt, s)))"
  by pat_completeness auto
termination
  by (relation "measure (\<lambda>(fn, failing, bs, _). length bs)") (auto dest!: ReadFull_Ok simp: headerSize_def)

text \<open>Opening a segment fails, or gives the bytes that can be read and whether a read error follows.\<close>

type_synonym wal_open = "string \<Rightarrow> bytes \<Rightarrow> (bytes \<times> bool) option"

definition open_ok :: wal_open where
  "open_ok name content = Some (content, False)"

definition replaySegment ::
  "wal_open \<Rightarrow> 's callback \<Rightarrow> string \<Rightarrow> bytes \<Rightarrow> nat \<Rightarrow> 's \<Rightarrow> nat \<times> error option \<times> nat \<times> 's" where
  "replaySegment opn fn name content corrupt s =
     (case opn name content of
        None \<Rightarrow> (0, Some io_error, corrupt, s)
      | Some (bs, failing) \<Rightarrow> replay_loop fn failing bs 0 corrupt s)"

definition segments :: "wal_dir \<Rightarrow> string list" where
  "segments dir = sort_slice str_less (filter (\<lambda>name. HasSuffix name ''.wal'') (map fst dir))"

fun replay_segments :: "wal_open \<Rightarrow> 's callback \<Rightarrow> wal_dir \<Rightarrow> string list \<Rightarrow> nat \<Rightarrow> 's \<Rightarrow> nat \<times> 's" where
  "replay_segments opn fn dir [] corrupt s = (corrupt, s)"
| "replay_segments opn fn dir (name # names) corrupt s =
     (case replaySegment opn fn name (case map_of dir name of None \<Rightarrow> [] | Some bs \<Rightarrow> bs) corrupt s of
        (_, Some err, corrupt', s') \<Rightarrow> replay_segments opn fn dir names (corrupt' + 1) s'
      | (_, None, corrupt', s') \<Rightarrow> replay_segments opn fn dir names corrupt' s')"

text \<open>The directory may be missing, unreadable or readable.\<close>

datatype dir_state = DirMissing | DirUnreadable | DirReadable

definition Replay ::
  "dir_state \<Rightarrow> wal_open \<Rightarrow> 's callback \<Rightarrow> wal_env \<Rightarrow> 's \<Rightarrow> error option \<times> wal_env \<times> 's" where
  "Replay st opn fn env s =
     (case st of
        DirMissing \<Rightarrow> (None, env, s)
      | DirUnreadable \<Rightarrow> (Some (wrapf ''wal: read dir'' io_error), env, s)
      | DirReadable \<Rightarrow>
          (let (corrupt, s') = replay_segments opn fn (we_dir env) (segments (we_dir env)) (we_corruption env) s
           in (None, env\<lparr>we_corruption := corrupt, we_replay := we_replay env + 1\<rparr>, s')))"


section \<open>Records\<close>

declare replay_loop.simps [simp del]

definition wal_record :: "bytes \<Rightarrow> bytes" where
  "wal_record data = wal_header data @ data"

definition seg_bytes :: "bytes list \<Rightarrow> bytes" where
  "seg_bytes ds = concat (map wal_record ds)"

definition record_ok :: "bytes \<Rightarrow> bool" where
  "record_ok data \<longleftrightarrow> length data < 2 ^ 32"

lemma length_wal_header [simp]: "length (wal_header data) = 8"
  by (simp add: wal_header_def)

lemma length_wal_record [simp]: "length (wal_record data) = 8 + length data"
  by (simp add: wal_record_def)

lemma seg_bytes_simps [simp]:
  "seg_bytes [] = []" "seg_bytes (d # ds) = wal_record d @ seg_bytes ds" "seg_bytes (ds @ es) = seg_bytes ds @ seg_bytes es"
  by (simp_all add: seg_bytes_def)

lemma header_length: "record_ok data \<Longrightarrow> unat (Uint32 (take 4 (wal_header data))) = length data"
  by (simp add: wal_header_def Uint32_PutUint32 record_ok_def unat_of_nat)

lemma header_crc: "Uint32 (drop 4 (wal_header data)) = ChecksumIEEE data"
  by (simp add: wal_header_def Uint32_PutUint32)

lemma ReadFull_append: "length xs = n \<Longrightarrow> ReadFull n failing (xs @ ys) = ReadOk xs ys"
  by (simp add: ReadFull_def)

lemma replay_loop_record:
  assumes "record_ok data"
  shows "replay_loop fn failing (wal_record data @ rest) n c s =
    (case fn s data of
       (Some err, s') \<Rightarrow> (n, Some (wrapf (''callback error at record '' @ itoa (int n)) err), c, s')
     | (None, s') \<Rightarrow> replay_loop fn failing rest (Suc n) c s')"
  using assms
  by (subst replay_loop.simps)
    (simp add: wal_record_def ReadFull_append header_length header_crc headerSize_def)

text \<open>The recording callback; what it has seen after a segment is what the segment delivers.\<close>

definition collect :: "bytes list callback" where
  "collect seen data = (None, seen @ [data])"

lemma replay_loop_records:
  "list_all record_ok ds \<Longrightarrow>
   replay_loop collect failing (seg_bytes ds @ rest) n c s = replay_loop collect failing rest (n + length ds) c (s @ ds)"
proof (induction ds arbitrary: n s)
  case (Cons d ds)
  have "replay_loop collect failing (seg_bytes (d # ds) @ rest) n c s =
      replay_loop collect failing (wal_record d @ (seg_bytes ds @ rest)) n c s" by simp
  also have "\<dots> = replay_loop collect failing (seg_bytes ds @ rest) (Suc n) c (s @ [d])"
    using Cons.prems by (subst replay_loop_record) (simp_all add: collect_def)
  finally show ?case using Cons by simp
qed simp

lemma replay_loop_short:
  "length rest < 8 \<Longrightarrow> replay_loop fn False rest n c s = (n, None, c, s)"
  by (subst replay_loop.simps) (simp add: ReadFull_def headerSize_def)

text \<open>A record cut inside its payload ends the replay of the segment with an error.\<close>

lemma replay_loop_cut:
  assumes "record_ok data" and "8 \<le> k" and "k < 8 + length data"
  shows "\<exists>err. replay_loop fn False (take k (wal_record data)) n c s = (n, Some err, c, s)"
proof -
  have "take k (wal_record data) = wal_header data @ take (k - 8) data"
    using assms(2) by (simp add: wal_record_def)
  moreover have "\<not> length data \<le> length (take (k - 8) data)" using assms by simp
  ultimately show ?thesis
    by (subst replay_loop.simps)
      (simp add: ReadFull_append headerSize_def header_length assms(1) del: length_take,
       simp add: ReadFull_def del: length_take)
qed

text \<open>A payload with one changed byte is caught by its checksum.\<close>

lemma replay_loop_flipped:
  assumes "record_ok (pre @ b # post)" and "b \<noteq> b'"
  shows "replay_loop fn failing (wal_header (pre @ b # post) @ pre @ b' # post @ rest) n c s =
    (n, Some (ErrorString (''crc mismatch at record '' @ itoa (int n))), Suc c, s)"
proof -
  have "ChecksumIEEE (pre @ b' # post) \<noteq> ChecksumIEEE (pre @ b # post)"
    using ChecksumIEEE_one_byte [OF assms(2)] by metis
  moreover have "ReadFull (length (pre @ b # post)) failing (pre @ b' # post @ rest) = ReadOk (pre @ b' # post) rest"
    by (simp add: ReadFull_def)
  ultimately show ?thesis
    by (subst replay_loop.simps)
      (simp only: ReadFull_append length_wal_header headerSize_def read_result.case header_length [OF assms(1)] header_crc
        if_True not_False_eq_True simp_thms)
qed

section \<open>What a log delivers\<close>

abbreviation seen :: "'a \<times> 'b \<times> 'c \<times> 's \<Rightarrow> 's" where
  "seen r \<equiv> snd (snd (snd r))"

definition delivered :: "bytes \<Rightarrow> bytes list" where
  "delivered bs = seen (replay_loop collect False bs 0 0 [])"

lemma replay_loop_seen:
  "seen (replay_loop collect failing bs n c s) = s @ seen (replay_loop collect failing bs m d [])"
proof (induction bs arbitrary: n c s m d rule: length_induct)
  case (1 bs)
  show ?case
  proof (cases "ReadFull headerSize failing bs")
    case (ReadOk header rest)
    note header = this
    show ?thesis
    proof (cases "ReadFull (unat (Uint32 (take 4 header))) failing rest")
      case (ReadOk data rest')
      have "length rest' < length bs"
        using ReadFull_Ok [OF header] ReadFull_Ok [OF ReadOk] by (auto simp: headerSize_def)
      note IH = 1 [rule_format, OF this]
      show ?thesis
      proof (cases "ChecksumIEEE data = Uint32 (drop 4 header)")
        case True
        have step: "replay_loop collect failing bs n' c' s' = replay_loop collect failing rest' (Suc n') c' (s' @ [data])" for n' c' s'
          by (subst replay_loop.simps) (simp add: header ReadOk True collect_def)
        show ?thesis unfolding step using IH [of "Suc n" c "s @ [data]" 0 0] IH [of "Suc m" d "[data]" 0 0] by simp
      qed (simp add: replay_loop.simps [of _ _ bs] header ReadOk)
    qed (simp_all add: replay_loop.simps [of _ _ bs] header)
  qed (simp_all add: replay_loop.simps [of _ _ bs])
qed

lemma seen_delivered: "seen (replay_loop collect False bs n c s) = s @ delivered bs"
  unfolding delivered_def by (rule replay_loop_seen)

lemma delivered_records: "list_all record_ok ds \<Longrightarrow> delivered (seg_bytes ds @ rest) = ds @ delivered rest"
  using seen_delivered [of rest "length ds" 0 ds] replay_loop_records [of ds False rest 0 0 "[]"]
  by (simp add: delivered_def)

lemma delivered_short: "length bs < 8 \<Longrightarrow> delivered bs = []"
  by (simp add: delivered_def replay_loop_short)

definition content :: "wal_dir \<Rightarrow> string \<Rightarrow> bytes" where
  "content dir name = (case map_of dir name of None \<Rightarrow> [] | Some bs \<Rightarrow> bs)"

definition dir_records :: "wal_dir \<Rightarrow> bytes list" where
  "dir_records dir = concat (map (\<lambda>name. delivered (content dir name)) (segments dir))"

lemma replay_segments_seen:
  "snd (replay_segments open_ok collect dir names c s) = s @ concat (map (\<lambda>name. delivered (content dir name)) names)"
proof (induction names arbitrary: c s)
  case (Cons name names)
  obtain n err c' s' where r: "replay_loop collect False (content dir name) 0 c s = (n, err, c', s')"
    by (metis prod_cases4)
  then have "s' = s @ delivered (content dir name)" using seen_delivered [of "content dir name" 0 c s] by simp
  with r Cons show ?case
    by (cases err) (simp_all add: replaySegment_def open_ok_def content_def)
qed simp

lemma Replay_records:
  "Replay DirReadable open_ok collect env [] = (err, env', ds) \<Longrightarrow> err = None \<and> ds = dir_records (we_dir env)"
  using replay_segments_seen [of "we_dir env" "segments (we_dir env)" "we_corruption env" "[]"]
  by (auto simp: Replay_def dir_records_def split: prod.splits)

text \<open>Cutting a segment anywhere delivers the records that lie before the cut.\<close>

lemma delivered_cut:
  assumes "list_all record_ok ds"
  obtains m where "m \<le> length ds" and "delivered (take k (seg_bytes ds)) = take m ds"
    and "length (seg_bytes (take m ds)) \<le> k" and "m < length ds \<Longrightarrow> k < length (seg_bytes (take (Suc m) ds))"
  using assms
proof (induction ds arbitrary: k thesis)
  case Nil
  show ?case by (rule Nil(1) [of 0]) (simp_all add: delivered_short)
next
  case (Cons d ds)
  show ?case
  proof (cases "8 + length d \<le> k")
    case True
    obtain m where m: "m \<le> length ds" "delivered (take (k - (8 + length d)) (seg_bytes ds)) = take m ds"
      "length (seg_bytes (take m ds)) \<le> k - (8 + length d)"
      "m < length ds \<Longrightarrow> k - (8 + length d) < length (seg_bytes (take (Suc m) ds))"
      using Cons.IH [of "k - (8 + length d)"] Cons.prems(2) by auto
    have "take k (seg_bytes (d # ds)) = seg_bytes [d] @ take (k - (8 + length d)) (seg_bytes ds)" using True by simp
    then have "delivered (take k (seg_bytes (d # ds))) = [d] @ take m ds"
      using m(2) Cons.prems(2) by (simp only: delivered_records list.pred_inject)
    with m True show ?thesis by (intro Cons.prems(1) [of "Suc m"]) auto
  next
    case False
    have "delivered (take k (wal_record d)) = []"
    proof (cases "k < 8")
      case True then show ?thesis by (simp add: delivered_short)
    next
      case small: False
      with False Cons.prems(2) obtain err where "replay_loop collect False (take k (wal_record d)) 0 0 [] = (0, Some err, 0, [])"
        using replay_loop_cut [of d k collect 0 0 "[]"] by auto
      then show ?thesis by (simp add: delivered_def)
    qed
    with False show ?thesis by (intro Cons.prems(1) [of 0]) auto
  qed
qed

section \<open>Segment names\<close>

lemma str_less_append [simp]: "str_less (xs @ ys) (xs @ zs) \<longleftrightarrow> str_less ys zs"
  by (induction xs) simp_all

lemma str_less_same_length:
  "length xs = length ys \<Longrightarrow> str_less (xs @ zs) (ys @ zs) \<longleftrightarrow> str_less xs ys"
proof (induction xs ys rule: list_induct2)
  case Nil
  have "\<not> str_less zs zs" by (induction zs) simp_all
  then show ?case by simp
qed simp_all

lemma digits_val_Cons: "digits_val (c # ds) = digit_val c * 10 ^ length ds + digits_val ds"
proof (induction ds rule: rev_induct)
  case (snoc d ds)
  then show ?case using digits_val_snoc [of "c # ds" d] by (simp add: digits_val_snoc algebra_simps)
qed (simp add: digits_val_def)

lemma digits_val_bound: "list_all is_digit ds \<Longrightarrow> digits_val ds < 10 ^ length ds"
proof (induction ds)
  case (Cons c ds)
  then have "digit_val c \<le> 9" "digits_val ds < 10 ^ length ds" by (auto simp: is_digit_def digit_val_def)
  then have "digit_val c * 10 ^ length ds + digits_val ds < 9 * 10 ^ length ds + 10 ^ length ds"
    by (intro add_le_less_mono mult_right_mono) simp_all
  then show ?case by (simp add: digits_val_Cons)
qed (simp add: digits_val_def)

lemma str_less_digits:
  assumes "length xs = length ys" and "list_all is_digit xs" and "list_all is_digit ys"
  shows "str_less xs ys \<longleftrightarrow> digits_val xs < digits_val ys"
  using assms
proof (induction xs ys rule: list_induct2)
  case (Cons x xs y ys)
  have b: "digits_val xs < 10 ^ length ys" "digits_val ys < 10 ^ length ys"
    using Cons digits_val_bound [of xs] digits_val_bound [of ys] by simp_all
  have d: "(of_char x :: nat) = 48 + digit_val x" "(of_char y :: nat) = 48 + digit_val y"
    using Cons.prems by (simp_all add: is_digit_def digit_val_def)
  have lt: "digit_val a * 10 ^ length ys + va < digit_val b * 10 ^ length ys + vb"
    if "digit_val a < digit_val b" "va < 10 ^ length ys" for a b va vb
  proof -
    have "digit_val a * 10 ^ length ys + va < Suc (digit_val a) * 10 ^ length ys" using that(2) by simp
    also have "\<dots> \<le> digit_val b * 10 ^ length ys" using that(1) by (intro mult_right_mono) simp_all
    finally show ?thesis by simp
  qed
  consider "digit_val x < digit_val y" | "digit_val x = digit_val y" | "digit_val y < digit_val x" by linarith
  then show ?case
  proof cases
    case 1
    then show ?thesis using lt [OF 1 b(1)] d Cons.hyps by (simp add: digits_val_Cons)
  next
    case 2
    with Cons d show ?thesis by (simp add: digits_val_Cons)
  next
    case 3
    then show ?thesis using lt [OF 3 b(2), of "digits_val xs"] d Cons.hyps by (simp add: digits_val_Cons)
  qed
qed simp

lemma length_utoa: "n < 10 ^ Suc k \<Longrightarrow> length (utoa n) \<le> Suc k"
proof (induction k arbitrary: n)
  case 0
  then show ?case by (subst utoa.simps) simp
next
  case (Suc k)
  then have "n div 10 < 10 ^ Suc k" by (simp add: less_mult_imp_div_less)
  then have "length (utoa (n div 10)) \<le> Suc k" by (rule Suc.IH)
  then show ?case by (subst utoa.simps) simp
qed

definition seq_ok :: "int \<Rightarrow> bool" where
  "seq_ok n \<longleftrightarrow> 0 \<le> n \<and> n < 10 ^ 10"

lemma digits_val_zeros: "digits_val (replicate k (CHR ''0'') @ ds) = digits_val ds"
  by (induction k) (simp_all add: digits_val_Cons digit_val_def)

lemma list_all_utoa: "list_all is_digit (utoa n)"
  using utoa_is_digit by (auto simp: list_all_iff)

lemma list_all_zeros: "list_all is_digit (replicate k (CHR ''0''))"
  by (induction k) (simp_all add: is_digit_def)

lemma pad10_digits:
  assumes "seq_ok n"
  shows "length (pad10 n) = 10" and "list_all is_digit (pad10 n)" and "digits_val (pad10 n) = nat n"
proof -
  have "nat n < 10 ^ Suc 9" using assms by (simp add: seq_ok_def nat_less_iff)
  then have "length (utoa (nat n)) \<le> Suc 9" by (rule length_utoa)
  with assms show "length (pad10 n) = 10" "list_all is_digit (pad10 n)" "digits_val (pad10 n) = nat n"
    by (simp_all add: pad10_def seq_ok_def digits_val_zeros list_all_utoa list_all_zeros
        del: utoa.simps)
qed

lemma seg_name_less: "seq_ok m \<Longrightarrow> seq_ok n \<Longrightarrow> str_less (seg_name m) (seg_name n) \<longleftrightarrow> m < n"
  using str_less_same_length [of "pad10 m" "pad10 n" "''.wal''"] str_less_digits [of "pad10 m" "pad10 n"]
  by (simp add: seg_name_def pad10_digits del: append.simps)
    (auto simp: seq_ok_def)

lemma seg_name_inject: "seq_ok m \<Longrightarrow> seq_ok n \<Longrightarrow> seg_name m = seg_name n \<longleftrightarrow> m = n"
  by (cases m n rule: linorder_cases) (metis seg_name_less order_less_irrefl)+

lemma seg_name_suffix [simp]: "HasSuffix (seg_name n) ''.wal''"
  using HasSuffix_append [of "''seg-'' @ pad10 n" "''.wal''"] by (simp add: seg_name_def)

lemma scan_segment_name [simp]:
  assumes "seq_ok n"
  shows "scan_segment (seg_name n) = Some n"
proof -
  have nz: "no_digit_first ''.wal''" by (simp add: no_digit_first_def is_digit_def)
  obtain c cs where c: "pad10 n = c # cs" using pad10_digits(1) [OF assms] by (cases "pad10 n") auto
  have dig: "list_all is_digit (pad10 n)" by (rule pad10_digits(2) [OF assms])
  then have "is_digit c" using c by simp
  then have first: "\<not> is_space c" "(of_char c :: nat) \<noteq> 10" "c \<noteq> CHR ''-''" "c \<noteq> CHR ''+''"
    by (auto simp: is_digit_def is_space_def)
  have "takeWhile is_digit (pad10 n @ ''.wal'') = pad10 n" "dropWhile is_digit (pad10 n @ ''.wal'') = ''.wal''"
    using dig by (auto simp: takeWhile_append dropWhile_append list_all_iff is_digit_def)
  moreover have "is_i64 n" using assms by (simp add: seq_ok_def is_i64_def)
  moreover have "int (nat n) = n" using assms by (simp add: seq_ok_def)
  ultimately have "scan_d (pad10 n @ ''.wal'') = Some (n, ''.wal'')"
    using first c pad10_digits(3) [OF assms] by (simp add: scan_d_def scan_sign_def)
  then show ?thesis by (simp add: scan_segment_def seg_name_def HasPrefix_def Sscanf_d_def)
qed

section \<open>Invariant\<close>

definition log_dir_ok :: "wal_dir \<Rightarrow> int \<Rightarrow> bool" where
  "log_dir_ok dir n \<longleftrightarrow> distinct (map fst dir) \<and>
     list_all (\<lambda>name. HasSuffix name ''.wal'' \<longrightarrow> (\<exists>k. seq_ok k \<and> k < n \<and> name = seg_name k)) (map fst dir)"

definition segment_ok :: "int \<Rightarrow> bytes \<Rightarrow> bool" where
  "segment_ok lim bs \<longleftrightarrow> (\<exists>rs. list_all record_ok rs \<and> bs = seg_bytes rs \<and> (length rs \<le> 1 \<or> int (length bs) \<le> lim))"

definition writer_ok :: "Writer \<Rightarrow> wal_env \<Rightarrow> bool" where
  "writer_ok w env \<longleftrightarrow> (let cur = seg_name (wr_segSeq w - 1) in
     wc_SegmentMaxSize (wr_cfg w) < 2 ^ 62 \<and> 1 \<le> wr_segSeq w \<and> wr_segSeq w \<le> 10 ^ 10 \<and>
     wr_current w = Some (cur, True) \<and> log_dir_ok (we_dir env) (wr_segSeq w) \<and>
     cur \<in> fst ` set (we_dir env) \<and> (\<exists>ns. segments (we_dir env) = ns @ [cur] \<and> cur \<notin> set ns) \<and>
     wr_segSize w = int (length (content (we_dir env) cur)) \<and>
     segment_ok (wc_SegmentMaxSize (wr_cfg w)) (content (we_dir env) cur))"

lemma content_update [simp]: "content (AList.update f v dir) g = (if g = f then v else content dir g)"
  by (simp add: content_def)

lemma segments_update: "f \<in> fst ` set dir \<Longrightarrow> segments (AList.update f v dir) = segments dir"
  by (simp add: segments_def update_keys_present)

lemma sort_slice_greatest:
  "\<forall>y \<in> set xs. \<not> lt x y \<Longrightarrow> sort_slice lt (xs @ [x]) = sort_slice lt xs @ [x]"
proof -
  assume top: "\<forall>y \<in> set xs. \<not> lt x y"
  let ?acc = "foldl (\<lambda>acc x. slice_insert lt x acc) [] xs"
  have "set ?acc = set xs" using mset_foldl_slice_insert [of lt "[]" xs] by (metis add.right_neutral mset.simps(1) set_mset_mset)
  with top have "slice_insert lt x ?acc = x # ?acc" by (cases ?acc) auto
  then show ?thesis by (simp add: sort_slice_def)
qed

lemma segments_fresh:
  assumes "log_dir_ok dir n" and "seq_ok n"
  shows "segments (AList.update (seg_name n) v dir) = segments dir @ [seg_name n]" and "seg_name n \<notin> set (segments dir)"
    and "seg_name n \<notin> fst ` set dir"
proof -
  have less: "\<exists>k. seq_ok k \<and> k < n \<and> name = seg_name k" if "name \<in> fst ` set dir" "HasSuffix name ''.wal''" for name
    using assms(1) that by (auto simp: log_dir_ok_def list_all_iff)
  show fresh: "seg_name n \<notin> fst ` set dir"
  proof
    assume "seg_name n \<in> fst ` set dir"
    then obtain k where "seq_ok k" "k < n" "seg_name n = seg_name k" using less seg_name_suffix by blast
    with assms(2) show False by (simp add: seg_name_inject)
  qed
  then show "seg_name n \<notin> set (segments dir)" by (auto simp: segments_def)
  have "\<not> str_less (seg_name n) name" if "name \<in> set (filter (\<lambda>name. HasSuffix name ''.wal'') (map fst dir))" for name
    using that less [of name] assms(2) by (auto simp: seg_name_less)
  then show "segments (AList.update (seg_name n) v dir) = segments dir @ [seg_name n]"
    by (simp add: segments_def update_fresh [OF fresh] sort_slice_greatest)
qed

lemma map_content_update:
  "cur \<notin> set ns \<Longrightarrow>
   map (\<lambda>name. delivered (content (AList.update cur v dir) name)) ns = map (\<lambda>name. delivered (content dir name)) ns"
  by (rule map_cong) auto

lemma dir_records_last:
  assumes "segments dir = ns @ [cur]" and "cur \<notin> set ns" and "cur \<in> fst ` set dir"
  shows "dir_records (AList.update cur v dir) = concat (map (\<lambda>name. delivered (content dir name)) ns) @ delivered v"
  unfolding dir_records_def segments_update [OF assms(3)] assms(1) map_append concat_append
    map_content_update [OF assms(2)] by simp

lemma dir_records_cur:
  "segments dir = ns @ [cur] \<Longrightarrow> dir_records dir = concat (map (\<lambda>name. delivered (content dir name)) ns) @ delivered (content dir cur)"
  by (simp add: dir_records_def)

lemma log_dir_ok_update: "log_dir_ok dir n \<Longrightarrow> f \<in> fst ` set dir \<Longrightarrow> log_dir_ok (AList.update f v dir) n"
  by (simp add: log_dir_ok_def update_keys_present)

lemma log_dir_ok_fresh:
  assumes "log_dir_ok dir n" and "seq_ok n"
  shows "log_dir_ok (AList.update (seg_name n) v dir) (n + 1)"
proof -
  have "map fst (AList.update (seg_name n) v dir) = map fst dir @ [seg_name n]"
    by (simp add: update_fresh [OF segments_fresh(3) [OF assms]])
  moreover have "list_all (\<lambda>name. HasSuffix name ''.wal'' \<longrightarrow> (\<exists>k. seq_ok k \<and> k < n + 1 \<and> name = seg_name k)) (map fst dir)"
    using assms(1) unfolding log_dir_ok_def list_all_iff by (meson zless_add1_eq)
  ultimately show ?thesis
    using assms segments_fresh(3) [OF assms] unfolding log_dir_ok_def by auto
qed

text \<open>A new segment is empty, is the last one and delivers nothing.\<close>

lemma create_segment_ok:
  assumes "log_dir_ok (we_dir env) (wr_segSeq w)" and "0 \<le> wr_segSeq w" and "wr_segSeq w < 10 ^ 10"
    and "wc_SegmentMaxSize (wr_cfg w) < 2 ^ 62" and "create_segment io w env = (None, w', env')"
  shows "writer_ok w' env'" and "dir_records (we_dir env') = dir_records (we_dir env)"
    and "wr_segSeq w' = wr_segSeq w + 1" and "wr_segSize w' = 0" and "wr_cfg w' = wr_cfg w"
proof -
  let ?n = "wr_segSeq w"
  have seq: "seq_ok ?n" using assms(2,3) by (simp add: seq_ok_def)
  have w: "w' = w\<lparr>wr_current := Some (seg_name ?n, True), wr_segSize := 0, wr_segSeq := ?n + 1\<rparr>"
    "we_dir env' = AList.update (seg_name ?n) [] (we_dir env)"
    using assms(2,3,5) by (auto simp: create_segment_def is_i64_def split: if_splits)
  note fresh = segments_fresh [OF assms(1) seq]
  show "wr_segSeq w' = ?n + 1" "wr_segSize w' = 0" "wr_cfg w' = wr_cfg w" using w(1) by simp_all
  have "segment_ok (wc_SegmentMaxSize (wr_cfg w)) []" by (auto simp: segment_ok_def intro: exI [of _ "[]"])
  moreover have "seg_name ?n \<in> fst ` set (AList.update (seg_name ?n) [] (we_dir env))"
    by (simp add: update_fresh [OF fresh(3)])
  ultimately show "writer_ok w' env'"
    using assms(2-4) fresh(1,2) log_dir_ok_fresh [OF assms(1) seq]
    by (simp add: writer_ok_def Let_def w)
  show "dir_records (we_dir env') = dir_records (we_dir env)"
    unfolding dir_records_def w(2) fresh(1) map_append concat_append map_content_update [OF fresh(2)]
    by (simp add: delivered_short)
qed

section \<open>Appending\<close>

lemma file_write_ok:
  "file_write None (Some (f, True)) data dir = (None, AList.update f (content dir f @ data) dir)"
  by (simp add: file_write_def content_def)

lemma file_write_None:
  "file_write outcome file data dir = (None, dir') \<Longrightarrow>
   outcome = None \<and> (\<exists>f. file = Some (f, True) \<and> dir' = AList.update f (content dir f @ data) dir)"
  by (auto simp: file_write_def content_def Let_def split: option.splits prod.splits bool.splits)

lemma write_record_None:
  assumes "write_record io data w env = (None, w', env')"
  obtains f where "wr_current w = Some (f, True)" and "io_header io = None" and "io_data io = None"
    and "we_dir env' = AList.update f (content (we_dir env) f @ wal_record data) (we_dir env)"
    and "w' = w\<lparr>wr_segSize := i64 (wr_segSize w + i64 (int headerSize + int (length data)))\<rparr>"
    and "we_append env' = Suc (we_append env)"
proof -
  obtain dir1 where h: "file_write (io_header io) (wr_current w) (wal_header data) (we_dir env) = (None, dir1)"
    using assms by (auto simp: write_record_def split: prod.splits option.splits)
  obtain dir2 where d: "file_write (io_data io) (wr_current w) data dir1 = (None, dir2)"
    using assms h by (auto simp: write_record_def split: prod.splits option.splits)
  obtain f where f: "wr_current w = Some (f, True)" "dir1 = AList.update f (content (we_dir env) f @ wal_header data) (we_dir env)"
    "io_header io = None" using file_write_None [OF h] by blast
  have "dir2 = AList.update f (content dir1 f @ data) dir1" "io_data io = None"
    using file_write_None [OF d] f(1) by auto
  with f h d assms show thesis
    by (intro that [of f]) (auto simp: write_record_def update_twice wal_record_def)
qed

definition fits :: "Writer \<Rightarrow> bytes \<Rightarrow> bool" where
  "fits w data \<longleftrightarrow> wr_segSize w + 8 + int (length data) \<le> wc_SegmentMaxSize (wr_cfg w)"

lemma segment_ok_length: "segment_ok lim bs \<Longrightarrow> lim < 2 ^ 62 \<Longrightarrow> int (length bs) < 2 ^ 62"
proof -
  assume "segment_ok lim bs" "lim < 2 ^ 62"
  then obtain rs where rs: "list_all record_ok rs" "bs = seg_bytes rs" "length rs \<le> 1 \<or> int (length bs) \<le> lim"
    by (auto simp: segment_ok_def)
  then show ?thesis
    using \<open>lim < 2 ^ 62\<close> by (cases rs) (auto simp: record_ok_def)
qed

lemma writer_ok_size:
  assumes "writer_ok w env" and "record_ok data"
  shows "i64 (wr_segSize w + i64 (int headerSize + int (length data))) = wr_segSize w + 8 + int (length data)"
proof -
  have "0 \<le> wr_segSize w" "wr_segSize w < 2 ^ 62"
    using assms(1) segment_ok_length by (auto simp: writer_ok_def Let_def)
  with assms(2) show ?thesis by (simp add: record_ok_def headerSize_def is_i64_def)
qed

lemma segment_ok_append:
  assumes "segment_ok lim bs" and "record_ok data" and "bs = [] \<or> int (length bs) + 8 + int (length data) \<le> lim"
  shows "segment_ok lim (bs @ wal_record data)"
proof -
  obtain rs where rs: "list_all record_ok rs" "bs = seg_bytes rs" using assms(1) by (auto simp: segment_ok_def)
  have "bs = [] \<Longrightarrow> rs = []" using rs(2) by (cases rs) (auto simp: wal_record_def wal_header_def PutUint32_def)
  then have "length (rs @ [data]) \<le> 1 \<or> int (length (bs @ wal_record data)) \<le> lim" using assms(3) by auto
  moreover have "list_all record_ok (rs @ [data])" "bs @ wal_record data = seg_bytes (rs @ [data])"
    using rs assms(2) by simp_all
  ultimately show ?thesis unfolding segment_ok_def by blast
qed

lemma write_record_ok:
  assumes ok: "writer_ok w env" and data: "record_ok data" and room: "wr_segSize w = 0 \<or> fits w data"
    and app: "write_record io data w env = (None, w', env')"
  shows "writer_ok w' env' \<and> dir_records (we_dir env') = dir_records (we_dir env) @ [data] \<and> wr_segSeq w' = wr_segSeq w"
proof -
  let ?cur = "seg_name (wr_segSeq w - 1)" let ?bs = "content (we_dir env) ?cur"
  obtain ns where ns: "segments (we_dir env) = ns @ [?cur]" "?cur \<notin> set ns" and cur: "?cur \<in> fst ` set (we_dir env)"
    and seg: "segment_ok (wc_SegmentMaxSize (wr_cfg w)) ?bs" and size: "wr_segSize w = int (length ?bs)"
    and open_cur: "wr_current w = Some (?cur, True)"
    using ok by (auto simp: writer_ok_def Let_def)
  have env': "we_dir env' = AList.update ?cur (?bs @ wal_record data) (we_dir env)"
    and w': "w' = w\<lparr>wr_segSize := wr_segSize w + 8 + int (length data)\<rparr>"
    using write_record_None [OF app] open_cur writer_ok_size [OF ok data] by auto
  obtain rs where rs: "list_all record_ok rs" "?bs = seg_bytes rs" using seg by (auto simp: segment_ok_def)
  have "delivered (?bs @ wal_record data) = delivered ?bs @ [data]"
    using rs data delivered_records [of "rs @ [data]" "[]"] delivered_records [of rs "[]"] by (simp add: delivered_short)
  then have "dir_records (we_dir env') = dir_records (we_dir env) @ [data]"
    by (simp add: env' dir_records_last [OF ns cur] dir_records_cur [OF ns(1)])
  moreover have "segment_ok (wc_SegmentMaxSize (wr_cfg w)) (?bs @ wal_record data)"
    using room size by (intro segment_ok_append [OF seg data]) (auto simp: fits_def)
  then have "writer_ok w' env'"
    using ok ns cur size log_dir_ok_update [of "we_dir env" "wr_segSeq w" ?cur]
    by (simp add: writer_ok_def Let_def env' w' segments_update) (simp add: update_keys_present flip: set_map)
  ultimately show ?thesis using w' by simp
qed

lemma wal_rotate_ok:
  assumes "writer_ok w env" and "wr_segSeq w < 10 ^ 10" and "wal_rotate io w env = (None, w', env')"
  shows "writer_ok w' env'" and "dir_records (we_dir env') = dir_records (we_dir env)"
    and "wr_segSeq w' = wr_segSeq w + 1" and "wr_segSize w' = 0"
proof -
  let ?w = "w\<lparr>wr_current := Some (seg_name (wr_segSeq w - 1), False)\<rparr>"
  have pre: "log_dir_ok (we_dir env) (wr_segSeq ?w)" "0 \<le> wr_segSeq ?w" "wr_segSeq ?w < 10 ^ 10"
    "wc_SegmentMaxSize (wr_cfg ?w) < 2 ^ 62"
    using assms(1,2) by (simp_all add: writer_ok_def Let_def)
  have "create_segment io ?w env = (None, w', env')"
    using assms(1,3) by (auto simp: wal_rotate_def writer_ok_def Let_def split: if_splits)
  from create_segment_ok [OF pre this] show "writer_ok w' env'" "dir_records (we_dir env') = dir_records (we_dir env)"
    "wr_segSeq w' = wr_segSeq w + 1" "wr_segSize w' = 0" by simp_all
qed

lemma Append_ok:
  assumes ok: "writer_ok w env" and data: "record_ok data" and room: "wr_segSeq w < 10 ^ 10"
    and app: "Append io data w env = (None, w', env')"
  shows "writer_ok w' env' \<and> dir_records (we_dir env') = dir_records (we_dir env) @ [data] \<and> wr_segSeq w' \<le> wr_segSeq w + 1"
proof (cases "fits w data")
  case True
  then have "write_record io data w env = (None, w', env')"
    using app writer_ok_size [OF ok data] by (simp add: Append_def Let_def fits_def)
  from write_record_ok [OF ok data _ this] True show ?thesis by simp
next
  case False
  then obtain w1 env1 where r: "wal_rotate io w env = (None, w1, env1)" and wr: "write_record io data w1 env1 = (None, w', env')"
    using app writer_ok_size [OF ok data] by (auto simp: Append_def Let_def fits_def split: prod.splits option.splits)
  note rot = wal_rotate_ok [OF ok room r]
  from write_record_ok [OF rot(1) data _ wr] rot show ?thesis by simp
qed

text \<open>With no input/output failure an append succeeds.\<close>

lemma write_record_total: "wr_current w = Some (f, True) \<Longrightarrow> \<exists>w' env'. write_record io_ok data w env = (None, w', env')"
  by (simp add: write_record_def io_ok_def file_write_ok)

lemma Append_total:
  assumes "writer_ok w env"
  shows "\<exists>w' env'. Append io_ok data w env = (None, w', env')"
proof -
  obtain f where f: "wr_current w = Some (f, True)" using assms by (auto simp: writer_ok_def Let_def)
  then obtain w1 env1 g where r: "wal_rotate io_ok w env = (None, w1, env1)" and g: "wr_current w1 = Some (g, True)"
    by (auto simp: wal_rotate_def create_segment_def io_ok_def)
  with write_record_total [OF g] write_record_total [OF f] show ?thesis by (auto simp: Append_def Let_def)
qed

section \<open>The log as an append-only sequence\<close>

text \<open>
  What a client of a durable log relies on: with room left, an append of an acceptable
  entry succeeds, keeps the invariant and adds the entry at the end.
\<close>

fun append_all :: "('e \<Rightarrow> 's \<Rightarrow> bool \<times> 's) \<Rightarrow> 'e list \<Rightarrow> 's \<Rightarrow> bool list \<times> 's" where
  "append_all app [] s = ([], s)"
| "append_all app (e # es) s =
     (let (ok, s') = app e s; (oks, s'') = append_all app es s' in (ok # oks, s''))"

locale append_log =
  fixes invar :: "'s \<Rightarrow> bool" and room :: "'s \<Rightarrow> nat" and entries :: "'s \<Rightarrow> 'e list"
    and acceptable :: "'e \<Rightarrow> bool" and app :: "'e \<Rightarrow> 's \<Rightarrow> bool \<times> 's"
  assumes append_total: "invar s \<Longrightarrow> acceptable e \<Longrightarrow> 0 < room s \<Longrightarrow> fst (app e s)"
    and append_entries: "invar s \<Longrightarrow> acceptable e \<Longrightarrow> 0 < room s \<Longrightarrow> app e s = (True, s') \<Longrightarrow>
      invar s' \<and> entries s' = entries s @ [e] \<and> room s \<le> Suc (room s')"
begin

lemma append_all_entries:
  "invar s \<Longrightarrow> list_all acceptable es \<Longrightarrow> length es \<le> room s \<Longrightarrow> append_all app es s = (oks, s') \<Longrightarrow>
   oks = replicate (length es) True \<and> invar s' \<and> entries s' = entries s @ es"
proof (induction es arbitrary: s oks s')
  case (Cons e es)
  from Cons.prems have pre: "invar s" "acceptable e" "0 < room s" by simp_all
  obtain s1 where s1: "app e s = (True, s1)" using append_total [OF pre] by (metis fst_conv surj_pair)
  obtain oks1 s2 where s2: "append_all app es s1 = (oks1, s2)" by fastforce
  note step = append_entries [OF pre s1]
  with Cons.prems Cons.IH [OF _ _ _ s2] s1 s2 show ?case by auto
qed simp

end

definition wal_append :: "bytes \<Rightarrow> Writer \<times> wal_env \<Rightarrow> bool \<times> Writer \<times> wal_env" where
  "wal_append data s = (case Append io_ok data (fst s) (snd s) of (err, w, env) \<Rightarrow> (err = None, w, env))"

interpretation wal: append_log "\<lambda>s. writer_ok (fst s) (snd s)" "\<lambda>s. nat (10 ^ 10 - wr_segSeq (fst s))"
  "\<lambda>s. dir_records (we_dir (snd s))" record_ok wal_append
proof unfold_locales
  fix s data assume "writer_ok (fst s) (snd s)"
  then obtain w' env' where "Append io_ok data (fst s) (snd s) = (None, w', env')" using Append_total by blast
  then show "fst (wal_append data s)" by (simp add: wal_append_def)
next
  fix s data s' assume pre: "writer_ok (fst s) (snd s)" "record_ok data" "0 < nat (10 ^ 10 - wr_segSeq (fst s))"
    and app: "wal_append data s = (True, s')"
  then have "Append io_ok data (fst s) (snd s) = (None, fst s', snd s')"
    by (auto simp: wal_append_def split: prod.splits)
  from Append_ok [OF pre(1,2) _ this] pre(3)
  show "writer_ok (fst s') (snd s') \<and> dir_records (we_dir (snd s')) = dir_records (we_dir (snd s)) @ [data] \<and>
      nat (10 ^ 10 - wr_segSeq (fst s)) \<le> Suc (nat (10 ^ 10 - wr_segSeq (fst s')))" by auto
qed

section \<open>Restart\<close>

lemma findMaxSegment_fold:
  assumes "\<forall>name \<in> fst ` set dir. HasSuffix name ''.wal'' \<longrightarrow> (\<exists>k. seq_ok k \<and> k < n \<and> name = seg_name k)" and "m < n"
  defines "r \<equiv> foldl (\<lambda>maxSeq (name, content).
       if HasSuffix name ''.wal'' then
         (case scan_segment name of None \<Rightarrow> maxSeq | Some seq \<Rightarrow> if seq > maxSeq then seq else maxSeq)
       else maxSeq) m dir"
  shows "m \<le> r \<and> r < n \<and> (\<forall>name \<in> fst ` set dir. HasSuffix name ''.wal'' \<longrightarrow> (\<exists>k. seq_ok k \<and> k \<le> r \<and> name = seg_name k))"
  unfolding r_def using assms(1,2)
proof (induction dir arbitrary: m)
  case (Cons e dir)
  obtain name bs where e: "e = (name, bs)" by fastforce
  show ?case
  proof (cases "HasSuffix name ''.wal''")
    case True
    then obtain k where k: "seq_ok k" "k < n" "name = seg_name k" using Cons.prems(1) e by auto
    let ?m = "if k > m then k else m"
    have "?m < n" using k Cons.prems by simp
    with Cons.IH [of ?m] Cons.prems k e show ?thesis by fastforce
  next
    case False
    with Cons e show ?thesis by simp
  qed
qed simp

lemma findMaxSegment_bound:
  assumes "log_dir_ok dir n" and "0 < n"
  shows "0 \<le> findMaxSegment dir" and "findMaxSegment dir < n" and "log_dir_ok dir (findMaxSegment dir + 1)"
  using findMaxSegment_fold [of dir n 0] assms
  by (auto simp: log_dir_ok_def findMaxSegment_def list_all_iff zless_add1_eq order.order_iff_strict)

lemma NewWriter_ok:
  assumes "log_dir_ok (we_dir env) n" and "0 < n" and "n < 10 ^ 10" and "wc_SegmentMaxSize cfg < 2 ^ 62"
    and "NewWriter io cfg env = (Inr w, env')"
  shows "writer_ok w env'" and "dir_records (we_dir env') = dir_records (we_dir env)" and "wr_segSeq w \<le> n + 1"
proof -
  let ?w = "\<lparr>wr_cfg = cfg, wr_current = None, wr_segSeq = findMaxSegment (we_dir env) + 1, wr_segSize = 0\<rparr>"
  note mx = findMaxSegment_bound [OF assms(1,2)]
  have "create_segment io ?w env = (None, w, env')"
    using assms(3,5) mx(1,2) by (auto simp: NewWriter_def wal_rotate_def Let_def is_i64_def split: if_splits prod.splits option.splits)
  from create_segment_ok [OF _ _ _ _ this] mx assms(3,4)
  show "writer_ok w env'" "dir_records (we_dir env') = dir_records (we_dir env)" "wr_segSeq w \<le> n + 1" by simp_all
qed

lemma NewWriter_total: "\<exists>w env'. NewWriter io_ok cfg env = (Inr w, env')"
  by (simp add: NewWriter_def wal_rotate_def create_segment_def io_ok_def Let_def)

section \<open>Properties\<close>

text \<open>
  Property C18. Everything appended is replayed: a writer started on a log of earlier
  segments acknowledges every record, and a later replay calls back with exactly the
  records it would have delivered before the start followed by the new ones in order,
  without an error; the segment written last is within the size limit or holds one record.
\<close>

theorem wal_durable:
  assumes "log_dir_ok (we_dir env) n" and "0 < n" and "n + int (length ds) < 10 ^ 10"
    and "wc_SegmentMaxSize cfg < 2 ^ 62" and "list_all record_ok ds"
    and "Replay DirReadable open_ok collect env [] = (err0, env0, old)"
    and "NewWriter io_ok cfg env = (Inr w, env1)"
    and "append_all wal_append ds (w, env1) = (oks, w', env2)"
    and "Replay DirReadable open_ok collect env2 [] = (err, env3, out)"
  shows "oks = replicate (length ds) True \<and> err = None \<and> out = old @ ds \<and>
    segment_ok (wc_SegmentMaxSize (wr_cfg w')) (content (we_dir env2) (seg_name (wr_segSeq w' - 1)))"
proof -
  have start: "writer_ok w env1" "dir_records (we_dir env1) = dir_records (we_dir env)" "wr_segSeq w \<le> n + 1"
    using NewWriter_ok [OF assms(1,2) _ assms(4,7)] assms(3) by simp_all
  have "oks = replicate (length ds) True \<and> writer_ok w' env2 \<and> dir_records (we_dir env2) = dir_records (we_dir env1) @ ds"
    using wal.append_all_entries [OF _ assms(5) _ assms(8)] start assms(3) by simp
  with Replay_records [OF assms(6)] Replay_records [OF assms(9)] start(2) show ?thesis
    by (simp add: writer_ok_def Let_def)
qed

definition demo_wal :: wal_env where
  "demo_wal = \<lparr>we_dir = [], we_append = 0, we_replay = 0, we_corruption = 0\<rparr>"

lemma demo_wal_dir: "log_dir_ok (we_dir demo_wal) 1"
  by (simp add: demo_wal_def log_dir_ok_def)

lemma demo_wal_start:
  obtains w env where "NewWriter io_ok wal_DefaultConfig demo_wal = (Inr w, env)" and "writer_ok w env"
    and "dir_records (we_dir env) = []" and "wr_segSeq w \<le> 2" and "wr_cfg w = wal_DefaultConfig" and "wr_segSize w = 0"
proof -
  obtain w env where w: "NewWriter io_ok wal_DefaultConfig demo_wal = (Inr w, env)" using NewWriter_total by blast
  from NewWriter_ok [OF demo_wal_dir _ _ _ w]
  have "writer_ok w env" "dir_records (we_dir env) = dir_records (we_dir demo_wal)" "wr_segSeq w \<le> 2"
    by (simp_all add: wal_DefaultConfig_def)
  moreover have "wr_cfg w = wal_DefaultConfig" "wr_segSize w = 0"
    using w by (auto simp: NewWriter_def wal_rotate_def create_segment_def io_ok_def Let_def)
  ultimately show thesis using w
    by (intro that [of w env]) (simp_all add: dir_records_def demo_wal_def segments_def)
qed

theorem wal_durable_witness:
  "\<exists>w env1. NewWriter io_ok wal_DefaultConfig demo_wal = (Inr w, env1) \<and>
     snd (snd (Replay DirReadable open_ok collect (snd (snd (append_all wal_append [[1], [2, 3]] (w, env1)))) [])) = [[1], [2, 3]]"
proof -
  obtain w env1 where w: "NewWriter io_ok wal_DefaultConfig demo_wal = (Inr w, env1)" using NewWriter_total by blast
  obtain oks w' env2 where a: "append_all wal_append [[1], [2, 3]] (w, env1) = (oks, w', env2)" by (metis prod_cases3)
  obtain err env3 out where r: "Replay DirReadable open_ok collect env2 [] = (err, env3, out)" by (metis prod_cases3)
  obtain env0 where "Replay DirReadable open_ok collect demo_wal [] = (None, env0, [])"
    by (simp add: Replay_def demo_wal_def segments_def sort_slice_def)
  from wal_durable [OF demo_wal_dir _ _ _ _ this w a r] have "out = [[1], [2, 3]]"
    by (simp add: wal_DefaultConfig_def record_ok_def)
  with w a r show ?thesis by auto
qed

text \<open>
  Crash recovery: when the current segment is cut at any byte, a replay still
  delivers every record of the closed segments and exactly the records of the current one
  that lie completely before the cut, in order and unaltered.
\<close>

lemma wal_crash_recovery:
  assumes "writer_ok w env" and "cur = seg_name (wr_segSeq w - 1)"
    and "Replay DirReadable open_ok collect
      (env\<lparr>we_dir := AList.update cur (take k (content (we_dir env) cur)) (we_dir env)\<rparr>) [] = (err, env', out)"
  shows "\<exists>older rs m. dir_records (we_dir env) = older @ rs \<and> content (we_dir env) cur = seg_bytes rs \<and>
    out = older @ take m rs \<and> length (seg_bytes (take m rs)) \<le> k \<and>
    (m < length rs \<longrightarrow> k < length (seg_bytes (take (Suc m) rs)))"
proof -
  obtain ns rs where ns: "segments (we_dir env) = ns @ [cur]" "cur \<notin> set ns" "cur \<in> fst ` set (we_dir env)"
    and rs: "list_all record_ok rs" "content (we_dir env) cur = seg_bytes rs"
    using assms(1,2) by (auto simp: writer_ok_def Let_def segment_ok_def)
  let ?older = "concat (map (\<lambda>name. delivered (content (we_dir env) name)) ns)"
  obtain m where m: "delivered (take k (seg_bytes rs)) = take m rs" "length (seg_bytes (take m rs)) \<le> k"
    "m < length rs \<Longrightarrow> k < length (seg_bytes (take (Suc m) rs))" using delivered_cut [OF rs(1)] by metis
  have "out = ?older @ take m rs"
    using Replay_records [OF assms(3)] m(1) rs(2) by (simp add: dir_records_last [OF ns])
  moreover have "dir_records (we_dir env) = ?older @ rs"
    using dir_records_cur [OF ns(1)] delivered_records [OF rs(1), of "[]"] rs(2) by (simp add: delivered_short)
  ultimately show ?thesis using rs(2) m(2,3) by blast
qed

text \<open>
  Property C20. Corruption is caught: changing any single byte of the payload of a record
  in a segment makes the replay stop at that record with a checksum error; the records
  before it are delivered and nothing altered ever is.
\<close>

theorem wal_corruption_detected:
  assumes "list_all record_ok ds" and "record_ok (pre @ b # post)" and "b \<noteq> b'"
  shows "replaySegment open_ok collect name
      (seg_bytes ds @ wal_header (pre @ b # post) @ pre @ b' # post @ rest) corrupt seen0 =
    (length ds, Some (ErrorString (''crc mismatch at record '' @ itoa (int (length ds)))), Suc corrupt, seen0 @ ds)"
  using replay_loop_flipped [OF assms(2,3)] by (simp add: replaySegment_def open_ok_def replay_loop_records [OF assms(1)])

theorem wal_corruption_detected_witness:
  "fst (replaySegment open_ok collect ''s'' (seg_bytes [[7]] @ wal_header [1, 2, 3] @ [1, 9, 3]) 0 []) = 1"
  using wal_corruption_detected [of "[[7]]" "[1]" 2 "[3]" 9 "''s''" "[]" 0 "[]"] by (simp add: record_ok_def)

section \<open>What a failed write leaves behind\<close>

lemma Append_fits:
  "writer_ok w env \<Longrightarrow> record_ok data \<Longrightarrow> fits w data \<Longrightarrow> Append io data w env = write_record io data w env"
  using writer_ok_size by (simp add: Append_def Let_def fits_def)

lemma write_record_data_fails:
  assumes "wr_current w = Some (f, True)" and "io_header io = None" and "io_data io = Some k"
  shows "write_record io data w env = (Some (wrapf ''wal: write data'' io_error), w,
    env\<lparr>we_dir := AList.update f (content (we_dir env) f @ wal_header data @ take k data) (we_dir env)\<rparr>)"
  using assms by (simp add: write_record_def file_write_def content_def Let_def update_twice)

lemma write_record_clean:
  assumes "wr_current w = Some (f, True)"
  shows "write_record io_ok data w env =
    (None, w\<lparr>wr_segSize := i64 (wr_segSize w + i64 (int headerSize + int (length data)))\<rparr>,
     env\<lparr>we_dir := AList.update f (content (we_dir env) f @ wal_record data) (we_dir env), we_append := we_append env + 1\<rparr>)"
  using assms by (simp add: write_record_def io_ok_def file_write_ok update_twice wal_record_def)

text \<open>A header that announces more bytes than follow hides everything behind it.\<close>

lemma delivered_hidden:
  assumes "list_all record_ok rs" and "record_ok data" and "length rest < length data"
  shows "delivered (seg_bytes rs @ wal_header data @ rest) = rs"
proof -
  have "\<exists>err. replay_loop collect False (wal_header data @ rest) 0 0 [] = (0, Some err, 0, [])"
    using assms(2,3)
    by (subst replay_loop.simps) (simp add: ReadFull_append headerSize_def header_length, simp add: ReadFull_def)
  then have "delivered (wal_header data @ rest) = []" by (auto simp: delivered_def)
  with delivered_records [OF assms(1)] show ?thesis by simp
qed

text \<open>
  Property C21. A failed append can swallow later ones: when the payload of a record is cut
  short by a write error the writer stays on the same segment, the next record is
  acknowledged, and yet the replay delivers neither of them as long as the announced
  length reaches beyond the end of the file.
\<close>

theorem wal_failed_append_hides:
  assumes "writer_ok w env" and "record_ok d1" and "record_ok d2" and "fits w d1" and "fits w d2"
    and "io_header io = None" and "io_data io = Some k" and "k + 8 + length d2 < length d1"
  shows "\<exists>err w1 env1 w2 env2. Append io d1 w env = (Some err, w1, env1) \<and>
    Append io_ok d2 w1 env1 = (None, w2, env2) \<and> dir_records (we_dir env2) = dir_records (we_dir env)"
proof -
  let ?cur = "seg_name (wr_segSeq w - 1)" let ?bs = "content (we_dir env) ?cur"
  obtain ns rs where cur: "wr_current w = Some (?cur, True)" and ns: "segments (we_dir env) = ns @ [?cur]" "?cur \<notin> set ns"
    "?cur \<in> fst ` set (we_dir env)" and rs: "list_all record_ok rs" "?bs = seg_bytes rs"
    using assms(1) by (auto simp: writer_ok_def Let_def segment_ok_def)
  let ?env1 = "env\<lparr>we_dir := AList.update ?cur (?bs @ wal_header d1 @ take k d1) (we_dir env)\<rparr>"
  have a1: "Append io d1 w env = (Some (wrapf ''wal: write data'' io_error), w, ?env1)"
    using assms Append_fits write_record_data_fails [OF cur] by simp
  have "Append io_ok d2 w ?env1 = write_record io_ok d2 w ?env1"
    using writer_ok_size [OF assms(1,3)] assms(5) by (simp add: Append_def Let_def fits_def)
  then obtain w2 env2 where a2: "Append io_ok d2 w ?env1 = (None, w2, env2)"
    and env2: "we_dir env2 = AList.update ?cur (?bs @ wal_header d1 @ take k d1 @ wal_record d2) (we_dir env)"
    by (simp add: write_record_clean [OF cur] update_twice)
  have "delivered (?bs @ wal_header d1 @ take k d1 @ wal_record d2) = rs"
    using rs assms(2,8) delivered_hidden [of rs d1 "take k d1 @ wal_record d2"] by simp
  moreover have "delivered ?bs = rs" using delivered_records [OF rs(1), of "[]"] rs(2) by (simp add: delivered_short)
  ultimately have "dir_records (we_dir env2) = dir_records (we_dir env)"
    by (simp add: env2 dir_records_last [OF ns] dir_records_cur [OF ns(1)])
  with a1 a2 show ?thesis by blast
qed

theorem wal_failed_append_hides_witness:
  "\<exists>w env err w1 env1 w2 env2. NewWriter io_ok wal_DefaultConfig demo_wal = (Inr w, env) \<and>
     Append (io_ok\<lparr>io_data := Some 0\<rparr>) (replicate 20 1) w env = (Some err, w1, env1) \<and>
     Append io_ok [2] w1 env1 = (None, w2, env2) \<and> dir_records (we_dir env2) = []"
proof -
  obtain w env where w: "NewWriter io_ok wal_DefaultConfig demo_wal = (Inr w, env)" "writer_ok w env"
    "dir_records (we_dir env) = []" "wr_cfg w = wal_DefaultConfig" "wr_segSize w = 0" using demo_wal_start by metis
  have "\<exists>err w1 env1 w2 env2. Append (io_ok\<lparr>io_data := Some 0\<rparr>) (replicate 20 1) w env = (Some err, w1, env1) \<and>
     Append io_ok [2] w1 env1 = (None, w2, env2) \<and> dir_records (we_dir env2) = dir_records (we_dir env)"
    using w by (intro wal_failed_append_hides [of _ _ _ _ _ 0])
      (simp_all add: record_ok_def fits_def wal_DefaultConfig_def io_ok_def)
  with w(1,3) show ?thesis by metis
qed

text \<open>The acknowledgements of a sequence of appends, each with its own input/output outcomes.\<close>

fun append_outcomes :: "(wal_io \<times> bytes) list \<Rightarrow> Writer \<Rightarrow> wal_env \<Rightarrow> bool list \<times> Writer \<times> wal_env" where
  "append_outcomes [] w env = ([], w, env)"
| "append_outcomes ((io, data) # rest) w env =
     (case Append io data w env of
        (err, w', env') \<Rightarrow> (case append_outcomes rest w' env' of (oks, w'', env'') \<Rightarrow> ((err = None) # oks, w'', env'')))"

lemma Append_closed:
  assumes "wr_current w = Some (f, False)"
  obtains err where "Append io data w env = (Some err, w, env)"
proof -
  have "wal_rotate io w env = (Some ErrClosed, w, env)" using assms by (simp add: wal_rotate_def)
  moreover have "write_record io data w env = (Some (wrapf ''wal: write header'' ErrClosed), w, env)"
    using assms by (simp add: write_record_def file_write_def)
  ultimately have "\<exists>err. Append io data w env = (Some err, w, env)" by (simp add: Append_def Let_def)
  then show thesis using that by blast
qed

lemma append_outcomes_closed:
  "wr_current w = Some (f, False) \<Longrightarrow> append_outcomes ops w env = (replicate (length ops) False, w, env)"
proof (induction ops)
  case (Cons op ops)
  obtain io data where op: "op = (io, data)" by fastforce
  obtain err where "Append io data w env = (Some err, w, env)" using Append_closed [OF Cons.prems] .
  with Cons op show ?case by simp
qed simp

text \<open>
  A segment that cannot be created stops the log for good: the old file is
  already closed, so every later append fails, whatever the disk does then, and nothing is
  written any more.
\<close>

lemma wal_stuck_after_failed_create:
  assumes "writer_ok w env" and "record_ok data" and "\<not> fits w data" and "io_close io" and "\<not> io_create io"
  shows "\<exists>err w'. Append io data w env = (Some err, w', env) \<and>
    (\<forall>ops. append_outcomes ops w' env = (replicate (length ops) False, w', env))"
proof -
  obtain f where f: "wr_current w = Some (f, True)" using assms(1) by (auto simp: writer_ok_def Let_def)
  have "Append io data w env = (Some (wrapf ''wal: rotate'' (wrapf ''wal: create segment'' io_error)),
      w\<lparr>wr_current := Some (f, False)\<rparr>, env)"
    using assms writer_ok_size [OF assms(1,2)] f
    by (simp add: Append_def Let_def fits_def wal_rotate_def create_segment_def)
  then show ?thesis using append_outcomes_closed [of "w\<lparr>wr_current := Some (f, False)\<rparr>" f] by simp
qed

end
