(* ===== verification/Wal_Sync.thy ===== *)
theory Wal_Sync
  imports Wal
begin

text \<open>
  Durability of the write-ahead log (\<^verbatim>\<open>internal/otelgateway/wal/wal.go\<close>): the goroutine
  \<^verbatim>\<open>syncLoop\<close> that calls \<^verbatim>\<open>fsync\<close> on the current segment, \<^verbatim>\<open>Close\<close> with its stop channel, and what
  a power failure may take away. A process is the writer with its directory and, for each
  file, how many of its bytes are known to be on the disk. A power failure cuts every file
  at a place of its own choice behind those bytes. The log is shown to implement a list of
  segments, each a list of records with the number of durable ones.
\<close>

section \<open>The process\<close>

record wal_process =
  wp_writer :: Writer
  wp_env :: wal_env
  wp_synced :: "string \<Rightarrow> nat"
  wp_stopped :: bool

text \<open>
  \<^verbatim>\<open>NewWriter\<close> ends by starting \<^verbatim>\<open>syncLoop\<close>, whose ticker refuses an interval that is not
  positive; the panic of the goroutine ends the process. What an earlier process left is
  on the disk.
\<close>

definition log_start :: "wal_io \<Rightarrow> wal_Config \<Rightarrow> wal_env \<Rightarrow> error + wal_process" where
  "log_start io cfg env =
     (case NewWriter io cfg env of
        (Inl err, _) \<Rightarrow> Inl err
      | (Inr w, env') \<Rightarrow>
          if wc_SyncInterval cfg \<le> 0 then Inl (GoPanic ''non-positive interval for NewTicker'')
          else Inr \<lparr>wp_writer = w, wp_env = env', wp_synced = (\<lambda>f. length (content (we_dir env') f)), wp_stopped = False\<rparr>)"

text \<open>One tick of \<^verbatim>\<open>syncLoop\<close>; the error of \<^verbatim>\<open>Sync\<close> is ignored. The flag is the outcome of \<^verbatim>\<open>fsync\<close>.\<close>

definition syncLoop_tick :: "bool \<Rightarrow> wal_process \<Rightarrow> wal_process" where
  "syncLoop_tick ok p =
     (if wp_stopped p then p
      else
        (case wr_current (wp_writer p) of
           Some (f, True) \<Rightarrow>
             if ok then p\<lparr>wp_synced := (wp_synced p)(f := length (content (we_dir (wp_env p)) f))\<rparr> else p
         | _ \<Rightarrow> p))"

text \<open>A segment created by an append starts with nothing on the disk.\<close>

definition log_append :: "wal_io \<Rightarrow> bytes \<Rightarrow> wal_process \<Rightarrow> error option \<times> wal_process" where
  "log_append io data p =
     (case Append io data (wp_writer p) (wp_env p) of
        (err, w, env) \<Rightarrow>
          (err, p\<lparr>wp_writer := w, wp_env := env,
             wp_synced := (if wr_segSeq w = wr_segSeq (wp_writer p) then wp_synced p
                           else (wp_synced p)(seg_name (wr_segSeq (wp_writer p)) := 0))\<rparr>))"

definition log_Close :: "wal_io \<Rightarrow> wal_process \<Rightarrow> error option \<times> wal_process" where
  "log_Close io p =
     (if wp_stopped p then (Some (GoPanic ''close of closed channel''), p)
      else (case Writer_Close io (wp_writer p) of
              (err, w) \<Rightarrow> (err, p\<lparr>wp_writer := w, wp_stopped := True\<rparr>)))"

datatype wal_event = AppendEvent bytes | TickEvent bool

fun log_event :: "wal_process \<Rightarrow> wal_event \<Rightarrow> wal_process" where
  "log_event p (AppendEvent data) = snd (log_append io_ok data p)"
| "log_event p (TickEvent ok) = syncLoop_tick ok p"

fun event_record :: "wal_event \<Rightarrow> bytes list" where
  "event_record (AppendEvent data) = [data]"
| "event_record (TickEvent ok) = []"

definition power_loss :: "(string \<Rightarrow> nat) \<Rightarrow> wal_process \<Rightarrow> wal_env" where
  "power_loss cuts p =
     (wp_env p)\<lparr>we_dir := map (\<lambda>(f, bs). (f, take (max (cuts f) (wp_synced p f)) bs)) (we_dir (wp_env p))\<rparr>"

section \<open>The abstract log\<close>

text \<open>
  A segment is its records and the number of durable ones; the newest segment comes first.
  A record goes to the newest segment unless it would exceed the limit; a sync makes the
  newest segment durable and no other.
\<close>

type_synonym seg_log = "(bytes list \<times> nat) list"

fun seg_append :: "int \<Rightarrow> bytes \<Rightarrow> seg_log \<Rightarrow> seg_log" where
  "seg_append lim data [] = [([data], 0)]"
| "seg_append lim data ((rs, k) # segs) =
     (if int (length (seg_bytes rs)) + 8 + int (length data) > lim then ([data], 0) # (rs, k) # segs
      else (rs @ [data], k) # segs)"

fun seg_event :: "int \<Rightarrow> seg_log \<Rightarrow> wal_event \<Rightarrow> seg_log" where
  "seg_event lim segs (AppendEvent data) = seg_append lim data segs"
| "seg_event lim ((rs, k) # segs) (TickEvent True) = (rs, length rs) # segs"
| "seg_event lim segs (TickEvent ok) = segs"

definition seg_records :: "seg_log \<Rightarrow> bytes list" where
  "seg_records segs = concat (map fst (rev segs))"

definition seg_durable :: "seg_log \<Rightarrow> bytes list" where
  "seg_durable segs = concat (map (\<lambda>(rs, k). take k rs) (rev segs))"

lemma seg_append_records: "seg_records (seg_append lim data segs) = seg_records segs @ [data]"
  by (cases "(lim, data, segs)" rule: seg_append.cases) (simp_all add: seg_records_def)

lemma seg_event_records: "seg_records (seg_event lim segs e) = seg_records segs @ event_record e"
  by (cases "(lim, segs, e)" rule: seg_event.cases) (simp_all add: seg_append_records, simp_all add: seg_records_def)

lemma seg_events_records: "seg_records (foldl (seg_event lim) segs es) = seg_records segs @ concat (map event_record es)"
  by (induction es arbitrary: segs) (simp_all add: seg_event_records)

section \<open>What an append does to the directory\<close>

lemma segments_distinct: "log_dir_ok dir n \<Longrightarrow> distinct (segments dir)"
proof -
  assume "log_dir_ok dir n"
  then have "distinct (filter (\<lambda>name. HasSuffix name ''.wal'') (map fst dir))" by (simp add: log_dir_ok_def)
  then show ?thesis unfolding segments_def by (metis mset_eq_imp_distinct_iff mset_sort_slice)
qed

lemma writer_ok_current:
  assumes "writer_ok w env"
  shows "wr_current w = Some (seg_name (wr_segSeq w - 1), True)" and "log_dir_ok (we_dir env) (wr_segSeq w)"
    and "last (segments (we_dir env)) = seg_name (wr_segSeq w - 1)" and "seg_name (wr_segSeq w - 1) \<in> fst ` set (we_dir env)"
    and "wr_segSize w = int (length (content (we_dir env) (seg_name (wr_segSeq w - 1))))" and "0 \<le> wr_segSeq w"
  using assms by (auto simp: writer_ok_def Let_def)

lemma Append_same_segment:
  assumes "writer_ok w env" and "record_ok data" and "fits w data" and "Append io_ok data w env = (err, w', env')"
  defines "cur \<equiv> seg_name (wr_segSeq w - 1)"
  shows "err = None \<and> wr_segSeq w' = wr_segSeq w \<and> segments (we_dir env') = segments (we_dir env) \<and> wr_cfg w' = wr_cfg w \<and>
    we_dir env' = AList.update cur (content (we_dir env) cur @ wal_record data) (we_dir env)"
  using assms(4) segments_update [OF writer_ok_current(4) [OF assms(1)]]
  by (auto simp: Append_fits [OF assms(1-3)] write_record_clean [OF writer_ok_current(1) [OF assms(1)]] cur_def)

lemma Append_new_segment:
  assumes "writer_ok w env" and "record_ok data" and "\<not> fits w data" and "wr_segSeq w < 10 ^ 10"
    and "Append io_ok data w env = (err, w', env')"
  defines "new \<equiv> seg_name (wr_segSeq w)"
  shows "err = None \<and> wr_segSeq w' = wr_segSeq w + 1 \<and> segments (we_dir env') = segments (we_dir env) @ [new] \<and>
    new \<notin> set (segments (we_dir env)) \<and> wr_cfg w' = wr_cfg w \<and> we_dir env' = AList.update new (wal_record data) (we_dir env)"
proof -
  note cur = writer_ok_current [OF assms(1)]
  have seq: "seq_ok (wr_segSeq w)" using cur(6) assms(4) by (simp add: seq_ok_def)
  have step: "i64 (wr_segSeq w + 1) = wr_segSeq w + 1" using cur(6) assms(4) by (simp add: is_i64_def)
  have "Append io_ok data w env =
      write_record io_ok data (w\<lparr>wr_current := Some (new, True), wr_segSize := 0, wr_segSeq := wr_segSeq w + 1\<rparr>)
        (env\<lparr>we_dir := AList.update new [] (we_dir env)\<rparr>)"
    using assms(3) writer_ok_size [OF assms(1,2)] cur(1) step
    by (simp add: Append_def Let_def fits_def wal_rotate_def create_segment_def io_ok_def new_def)
  with assms(5) segments_fresh [OF cur(2) seq] show ?thesis
    by (auto simp: write_record_clean update_twice new_def)
qed

section \<open>The log implements the abstract one\<close>

definition seg_rep :: "wal_process \<Rightarrow> string \<Rightarrow> bytes list \<times> nat \<Rightarrow> bool" where
  "seg_rep p f seg \<longleftrightarrow> list_all record_ok (fst seg) \<and> snd seg \<le> length (fst seg) \<and>
     content (we_dir (wp_env p)) f = seg_bytes (fst seg) \<and>
     wp_synced p f = length (seg_bytes (take (snd seg) (fst seg)))"

definition represents :: "wal_dir \<Rightarrow> wal_process \<Rightarrow> string list \<Rightarrow> seg_log \<Rightarrow> bool" where
  "represents old p names segs \<longleftrightarrow> writer_ok (wp_writer p) (wp_env p) \<and> \<not> wp_stopped p \<and> segs \<noteq> [] \<and>
     segments (we_dir (wp_env p)) = segments old @ rev names \<and> list_all2 (seg_rep p) names segs \<and>
     (\<forall>f \<in> set (segments old). content (we_dir (wp_env p)) f = content old f \<and> wp_synced p f = length (content old f))"

lemma represents_Cons:
  assumes "represents old p names segs"
  obtains cur names' rs k segs' where "names = cur # names'" and "segs = (rs, k) # segs'"
    and "cur = seg_name (wr_segSeq (wp_writer p) - 1)" and "seg_rep p cur (rs, k)" and "list_all2 (seg_rep p) names' segs'"
    and "cur \<notin> set names'" and "cur \<notin> set (segments old)"
proof -
  obtain cur names' rs k segs' where n: "names = cur # names'" "segs = (rs, k) # segs'"
    using assms by (cases segs; cases names) (auto simp: represents_def)
  have "distinct (segments old @ rev names)" "last (segments old @ rev names) = seg_name (wr_segSeq (wp_writer p) - 1)"
    using assms segments_distinct writer_ok_current by (metis represents_def)+
  with n assms show thesis by (intro that [OF n]) (auto simp: represents_def)
qed

text \<open>A step that changes one file only leaves the representation of the other segments.\<close>

lemma seg_rep_other:
  assumes "list_all2 (seg_rep p) names segs" and "f \<notin> set names"
    and "\<And>g. g \<noteq> f \<Longrightarrow> content (we_dir (wp_env p')) g = content (we_dir (wp_env p)) g \<and> wp_synced p' g = wp_synced p g"
  shows "list_all2 (seg_rep p') names segs"
proof (rule list.rel_mono_strong [OF assms(1)])
  fix g seg assume "g \<in> set names" and "seg_rep p g seg"
  with assms(2) assms(3) [of g] show "seg_rep p' g seg" by (auto simp: seg_rep_def)
qed

lemma represents_tick:
  assumes "represents old p names segs"
  shows "represents old (syncLoop_tick ok p) names (seg_event lim segs (TickEvent ok))"
proof (cases ok)
  case True
  obtain cur names' rs k segs' where n: "names = cur # names'" "segs = (rs, k) # segs'"
    "cur = seg_name (wr_segSeq (wp_writer p) - 1)" "seg_rep p cur (rs, k)" "list_all2 (seg_rep p) names' segs'"
    "cur \<notin> set names'" "cur \<notin> set (segments old)" using represents_Cons [OF assms] by blast
  have ok: "writer_ok (wp_writer p) (wp_env p)" "\<not> wp_stopped p" using assms by (simp_all add: represents_def)
  let ?p = "p\<lparr>wp_synced := (wp_synced p)(cur := length (content (we_dir (wp_env p)) cur))\<rparr>"
  have tick: "syncLoop_tick ok p = ?p"
    using ok writer_ok_current(1) [OF ok(1)] True n(3) by (simp add: syncLoop_tick_def)
  have "list_all2 (seg_rep ?p) names' segs'" by (rule seg_rep_other [OF n(5,6)]) simp
  moreover have "seg_rep ?p cur (rs, length rs)" using n(4) by (simp add: seg_rep_def)
  ultimately show ?thesis unfolding tick using assms n(1,2,7) True by (auto simp: represents_def)
qed (use assms in \<open>simp add: syncLoop_tick_def represents_def split: option.splits prod.splits bool.splits\<close>)

lemma represents_append:
  assumes rep: "represents old p names segs" and data: "record_ok data" and room: "wr_segSeq (wp_writer p) < 10 ^ 10"
    and lim: "wc_SegmentMaxSize (wr_cfg (wp_writer p)) = lim"
  defines "p' \<equiv> snd (log_append io_ok data p)"
  shows "(\<exists>names'. represents old p' names' (seg_append lim data segs)) \<and>
    wr_segSeq (wp_writer p') \<le> wr_segSeq (wp_writer p) + 1 \<and> wr_cfg (wp_writer p') = wr_cfg (wp_writer p)"
proof -
  obtain cur names' rs k segs' where n: "names = cur # names'" "segs = (rs, k) # segs'"
    "cur = seg_name (wr_segSeq (wp_writer p) - 1)" "seg_rep p cur (rs, k)" "list_all2 (seg_rep p) names' segs'"
    "cur \<notin> set names'" "cur \<notin> set (segments old)" using represents_Cons [OF rep] by blast
  have ok: "writer_ok (wp_writer p) (wp_env p)" "\<not> wp_stopped p" using rep by (simp_all add: represents_def)
  have k: "k \<le> length rs" "list_all record_ok rs" "content (we_dir (wp_env p)) cur = seg_bytes rs" 
    "wp_synced p cur = length (seg_bytes (take k rs))" using n(4) by (simp_all add: seg_rep_def)
  obtain err w env where app: "Append io_ok data (wp_writer p) (wp_env p) = (err, w, env)" by (metis prod_cases3)
  then have none: "Append io_ok data (wp_writer p) (wp_env p) = (None, w, env)" using Append_total [OF ok(1), of data] by auto
  have wok: "writer_ok w env" using Append_ok [OF ok(1) data room none] by simp
  have size: "fits (wp_writer p) data \<longleftrightarrow> \<not> int (length (seg_bytes rs)) + 8 + int (length data) > lim"
    using writer_ok_current(5) [OF ok(1)] k(3) n(3) lim by (simp add: fits_def not_less)
  show ?thesis
  proof (cases "fits (wp_writer p) data")
    case True
    note eff = Append_same_segment [OF ok(1) data True none]
    have p': "p' = p\<lparr>wp_writer := w, wp_env := env\<rparr>" using eff none by (simp add: p'_def log_append_def)
    have others: "content (we_dir (wp_env p')) g = content (we_dir (wp_env p)) g \<and> wp_synced p' g = wp_synced p g"
      if "g \<noteq> cur" for g using that eff n(3) by (simp add: p')
    have "seg_rep p' cur (rs @ [data], k)" using k data eff n(3) by (simp add: seg_rep_def p')
    with seg_rep_other [OF n(5,6) others] have "list_all2 (seg_rep p') names ((rs @ [data], k) # segs')" using n(1) by simp
    moreover have "cur \<noteq> f" if "f \<in> set (segments old)" for f using that n(7) by blast
    ultimately have "represents old p' names ((rs @ [data], k) # segs')"
      using rep ok wok eff n(3) by (auto simp: represents_def p')
    with True size n(2) eff show ?thesis by (auto simp: p')
  next
    case False
    let ?new = "seg_name (wr_segSeq (wp_writer p))"
    note eff = Append_new_segment [OF ok(1) data False room none]
    have p': "p' = p\<lparr>wp_writer := w, wp_env := env, wp_synced := (wp_synced p)(?new := 0)\<rparr>"
      using eff none by (simp add: p'_def log_append_def)
    have others: "content (we_dir (wp_env p')) g = content (we_dir (wp_env p)) g \<and> wp_synced p' g = wp_synced p g"
      if "g \<noteq> ?new" for g using that eff by (simp add: p')
    have fresh: "?new \<notin> set names" "?new \<notin> set (segments old)" using eff rep by (auto simp: represents_def)
    have "seg_rep p' ?new ([data], 0)" using data eff by (simp add: seg_rep_def p')
    moreover have "list_all2 (seg_rep p') names segs"
      using rep by (intro seg_rep_other [OF _ fresh(1) others]) (simp_all add: represents_def)
    ultimately have "represents old p' (?new # names) (([data], 0) # segs)"
      using rep ok wok eff others fresh(2) by (auto simp: represents_def p')
    with False size n(2) eff show ?thesis by (auto simp: p')
  qed
qed

definition event_ok :: "wal_event \<Rightarrow> bool" where
  "event_ok e \<longleftrightarrow> list_all record_ok (event_record e)"

lemma represents_events:
  assumes "represents old p names segs" and "list_all event_ok es"
    and "wr_segSeq (wp_writer p) + int (length es) \<le> 10 ^ 10" and "wc_SegmentMaxSize (wr_cfg (wp_writer p)) = lim"
  shows "\<exists>names'. represents old (foldl log_event p es) names' (foldl (seg_event lim) segs es)"
  using assms
proof (induction es arbitrary: p names segs)
  case (Cons e es)
  have "(\<exists>names'. represents old (log_event p e) names' (seg_event lim segs e)) \<and>
      wr_segSeq (wp_writer (log_event p e)) \<le> wr_segSeq (wp_writer p) + 1 \<and>
      wr_cfg (wp_writer (log_event p e)) = wr_cfg (wp_writer p)"
  proof (cases e)
    case (AppendEvent data)
    with Cons.prems show ?thesis using represents_append [OF Cons.prems(1), of data lim] by (simp add: event_ok_def)
  next
    case (TickEvent ok)
    moreover have "wp_writer (syncLoop_tick ok p) = wp_writer p"
      by (simp add: syncLoop_tick_def split: option.splits prod.splits bool.splits)
    ultimately show ?thesis using represents_tick [OF Cons.prems(1), of ok lim] by auto
  qed
  then obtain names' where "represents old (log_event p e) names' (seg_event lim segs e)"
    "wr_segSeq (wp_writer (log_event p e)) \<le> wr_segSeq (wp_writer p) + 1"
    "wr_cfg (wp_writer (log_event p e)) = wr_cfg (wp_writer p)" by blast
  with Cons.IH [OF this(1)] Cons.prems(2-4) show ?case by simp
qed auto

lemma NewWriter_new_segment:
  assumes "log_dir_ok (we_dir env) n" and "0 < n" and "n < 10 ^ 10" and "NewWriter io cfg env = (Inr w, env')"
  shows "segments (we_dir env') = segments (we_dir env) @ [seg_name (wr_segSeq w - 1)]"
    and "we_dir env' = AList.update (seg_name (wr_segSeq w - 1)) [] (we_dir env)"
    and "seg_name (wr_segSeq w - 1) \<notin> set (segments (we_dir env))" and "wr_cfg w = cfg"
proof -
  let ?n = "findMaxSegment (we_dir env) + 1"
  note mx = findMaxSegment_bound [OF assms(1,2)]
  have seq: "seq_ok ?n" using mx(1,2) assms(3) by (simp add: seq_ok_def)
  have "wr_segSeq w - 1 = ?n \<and> we_dir env' = AList.update (seg_name ?n) [] (we_dir env) \<and> wr_cfg w = cfg"
    using assms(3,4) mx(1,2)
    by (auto simp: NewWriter_def wal_rotate_def create_segment_def Let_def is_i64_def split: if_splits)
  moreover from this have "seg_name (wr_segSeq w - 1) = seg_name ?n" by (simp only:)
  ultimately show "segments (we_dir env') = segments (we_dir env) @ [seg_name (wr_segSeq w - 1)]"
    "we_dir env' = AList.update (seg_name (wr_segSeq w - 1)) [] (we_dir env)"
    "seg_name (wr_segSeq w - 1) \<notin> set (segments (we_dir env))" "wr_cfg w = cfg"
    using segments_fresh [OF mx(3) seq] by (simp_all only: simp_thms)
qed

lemma represents_start:
  assumes "log_dir_ok (we_dir env) n" and "0 < n" and "n < 10 ^ 10" and "wc_SegmentMaxSize cfg < 2 ^ 62"
    and "log_start io cfg env = Inr p"
  shows "represents (we_dir env) p [seg_name (wr_segSeq (wp_writer p) - 1)] [([], 0)]"
    and "wr_segSeq (wp_writer p) \<le> n + 1" and "wr_cfg (wp_writer p) = cfg"
proof -
  obtain w env' where w: "NewWriter io cfg env = (Inr w, env')"
    and p: "p = \<lparr>wp_writer = w, wp_env = env', wp_synced = (\<lambda>f. length (content (we_dir env') f)), wp_stopped = False\<rparr>"
    using assms(5) by (auto simp: log_start_def split: prod.splits sum.splits if_splits)
  note new = NewWriter_new_segment [OF assms(1-3) w] and ok = NewWriter_ok [OF assms(1-4) w]
  have "seg_rep p (seg_name (wr_segSeq w - 1)) ([], 0)" by (simp add: seg_rep_def p new(2))
  with new ok show "represents (we_dir env) p [seg_name (wr_segSeq (wp_writer p) - 1)] [([], 0)]"
    by (auto simp: represents_def p)
  show "wr_segSeq (wp_writer p) \<le> n + 1" "wr_cfg (wp_writer p) = cfg" using ok new(4) by (simp_all add: p)
qed

section \<open>Power failure\<close>

lemma segments_power_loss [simp]: "segments (we_dir (power_loss cuts p)) = segments (we_dir (wp_env p))"
  by (simp add: power_loss_def segments_def comp_def case_prod_beta)

lemma content_power_loss [simp]:
  "content (we_dir (power_loss cuts p)) f = take (max (cuts f) (wp_synced p f)) (content (we_dir (wp_env p)) f)"
proof -
  have "map_of (map (\<lambda>(f, bs). (f, take (n f) bs)) dir) f = map_option (take (n f)) (map_of dir f)" for n and dir :: wal_dir
    by (induction dir) auto
  from this [of "\<lambda>f. max (cuts f) (wp_synced p f)"] show ?thesis
    by (cases "map_of (we_dir (wp_env p)) f") (simp_all add: power_loss_def content_def)
qed

text \<open>Closing the log reaches neither the directory nor the disk.\<close>

lemma power_loss_Close [simp]: "power_loss cuts (snd (log_Close io p)) = power_loss cuts p"
  by (simp add: log_Close_def power_loss_def split: prod.splits)

lemma length_seg_bytes_take: "m \<le> k \<Longrightarrow> length (seg_bytes (take m rs)) \<le> length (seg_bytes (take k rs))"
proof -
  assume "m \<le> k"
  then have "take k rs = take m rs @ drop m (take k rs)" by (metis append_take_drop_id min.absorb1 take_take)
  then have "seg_bytes (take k rs) = seg_bytes (take m rs) @ seg_bytes (drop m (take k rs))" by (metis seg_bytes_simps(3))
  then show ?thesis by simp
qed

lemma delivered_kept:
  assumes "list_all record_ok rs" and "k \<le> length rs" and "length (seg_bytes (take k rs)) \<le> c"
  shows "prefix (take k rs) (delivered (take c (seg_bytes rs))) \<and> prefix (delivered (take c (seg_bytes rs))) rs"
proof -
  obtain m where m: "delivered (take c (seg_bytes rs)) = take m rs" "m < length rs \<Longrightarrow> c < length (seg_bytes (take (Suc m) rs))"
    using delivered_cut [OF assms(1)] by metis
  have "k \<le> m"
  proof (rule ccontr)
    assume "\<not> k \<le> m"
    then have "c < length (seg_bytes (take (Suc m) rs))" using m(2) assms(2) by simp
    also have "\<dots> \<le> length (seg_bytes (take k rs))" using \<open>\<not> k \<le> m\<close> by (intro length_seg_bytes_take) simp
    finally show False using assms(3) by simp
  qed
  then have "take k rs = take k (take m rs)" by (simp add: min_def)
  with m(1) show ?thesis by (metis take_is_prefix)
qed

lemma delivered_exact:
  assumes "list_all record_ok rs"
  shows "delivered (take (length (seg_bytes (take k rs))) (seg_bytes rs)) = take k rs"
proof -
  have "seg_bytes rs = seg_bytes (take k rs) @ seg_bytes (drop k rs)" by (metis append_take_drop_id seg_bytes_simps(3))
  then have "take (length (seg_bytes (take k rs))) (seg_bytes rs) = seg_bytes (take k rs) @ []" by simp
  moreover have "list_all record_ok (take k rs)" using assms by (auto simp: list_all_iff dest: in_set_takeD)
  ultimately show ?thesis using delivered_records [of "take k rs" "[]"] by (simp add: delivered_short)
qed

definition seg_kept :: "bytes list \<times> nat \<Rightarrow> bytes list \<Rightarrow> bool" where
  "seg_kept seg part \<longleftrightarrow> prefix (take (snd seg) (fst seg)) part \<and> prefix part (fst seg)"

lemma power_loss_records:
  fixes cuts :: "string \<Rightarrow> nat"
  assumes "represents old p names segs"
  defines "part \<equiv> \<lambda>f. delivered (content (we_dir (power_loss cuts p)) f)"
  shows "list_all2 seg_kept segs (map part names)"
    and "dir_records (we_dir (power_loss cuts p)) = dir_records old @ concat (rev (map part names))"
    and "(\<forall>f. cuts f = 0) \<Longrightarrow> concat (rev (map part names)) = seg_durable segs"
proof -
  have rep: "list_all2 (seg_rep p) names segs" "segments (we_dir (wp_env p)) = segments old @ rev names"
    "\<And>f. f \<in> set (segments old) \<Longrightarrow> content (we_dir (wp_env p)) f = content old f \<and> wp_synced p f = length (content old f)"
    using assms(1) by (auto simp: represents_def)
  have "seg_kept seg (part f)" if "seg_rep p f seg" for f seg
    using that delivered_kept [of "fst seg" "snd seg"] by (auto simp: seg_rep_def seg_kept_def part_def)
  with rep(1) show "list_all2 seg_kept segs (map part names)"
    by (induction rule: list_all2_induct) auto
  have "part f = delivered (content old f)" if "f \<in> set (segments old)" for f
    using rep(3) [OF that] by (simp add: part_def)
  then have "map part (segments old) = map (\<lambda>f. delivered (content old f)) (segments old)" by simp
  note old = arg_cong [OF this, of concat]
  show "dir_records (we_dir (power_loss cuts p)) = dir_records old @ concat (rev (map part names))"
    unfolding dir_records_def segments_power_loss rep(2) using old by (simp add: part_def rev_map del: content_power_loss)
  assume "\<forall>f. cuts f = 0"
  then have "part f = take (snd seg) (fst seg)" if "seg_rep p f seg" for f seg
    using that delivered_exact [of "fst seg" "snd seg"] by (simp add: seg_rep_def part_def)
  with rep(1) have "map part names = map (\<lambda>(rs, k). take k rs) segs"
    by (induction rule: list_all2_induct) (auto simp: case_prod_beta)
  then show "concat (rev (map part names)) = seg_durable segs" by (simp add: seg_durable_def rev_map)
qed

text \<open>
  Property C19. Power failure: after any interleaving of appends and ticks of the sync loop,
  and whether or not the log was closed, a power failure that cuts every segment anywhere
  behind the bytes last synced leaves a log whose replay delivers, behind the records of
  earlier processes, a prefix of each segment that holds at least its durable records;
  nothing altered, nothing reordered within a segment. The worst failure delivers exactly
  the durable ones, and without a failure every appended record is there.
\<close>

theorem wal_power_failure:
  assumes "log_dir_ok (we_dir env) n" and "0 < n" and "n + int (length es) < 10 ^ 10"
    and "wc_SegmentMaxSize cfg < 2 ^ 62" and "list_all event_ok es"
    and "log_start io_ok cfg env = Inr p"
    and "p' = (if closed then snd (log_Close io (foldl log_event p es)) else foldl log_event p es)"
    and "segs = foldl (seg_event (wc_SegmentMaxSize cfg)) [([], 0)] es"
    and "Replay DirReadable open_ok collect (power_loss cuts p') [] = (err, env', out)"
  shows "err = None \<and> seg_records segs = concat (map event_record es) \<and>
    (\<exists>parts. list_all2 seg_kept segs parts \<and> out = dir_records (we_dir env) @ concat (rev parts)) \<and>
    ((\<forall>f. cuts f = 0) \<longrightarrow> out = dir_records (we_dir env) @ seg_durable segs)"
proof -
  have "n < 10 ^ 10" using assms(3) by simp
  note start = represents_start [OF assms(1,2) this assms(4,6)]
  obtain names where rep: "represents (we_dir env) (foldl log_event p es) names segs"
    using represents_events [OF start(1) assms(5)] start(2,3) assms(3,8) by fastforce
  have loss: "power_loss cuts p' = power_loss cuts (foldl log_event p es)" by (simp add: assms(7))
  have "seg_records segs = concat (map event_record es)" by (simp add: assms(8) seg_events_records) (simp add: seg_records_def)
  with Replay_records [OF assms(9)] power_loss_records [OF rep, of cuts] show ?thesis by (auto simp: loss)
qed

definition small_wal :: wal_Config where
  "small_wal = wal_DefaultConfig\<lparr>wc_SegmentMaxSize := 20\<rparr>"

definition rotation_events :: "wal_event list" where
  "rotation_events = [AppendEvent [1], AppendEvent [2, 3, 4, 5], TickEvent True]"

lemma rotation_start: obtains p where "log_start io_ok small_wal demo_wal = Inr p"
  using NewWriter_total [of small_wal demo_wal]
  by (auto simp: log_start_def small_wal_def wal_DefaultConfig_def)

lemma rotation_segs: "foldl (seg_event 20) [([], 0)] rotation_events = [([[2, 3, 4, 5]], 1), ([[1]], 0)]"
  by (simp add: rotation_events_def)

text \<open>
  The witness is a rotation: the first record is acknowledged and its segment closed before
  a tick, so no later tick syncs it, and a power failure loses it while the second record
  survives.
\<close>

theorem wal_power_failure_witness:
  "\<exists>p. log_start io_ok small_wal demo_wal = Inr p \<and>
     snd (snd (Replay DirReadable open_ok collect (power_loss (\<lambda>f. 0) (foldl log_event p rotation_events)) [])) = [[2, 3, 4, 5]]"
proof -
  obtain p where p: "log_start io_ok small_wal demo_wal = Inr p" using rotation_start by blast
  obtain err env' out where r: "Replay DirReadable open_ok collect (power_loss (\<lambda>f. 0) (foldl log_event p rotation_events)) [] = (err, env', out)"
    by (metis prod_cases3)
  have "dir_records (we_dir demo_wal) = []" by (simp add: dir_records_def demo_wal_def segments_def)
  with wal_power_failure [OF demo_wal_dir _ _ _ _ p, where closed = False and es = rotation_events and cuts = "\<lambda>f. 0" and out = out, OF _ _ _ _ _ refl] r
  have "out = [[2, 3, 4, 5]]"
    by (simp add: small_wal_def wal_DefaultConfig_def rotation_segs seg_durable_def)
      (simp add: rotation_events_def event_ok_def record_ok_def)
  with p r show ?thesis by (intro exI [of _ p]) simp
qed

text \<open>
  A lost record needs no bad luck: whatever was appended to a segment after its last
  successful tick stays undurable for good once the log has moved on to the next segment.
\<close>

lemma seg_event_tail: "\<exists>newer. newer \<noteq> [] \<and> seg_event lim (seg # segs) e = newer @ segs"
  by (cases "(lim, seg # segs, e)" rule: seg_event.cases; cases seg) auto

lemma older_segments_fixed: "\<exists>newer. newer \<noteq> [] \<and> foldl (seg_event lim) (seg # segs) es = newer @ segs"
proof (induction es arbitrary: seg segs)
  case (Cons e es)
  obtain newest newer where "seg_event lim (seg # segs) e = newest # newer @ segs"
    using seg_event_tail by (metis append_Cons neq_Nil_conv)
  with Cons [of newest "newer @ segs"] show ?case by auto
qed simp

end
