(* ===== verification/Otel_Model.thy ===== *)
theory Otel_Model
  imports Go_Hash Rate_Limit
begin

text \<open>
  Data of the telemetry gateway: the configuration tree of
  \<^verbatim>\<open>internal/otelgateway/config\<close> with its defaults, the payloads of
  \<^verbatim>\<open>internal/otelgateway/model\<close>, and the counters and gauges of
  \<^verbatim>\<open>internal/otelgateway/metrics\<close> the pipeline changes. Of the OTLP messages a payload wraps,
  only the fields the gateway reads have a type of their own; the rest of a message is an
  opaque string. A \<^verbatim>\<open>nil\<close> pointer is \<open>None\<close>. A counter is the exact sum of what was
  added to it.
\<close>

section \<open>Configuration\<close>

record GRPCReceiverConfig =
  grpc_Addr :: string
  grpc_MaxRecvMsgSize :: int
  grpc_MaxConcurrent :: int

record HTTPReceiverConfig =
  http_Addr :: string
  http_MaxRequestBody :: int

record ReceiverConfig =
  rc_GRPC :: GRPCReceiverConfig
  rc_HTTP :: HTTPReceiverConfig

record PipelineConfig =
  pc_TraceQueueSize :: int
  pc_MetricQueueSize :: int
  pc_Workers :: int
  pc_ShardCount :: int

record BatchConfig =
  bc_MaxItems :: int
  bc_MaxBytes :: int
  bc_FlushInterval :: duration

record SamplerConfig =
  sc_SamplingRate :: rat

record MemLimitConfig =
  mc_Enabled :: bool
  mc_HighWatermarkMB :: "64 word"
  mc_CriticalWatermarkMB :: "64 word"
  mc_CheckInterval :: duration

record RateLimitConfig =
  rlc_Enabled :: bool
  rlc_TraceRatePerSec :: rat
  rlc_MetricRatePerSec :: rat
  rlc_BurstMultiplier :: rat

record DegradeConfig =
  dc_Enabled :: bool
  dc_DegradedSamplingRate :: rat

record ProcessorConfig =
  prc_Batch :: BatchConfig
  prc_Sampler :: SamplerConfig
  prc_MemLimit :: MemLimitConfig
  prc_RateLimit :: RateLimitConfig
  prc_Degrade :: DegradeConfig

record TempoExporterConfig =
  tc_Endpoint :: string
  tc_Insecure :: bool
  tc_Timeout :: duration

record JaegerExporterConfig =
  jc_Enabled :: bool
  jc_Endpoint :: string
  jc_Insecure :: bool
  jc_Timeout :: duration

record VMExporterConfig =
  vm_Endpoint :: string
  vm_Timeout :: duration

record ExporterConfig =
  ec_Tempo :: TempoExporterConfig
  ec_Jaeger :: JaegerExporterConfig
  ec_VictoriaMetrics :: VMExporterConfig

record RetryConfig =
  rtc_Enabled :: bool
  rtc_MaxAttempts :: int
  rtc_InitialDelay :: duration
  rtc_MaxDelay :: duration
  rtc_JitterFraction :: rat

record WALConfig =
  wlc_Enabled :: bool
  wlc_Dir :: string
  wlc_SegmentMaxSize :: int
  wlc_SyncInterval :: duration

record MetricsConfig =
  mtc_Addr :: string

record Otel_Config =
  oc_Receivers :: ReceiverConfig
  oc_Pipeline :: PipelineConfig
  oc_Processors :: ProcessorConfig
  oc_Exporters :: ExporterConfig
  oc_Retry :: RetryConfig
  oc_WAL :: WALConfig
  oc_Metrics :: MetricsConfig

definition Second :: duration where
  "Second = 10 ^ 9"

definition Millisecond :: duration where
  "Millisecond = 10 ^ 6"

definition Otel_DefaultConfig :: Otel_Config where
  "Otel_DefaultConfig =
     \<lparr>oc_Receivers =
        \<lparr>rc_GRPC = \<lparr>grpc_Addr = '':4317'', grpc_MaxRecvMsgSize = 4 * 1024 * 1024, grpc_MaxConcurrent = 100\<rparr>,
         rc_HTTP = \<lparr>http_Addr = '':4318'', http_MaxRequestBody = 4 * 1024 * 1024\<rparr>\<rparr>,
      oc_Pipeline = \<lparr>pc_TraceQueueSize = 10000, pc_MetricQueueSize = 10000, pc_Workers = 4, pc_ShardCount = 4\<rparr>,
      oc_Processors =
        \<lparr>prc_Batch = \<lparr>bc_MaxItems = 500, bc_MaxBytes = 2 * 1024 * 1024, bc_FlushInterval = 5 * Second\<rparr>,
         prc_Sampler = \<lparr>sc_SamplingRate = 1\<rparr>,
         prc_MemLimit = \<lparr>mc_Enabled = False, mc_HighWatermarkMB = 384, mc_CriticalWatermarkMB = 460, mc_CheckInterval = Second\<rparr>,
         prc_RateLimit = \<lparr>rlc_Enabled = False, rlc_TraceRatePerSec = 10000, rlc_MetricRatePerSec = 50000, rlc_BurstMultiplier = 2\<rparr>,
         prc_Degrade = \<lparr>dc_Enabled = False, dc_DegradedSamplingRate = f64 (1 / 10)\<rparr>\<rparr>,
      oc_Exporters =
        \<lparr>ec_Tempo = \<lparr>tc_Endpoint = ''localhost:4317'', tc_Insecure = True, tc_Timeout = 10 * Second\<rparr>,
         ec_Jaeger = \<lparr>jc_Enabled = False, jc_Endpoint = '''', jc_Insecure = False, jc_Timeout = 0\<rparr>,
         ec_VictoriaMetrics = \<lparr>vm_Endpoint = ''http://localhost:8428/api/v1/write'', vm_Timeout = 10 * Second\<rparr>\<rparr>,
      oc_Retry =
        \<lparr>rtc_Enabled = False, rtc_MaxAttempts = 5, rtc_InitialDelay = 100 * Millisecond, rtc_MaxDelay = 10 * Second,
         rtc_JitterFraction = f64 (1 / 5)\<rparr>,
      oc_WAL =
        \<lparr>wlc_Enabled = False, wlc_Dir = ''/tmp/gateway-wal'', wlc_SegmentMaxSize = 64 * 1024 * 1024,
         wlc_SyncInterval = 500 * Millisecond\<rparr>,
      oc_Metrics = \<lparr>mtc_Addr = '':8888''\<rparr>\<rparr>"

text \<open>
  Reading the file and decoding YAML are outside: \<open>file\<close> is the content or the error of
  reading it, \<open>unmarshal\<close> decodes a document into a configuration.
\<close>

definition Otel_Load :: "(string \<Rightarrow> Otel_Config \<Rightarrow> error + Otel_Config) \<Rightarrow> error + string \<Rightarrow> error + Otel_Config" where
  "Otel_Load unmarshal file =
     (case file of
        Inl err \<Rightarrow> Inl (wrapf ''read config'' err)
      | Inr data \<Rightarrow>
          (case unmarshal data Otel_DefaultConfig of
             Inl err \<Rightarrow> Inl (wrapf ''parse config'' err)
           | Inr cfg \<Rightarrow> Inr cfg))"

section \<open>Payloads\<close>

datatype SignalType = SignalTrace | SignalMetric

fun SignalType_String :: "SignalType \<Rightarrow> string" where
  "SignalType_String SignalTrace = ''trace''"
| "SignalType_String SignalMetric = ''metric''"

record KeyValue =
  kv_Key :: string
  kv_StringValue :: string

type_synonym Resource = "KeyValue list"

record Span =
  sp_TraceId :: bytes
  sp_Rest :: string

record ScopeSpans =
  ss_Spans :: "Span list"
  ss_Rest :: string

record ResourceSpans =
  rs_Resource :: "Resource option"
  rs_ScopeSpans :: "ScopeSpans list"

record ResourceMetrics =
  rm_Resource :: "Resource option"
  rm_Rest :: string

record TracePayload =
  tp_Data :: "ResourceSpans list option"
  tp_ReceivedAt :: gtime
  tp_SpanCount :: int

record MetricPayload =
  mp_Data :: "ResourceMetrics list option"
  mp_ReceivedAt :: gtime
  mp_DataPointCount :: int

section \<open>Metrics\<close>

record OtelMetrics =
  om_QueueDepth :: "SignalType \<Rightarrow> int"
  om_QueueCapacity :: "SignalType \<Rightarrow> int"
  om_QueueDropTotal :: "SignalType \<Rightarrow> nat"
  om_BackpressureEventsTotal :: nat
  om_ExportAttemptTotal :: "string \<Rightarrow> nat"
  om_ExportSuccessTotal :: "string \<Rightarrow> nat"
  om_ExportFailureTotal :: "string \<Rightarrow> nat"
  om_ExportRetryTotal :: "string \<Rightarrow> nat"
  om_DegradeMode :: int
  om_SamplingRatio :: rat
  om_RejectedSpansTotal :: int

definition OtelMetrics_zero :: OtelMetrics where
  "OtelMetrics_zero = \<lparr>om_QueueDepth = (\<lambda>_. 0), om_QueueCapacity = (\<lambda>_. 0), om_QueueDropTotal = (\<lambda>_. 0),
     om_BackpressureEventsTotal = 0, om_ExportAttemptTotal = (\<lambda>_. 0), om_ExportSuccessTotal = (\<lambda>_. 0),
     om_ExportFailureTotal = (\<lambda>_. 0), om_ExportRetryTotal = (\<lambda>_. 0), om_DegradeMode = 0, om_SamplingRatio = 0,
     om_RejectedSpansTotal = 0\<rparr>"

definition label_inc :: "string \<Rightarrow> (string \<Rightarrow> nat) \<Rightarrow> string \<Rightarrow> nat" where
  "label_inc l c = c(l := c l + 1)"

end
