(* ===== verification/Otel_Metrics.thy ===== *)
theory Otel_Metrics
  imports Otel_Model
begin

text \<open>
  The metrics of the telemetry gateway (\<^verbatim>\<open>internal/otelgateway/metrics/metrics.go\<close>) as the
  package declares them: every variable with the constructor, the options and the labels it
  is created with, in the order of the file. The client library registers them all when the
  package is loaded and panics there for two metrics of one name, for a name or a label
  outside its alphabet and for buckets that do not increase; the lemmas show that no
  declaration gives it a reason to. The values the code keeps in them are the record
  \<open>OtelMetrics\<close>.
\<close>

datatype metric_buckets = Buckets "int list" | DefBuckets

datatype metric_kind = Counter | Gauge | Histogram metric_buckets

record metric_opts =
  mo_Var :: string
  mo_Kind :: metric_kind
  mo_Name :: string
  mo_Help :: string
  mo_Labels :: "string list"

definition metric_decl :: "string \<times> metric_kind \<times> string \<times> string \<times> string list \<Rightarrow> metric_opts" where
  "metric_decl d = (case d of (var, kind, name, help, labels) \<Rightarrow>
     \<lparr>mo_Var = var, mo_Kind = kind, mo_Name = name, mo_Help = help, mo_Labels = labels\<rparr>)"

definition gateway_metrics :: "metric_opts list" where
  "gateway_metrics = map metric_decl
     [(''IngestRequestsTotal'', Counter, ''gateway_ingest_requests_total'',
        ''Total number of ingest requests received.'', []),
      (''IngestItemsTotal'', Counter, ''gateway_ingest_items_total'',
        ''Total number of items (spans/metrics) received.'', [''signal'']),
      (''IngestDecodeFailuresTotal'', Counter, ''gateway_ingest_decode_failures_total'',
        ''Total number of decode failures at ingest.'', []),
      (''QueueDepth'', Gauge, ''gateway_queue_depth'',
        ''Current queue depth.'', [''signal'']),
      (''QueueCapacity'', Gauge, ''gateway_queue_capacity'',
        ''Queue capacity.'', [''signal'']),
      (''QueueDropTotal'', Counter, ''gateway_queue_drop_total'',
        ''Total number of items dropped due to full queue.'', [''signal'']),
      (''BackpressureEventsTotal'', Counter, ''gateway_backpressure_events_total'',
        ''Total number of backpressure events triggered.'', []),
      (''BatchFlushTotal'', Counter, ''gateway_batch_flush_total'',
        ''Total number of batch flushes.'', [''signal'']),
      (''BatchItemsHistogram'', (Histogram (Buckets [1, 10, 50, 100, 200, 500, 1000, 2000, 5000])), ''gateway_batch_items_histogram'',
        ''Number of items per batch flush.'', [''signal'']),
      (''BatchFlushLatency'', (Histogram DefBuckets), ''gateway_batch_flush_latency_seconds'',
        ''Latency of batch flush operations.'', [''signal'']),
      (''BatchTimeoutFlushTotal'', Counter, ''gateway_batch_timeout_flush_total'',
        ''Total batch flushes triggered by timeout.'', [''signal'']),
      (''BatchSizeFlushTotal'', Counter, ''gateway_batch_size_flush_total'',
        ''Total batch flushes triggered by size limit.'', [''signal'']),
      (''ExportAttemptTotal'', Counter, ''gateway_export_attempt_total'',
        ''Total export attempts.'', [''exporter'']),
      (''ExportSuccessTotal'', Counter, ''gateway_export_success_total'',
        ''Total successful exports.'', [''exporter'']),
      (''ExportFailureTotal'', Counter, ''gateway_export_failure_total'',
        ''Total failed exports.'', [''exporter'']),
      (''ExportRetryTotal'', Counter, ''gateway_export_retry_total'',
        ''Total export retries.'', [''exporter'']),
      (''ExportLatency'', (Histogram DefBuckets), ''gateway_export_latency_seconds'',
        ''Latency of export operations.'', [''exporter'']),
      (''WALAppendTotal'', Counter, ''gateway_wal_append_total'',
        ''Total WAL append operations.'', []),
      (''WALReplayTotal'', Counter, ''gateway_wal_replay_total'',
        ''Total WAL replay operations.'', []),
      (''WALReplayLatency'', (Histogram DefBuckets), ''gateway_wal_replay_latency_seconds'',
        ''Latency of WAL replay operations.'', []),
      (''WALCorruptionTotal'', Counter, ''gateway_wal_corruption_total'',
        ''Total WAL corruption events detected.'', []),
      (''DegradeMode'', Gauge, ''gateway_degrade_mode'',
        ''Current degrade mode (0=normal, 1=degraded, 2=critical).'', []),
      (''SamplingRatio'', Gauge, ''gateway_sampling_ratio'',
        ''Current effective sampling ratio.'', []),
      (''RejectedSpansTotal'', Counter, ''gateway_rejected_spans_total'',
        ''Total rejected spans due to rate limiting or degradation.'', [])]"

section \<open>What the client library asks for\<close>

definition name_char :: "char \<Rightarrow> bool" where
  "name_char c \<longleftrightarrow> c = CHR ''_'' \<or> c = CHR '':'' \<or>
     (let n = of_char c :: nat in 48 \<le> n \<and> n \<le> 57 \<or> 65 \<le> n \<and> n \<le> 90 \<or> 97 \<le> n \<and> n \<le> 122)"

definition metric_name_ok :: "string \<Rightarrow> bool" where
  "metric_name_ok s \<longleftrightarrow> s \<noteq> [] \<and> list_all name_char s \<and> \<not> is_digit (hd s)"

definition label_name_ok :: "string \<Rightarrow> bool" where
  "label_name_ok s \<longleftrightarrow> metric_name_ok s \<and> CHR '':'' \<notin> set s \<and> \<not> HasPrefix s ''__'' \<and> s \<noteq> ''le''"

fun buckets_ok :: "metric_kind \<Rightarrow> bool" where
  "buckets_ok (Histogram (Buckets bs)) = sorted_wrt (<) bs"
| "buckets_ok _ = True"

lemma gateway_metrics_distinct: "distinct (map mo_Name gateway_metrics)" "distinct (map mo_Var gateway_metrics)"
  by code_simp+

lemma gateway_metrics_valid:
  "list_all (\<lambda>m. metric_name_ok (mo_Name m) \<and> list_all label_name_ok (mo_Labels m) \<and> buckets_ok (mo_Kind m)) gateway_metrics"
  by code_simp

text \<open>The convention of the package: one prefix for all, and the suffix of a counter.\<close>

lemma gateway_metrics_named:
  "list_all (\<lambda>m. HasPrefix (mo_Name m) ''gateway_'' \<and>
     (mo_Kind m = Counter \<longleftrightarrow> HasSuffix (mo_Name m) ''_total'')) gateway_metrics"
  by code_simp

end
