(* ===== verification/Processors.thy ===== *)
theory Processors
  imports Otel_Model "HOL-Library.Sublist"
begin

text \<open>
  The processors of the telemetry pipeline, \<^verbatim>\<open>internal/otelgateway/processor/*\<close>: sampler,
  degradation, memory limiter and rate limiter. A processor call returns an error, no
  payload (the payload is filtered out) or the payload to pass on, and the metrics it
  changed. Random numbers, the clock and the heap size read are arguments. The sampler
  rewrites the slices of its payload in place; the payload is the only reference to them,
  so the model returns the rewritten payload.
\<close>

unbundle bit_operations_syntax

type_synonym 'p processed = "error + 'p option"

section \<open>Sampler\<close>

record Sampler =
  sm_rate :: rat

definition clamp_rate :: "rat \<Rightarrow> rat" where
  "clamp_rate rate = (let r = (if rate < 0 then 0 else rate) in if r > 1 then 1 else r)"

definition Sampler_New :: "rat \<Rightarrow> Sampler" where
  "Sampler_New rate = \<lparr>sm_rate = clamp_rate rate\<rparr>"

definition SetRate :: "rat \<Rightarrow> Sampler \<Rightarrow> Sampler" where
  "SetRate rate p = p\<lparr>sm_rate := clamp_rate rate\<rparr>"

definition sample_threshold :: "rat \<Rightarrow> 64 word" where
  "sample_threshold rate = word_of_int \<lfloor>f64 (rate * 2 ^ 63)\<rfloor>"

definition shouldSample :: "bytes \<Rightarrow> 64 word \<Rightarrow> bool" where
  "shouldSample traceID threshold =
     (if length traceID = 0 then True else drop_bit 1 (fnv64a traceID) < threshold)"

definition keep_spans :: "64 word \<Rightarrow> Span list \<Rightarrow> Span list" where
  "keep_spans threshold spans = filter (\<lambda>span. shouldSample (sp_TraceId span) threshold) spans"

fun keep_scopes :: "64 word \<Rightarrow> ScopeSpans list \<Rightarrow> ScopeSpans list" where
  "keep_scopes threshold [] = []"
| "keep_scopes threshold (ss # rest) =
     (let keptSpans = keep_spans threshold (ss_Spans ss)
      in if length keptSpans > 0 then ss\<lparr>ss_Spans := keptSpans\<rparr> # keep_scopes threshold rest
         else keep_scopes threshold rest)"

fun keep_resources :: "64 word \<Rightarrow> ResourceSpans list \<Rightarrow> ResourceSpans list" where
  "keep_resources threshold [] = []"
| "keep_resources threshold (rs # rest) =
     (let keptScopes = keep_scopes threshold (rs_ScopeSpans rs)
      in if length keptScopes > 0 then rs\<lparr>rs_ScopeSpans := keptScopes\<rparr> # keep_resources threshold rest
         else keep_resources threshold rest)"

definition count_spans :: "ResourceSpans list \<Rightarrow> nat" where
  "count_spans rss = sum_list (map (\<lambda>rs. sum_list (map (\<lambda>ss. length (ss_Spans ss)) (rs_ScopeSpans rs))) rss)"

definition Sampler_ProcessTraces :: "Sampler \<Rightarrow> TracePayload option \<Rightarrow> TracePayload processed" where
  "Sampler_ProcessTraces p payload =
     (case payload of
        None \<Rightarrow> Inr None
      | Some tp \<Rightarrow>
          (case tp_Data tp of
             None \<Rightarrow> Inr None
           | Some rss \<Rightarrow>
               if sm_rate p \<ge> 1 then Inr (Some tp)
               else if sm_rate p \<le> 0 then Inr None
               else
                 (let kept = keep_resources (sample_threshold (sm_rate p)) rss
                  in if length kept = 0 then Inr None
                     else Inr (Some (tp\<lparr>tp_Data := Some kept, tp_SpanCount := int (count_spans kept)\<rparr>)))))"

section \<open>Degradation\<close>

definition ModeNormal :: int where "ModeNormal = 0"

definition ModeDegraded :: int where "ModeDegraded = 1"

definition ModeCritical :: int where "ModeCritical = 2"

definition Mode_String :: "int \<Rightarrow> string" where
  "Mode_String m =
     (if m = ModeNormal then ''normal'' else if m = ModeDegraded then ''degraded''
      else if m = ModeCritical then ''critical'' else ''unknown'')"

record Degrade_Config =
  dg_DegradedSamplingRate :: rat

definition Degrade_DefaultConfig :: Degrade_Config where
  "Degrade_DefaultConfig = \<lparr>dg_DegradedSamplingRate = f64 (1 / 10)\<rparr>"

record Degrade =
  dp_cfg :: Degrade_Config
  dp_mode :: int

definition Degrade_New :: "Degrade_Config \<Rightarrow> Degrade" where
  "Degrade_New cfg = \<lparr>dp_cfg = cfg, dp_mode = 0\<rparr>"

definition Degrade_UpdateConfig :: "Degrade_Config \<Rightarrow> Degrade \<Rightarrow> Degrade" where
  "Degrade_UpdateConfig cfg p = p\<lparr>dp_cfg := cfg\<rparr>"

definition SetMode :: "int \<Rightarrow> Degrade \<Rightarrow> OtelMetrics \<Rightarrow> Degrade \<times> OtelMetrics" where
  "SetMode m p om =
     (let old = dp_mode p; p' = p\<lparr>dp_mode := m\<rparr>
      in if old \<noteq> m then
           (let om1 = om\<lparr>om_DegradeMode := m\<rparr>
            in (p', if m = ModeNormal then om1\<lparr>om_SamplingRatio := 1\<rparr>
                    else if m = ModeDegraded then om1\<lparr>om_SamplingRatio := dg_DegradedSamplingRate (dp_cfg p)\<rparr>
                    else if m = ModeCritical then om1\<lparr>om_SamplingRatio := 0\<rparr>
                    else om1))
         else (p', om))"

definition reject_spans :: "TracePayload \<Rightarrow> OtelMetrics \<Rightarrow> OtelMetrics" where
  "reject_spans tp om = om\<lparr>om_RejectedSpansTotal := om_RejectedSpansTotal om + tp_SpanCount tp\<rparr>"

text \<open>\<open>rnd\<close> is the value of \<^verbatim>\<open>rand.Float64()\<close>, at least zero and below one.\<close>

definition Degrade_ProcessTraces ::
  "rat \<Rightarrow> Degrade \<Rightarrow> TracePayload \<Rightarrow> OtelMetrics \<Rightarrow> TracePayload processed \<times> OtelMetrics" where
  "Degrade_ProcessTraces rnd p tp om =
     (if dp_mode p = ModeCritical then (Inr None, reject_spans tp om)
      else if dp_mode p = ModeDegraded \<and> rnd \<ge> dg_DegradedSamplingRate (dp_cfg p) then (Inr None, reject_spans tp om)
      else (Inr (Some tp), om))"

definition Degrade_ProcessMetrics :: "Degrade \<Rightarrow> MetricPayload \<Rightarrow> MetricPayload processed" where
  "Degrade_ProcessMetrics p mp = Inr (Some mp)"

section \<open>Memory limiter\<close>

definition LevelNormal :: int where "LevelNormal = 0"

definition LevelHigh :: int where "LevelHigh = 1"

definition LevelCritical :: int where "LevelCritical = 2"

definition Level_String :: "int \<Rightarrow> string" where
  "Level_String l =
     (if l = LevelNormal then ''normal'' else if l = LevelHigh then ''high''
      else if l = LevelCritical then ''critical'' else ''unknown'')"

record Memlimit_Config =
  ml_HighWatermarkMB :: "64 word"
  ml_CriticalWatermarkMB :: "64 word"
  ml_CheckInterval :: duration

definition Memlimit_DefaultConfig :: Memlimit_Config where
  "Memlimit_DefaultConfig = \<lparr>ml_HighWatermarkMB = 384, ml_CriticalWatermarkMB = 460, ml_CheckInterval = Second\<rparr>"

text \<open>The optional callback acts on a state \<open>'s\<close> of its owner and on the metrics, which are global.\<close>

record 's Memlimit =
  mm_cfg :: Memlimit_Config
  mm_level :: int
  mm_onLevelChange :: "(int \<Rightarrow> 's \<times> OtelMetrics \<Rightarrow> 's \<times> OtelMetrics) option"

definition Memlimit_New :: "Memlimit_Config \<Rightarrow> (int \<Rightarrow> 's \<times> OtelMetrics \<Rightarrow> 's \<times> OtelMetrics) option \<Rightarrow> 's Memlimit" where
  "Memlimit_New cfg cb = \<lparr>mm_cfg = cfg, mm_level = 0, mm_onLevelChange = cb\<rparr>"

definition level_of :: "Memlimit_Config \<Rightarrow> 64 word \<Rightarrow> int" where
  "level_of cfg heapAlloc =
     (let highBytes = ml_HighWatermarkMB cfg * 1024 * 1024; critBytes = ml_CriticalWatermarkMB cfg * 1024 * 1024
      in if heapAlloc \<ge> critBytes then LevelCritical else if heapAlloc \<ge> highBytes then LevelHigh else LevelNormal)"

text \<open>One tick of the monitor: \<open>heapAlloc\<close> is what \<^verbatim>\<open>runtime.ReadMemStats\<close> returned.\<close>

definition monitor_tick :: "64 word \<Rightarrow> 's Memlimit \<Rightarrow> 's \<times> OtelMetrics \<Rightarrow> 's Memlimit \<times> 's \<times> OtelMetrics" where
  "monitor_tick heapAlloc p = (\<lambda>(s, om).
     let newLevel = level_of (mm_cfg p) heapAlloc; old = mm_level p; p' = p\<lparr>mm_level := newLevel\<rparr>
     in if old \<noteq> newLevel then
          (let om1 = om\<lparr>om_DegradeMode := newLevel\<rparr>
           in (p', case mm_onLevelChange p of None \<Rightarrow> (s, om1) | Some cb \<Rightarrow> cb newLevel (s, om1)))
        else (p', s, om))"

definition Memlimit_ProcessTraces ::
  "'s Memlimit \<Rightarrow> TracePayload \<Rightarrow> OtelMetrics \<Rightarrow> TracePayload processed \<times> OtelMetrics" where
  "Memlimit_ProcessTraces p tp om =
     (if mm_level p = LevelCritical then
        (Inl (ErrorString (''memlimit: heap above critical watermark, rejecting '' @ itoa (tp_SpanCount tp) @ '' spans'')),
         reject_spans tp (om\<lparr>om_BackpressureEventsTotal := om_BackpressureEventsTotal om + 1\<rparr>))
      else (Inr (Some tp), om))"

definition Memlimit_ProcessMetrics ::
  "'s Memlimit \<Rightarrow> MetricPayload \<Rightarrow> OtelMetrics \<Rightarrow> MetricPayload processed \<times> OtelMetrics" where
  "Memlimit_ProcessMetrics p mp om =
     (if mm_level p = LevelCritical then
        (Inl (ErrorString (''memlimit: heap above critical watermark, rejecting '' @ itoa (mp_DataPointCount mp) @ '' datapoints'')),
         om\<lparr>om_BackpressureEventsTotal := om_BackpressureEventsTotal om + 1\<rparr>)
      else (Inr (Some mp), om))"

section \<open>Rate limiter\<close>

definition Ratelimit_ProcessTraces ::
  "gtime \<Rightarrow> Ratelimit \<Rightarrow> TracePayload \<Rightarrow> OtelMetrics \<Rightarrow> TracePayload processed \<times> Ratelimit \<times> OtelMetrics" where
  "Ratelimit_ProcessTraces now p tp om =
     (case tryConsume now (tp_SpanCount tp) (rp_traceBucket p) of
        (ok, b) \<Rightarrow>
          (if \<not> ok then
             (Inl (ErrorString (''ratelimit: trace rate exceeded, rejecting '' @ itoa (tp_SpanCount tp) @ '' spans'')),
              p\<lparr>rp_traceBucket := b\<rparr>, reject_spans tp om)
           else (Inr (Some tp), p\<lparr>rp_traceBucket := b\<rparr>, om)))"

definition Ratelimit_ProcessMetrics ::
  "gtime \<Rightarrow> Ratelimit \<Rightarrow> MetricPayload \<Rightarrow> MetricPayload processed \<times> Ratelimit" where
  "Ratelimit_ProcessMetrics now p mp =
     (case tryConsume now (mp_DataPointCount mp) (rp_metricBucket p) of
        (ok, b) \<Rightarrow>
          (if \<not> ok then
             (Inl (ErrorString (''ratelimit: metric rate exceeded, rejecting '' @ itoa (mp_DataPointCount mp) @ '' datapoints'')),
              p\<lparr>rp_metricBucket := b\<rparr>)
           else (Inr (Some mp), p\<lparr>rp_metricBucket := b\<rparr>)))"

section \<open>What the sampler keeps\<close>

definition scope_spans :: "ScopeSpans list \<Rightarrow> Span list" where
  "scope_spans sss = concat (map ss_Spans sss)"

definition spans_of :: "ResourceSpans list \<Rightarrow> Span list" where
  "spans_of rss = concat (map (\<lambda>rs. scope_spans (rs_ScopeSpans rs)) rss)"

lemma scope_spans_keep: "scope_spans (keep_scopes t sss) = keep_spans t (scope_spans sss)"
  by (induction sss) (simp_all add: scope_spans_def keep_spans_def Let_def)

lemma keep_scopes_empty: "scope_spans (keep_scopes t sss) = [] \<longleftrightarrow> keep_scopes t sss = []"
  by (induction sss) (auto simp: scope_spans_def Let_def)

lemma spans_of_keep: "spans_of (keep_resources t rss) = keep_spans t (spans_of rss)"
proof (induction rss)
  case (Cons rs rss)
  show ?case
  proof (cases "keep_scopes t (rs_ScopeSpans rs) = []")
    case True
    then have "keep_spans t (scope_spans (rs_ScopeSpans rs)) = []" by (simp add: scope_spans_keep [symmetric] scope_spans_def [of "[]"])
    with Cons True show ?thesis by (simp add: spans_of_def keep_spans_def Let_def)
  next
    case False
    with Cons scope_spans_keep [of t "rs_ScopeSpans rs"] show ?thesis by (simp add: spans_of_def keep_spans_def Let_def)
  qed
qed (simp add: spans_of_def keep_spans_def)

lemma keep_resources_empty: "spans_of (keep_resources t rss) = [] \<longleftrightarrow> keep_resources t rss = []"
  by (induction rss) (auto simp: spans_of_def Let_def keep_scopes_empty)

lemma count_spans_length: "count_spans rss = length (spans_of rss)"
  by (induction rss) (simp_all add: count_spans_def spans_of_def scope_spans_def length_concat o_def)

definition sampled :: "rat \<Rightarrow> Span \<Rightarrow> bool" where
  "sampled rate sp \<longleftrightarrow> 1 \<le> rate \<or> 0 < rate \<and> shouldSample (sp_TraceId sp) (sample_threshold rate)"

definition passed_spans :: "TracePayload processed \<Rightarrow> Span list" where
  "passed_spans r = (case r of Inr (Some tp) \<Rightarrow> (case tp_Data tp of Some rss \<Rightarrow> spans_of rss | None \<Rightarrow> []) | _ \<Rightarrow> [])"

lemma Sampler_spans:
  assumes "tp_Data tp = Some rss"
  shows "passed_spans (Sampler_ProcessTraces p (Some tp)) = filter (sampled (sm_rate p)) (spans_of rss)"
proof -
  let ?t = "sample_threshold (sm_rate p)"
  consider "1 \<le> sm_rate p" | "sm_rate p \<le> 0" | "0 < sm_rate p" "sm_rate p < 1" by linarith
  then show ?thesis
  proof cases
    case 3
    have "keep_spans ?t (spans_of rss) = filter (sampled (sm_rate p)) (spans_of rss)"
      unfolding keep_spans_def using 3 by (intro filter_cong) (simp_all add: sampled_def)
    then show ?thesis
      using 3 assms spans_of_keep [of ?t rss] keep_resources_empty [of ?t rss]
      by (auto simp: Sampler_ProcessTraces_def Let_def passed_spans_def)
  qed (simp_all add: Sampler_ProcessTraces_def passed_spans_def sampled_def assms)
qed

lemma f64_power2: "f64 (2 ^ n) = 2 ^ n"
proof (rule f64_exact [of _ 1 "int n"])
  show "(2 :: rat) ^ n = of_int 1 * 2 powi int n" by (simp add: power_int_def)
  show "ulp_exponent (2 ^ n) \<le> int n"
    by (rule ulp_exponent_le) (simp_all add: power_int_def nat_add_distrib)
qed

lemma word_of_int_mono: "0 \<le> x \<Longrightarrow> x \<le> y \<Longrightarrow> y < 2 ^ 64 \<Longrightarrow> (word_of_int x :: 64 word) \<le> word_of_int y"
  by (simp add: word_le_def unsigned_of_int take_bit_eq_mod)

lemma sample_threshold_mono:
  assumes "0 \<le> a" and "a \<le> b" and "b < 1"
  shows "sample_threshold a \<le> sample_threshold b"
proof -
  let ?v = "\<lambda>r :: rat. \<lfloor>f64 (r * 2 ^ 63)\<rfloor>"
  have "f64 (a * 2 ^ 63) \<le> f64 (b * 2 ^ 63)" using assms by (intro f64_mono) simp
  then have le: "?v a \<le> ?v b" by (rule floor_mono)
  have "0 \<le> f64 (a * 2 ^ 63)" using assms(1) by (intro f64_nonneg) simp
  then have "0 \<le> ?v a" by simp
  have "f64 (b * 2 ^ 63) \<le> f64 (of_int (2 ^ 63))" using assms by (intro f64_mono) simp
  also have "\<dots> = 2 ^ 63" using f64_power2 [of 63] by simp
  finally have "?v b \<le> 2 ^ 63" by (simp add: floor_le_iff)
  moreover have "(2 :: int) ^ 63 < 2 ^ 64" by simp
  ultimately have "0 \<le> ?v b" "?v a < 2 ^ 64" "?v b < 2 ^ 64" using le \<open>0 \<le> ?v a\<close> by linarith+
  with le \<open>0 \<le> ?v a\<close> show ?thesis unfolding sample_threshold_def by (intro word_of_int_mono)
qed

lemma sampled_mono: "a \<le> b \<Longrightarrow> sampled a sp \<Longrightarrow> sampled b sp"
proof -
  assume le: "a \<le> b" and "sampled a sp"
  then consider "1 \<le> b" | "0 < a" "b < 1" "shouldSample (sp_TraceId sp) (sample_threshold a)"
    by (fastforce simp: sampled_def)
  then show ?thesis
  proof cases
    case 2
    then have "sample_threshold a \<le> sample_threshold b" using le by (intro sample_threshold_mono) simp_all
    with 2 le show ?thesis by (auto simp: sampled_def shouldSample_def split: if_splits)
  qed (simp add: sampled_def)
qed

lemma subseq_filter_mono: "(\<And>x. P x \<Longrightarrow> Q x) \<Longrightarrow> subseq (filter P xs) (filter Q xs)"
  by (induction xs) auto

text \<open>
  Property C27. Sampling is per trace and nested: the sampler passes on exactly the spans
  whose trace is sampled at its rate, in their order, and sets the span count to their
  number; spans of one trace share their fate in every payload; and whatever is kept at
  one rate is kept at every higher rate.
\<close>

theorem sampler_consistent:
  assumes "tp_Data tp = Some rss"
  shows "passed_spans (Sampler_ProcessTraces (Sampler_New rate) (Some tp)) = filter (sampled (clamp_rate rate)) (spans_of rss) \<and>
    (\<forall>tp'. Sampler_ProcessTraces (Sampler_New rate) (Some tp) = Inr (Some tp') \<longrightarrow> rate < 1 \<longrightarrow>
       tp_SpanCount tp' = int (length (passed_spans (Inr (Some tp')))) \<and> 0 < tp_SpanCount tp') \<and>
    (\<forall>a b. sp_TraceId a = sp_TraceId b \<longrightarrow> sampled (clamp_rate rate) a = sampled (clamp_rate rate) b) \<and>
    (\<forall>rate'. rate \<le> rate' \<longrightarrow>
       subseq (passed_spans (Sampler_ProcessTraces (Sampler_New rate) (Some tp)))
              (passed_spans (Sampler_ProcessTraces (Sampler_New rate') (Some tp))))"
proof -
  note spans = Sampler_spans [OF assms, of "Sampler_New r" for r]
  have clamp: "clamp_rate rate \<le> clamp_rate rate'" if "rate \<le> rate'" for rate'
    using that by (simp add: clamp_rate_def Let_def)
  have "tp_SpanCount tp' = int (length (passed_spans (Inr (Some tp')))) \<and> 0 < tp_SpanCount tp'"
    if "Sampler_ProcessTraces (Sampler_New rate) (Some tp) = Inr (Some tp')" "rate < 1" for tp'
    using that assms keep_resources_empty
    by (auto simp: Sampler_ProcessTraces_def Sampler_New_def Let_def passed_spans_def count_spans_length clamp_rate_def
        split: if_splits)
  moreover have "subseq (filter (sampled (clamp_rate rate)) xs) (filter (sampled (clamp_rate rate')) xs)"
    if "rate \<le> rate'" for rate' xs
    using sampled_mono [OF clamp [OF that]] by (rule subseq_filter_mono)
  ultimately show ?thesis unfolding spans by (auto simp: Sampler_New_def sampled_def)
qed

definition demo_span :: "8 word \<Rightarrow> Span" where
  "demo_span b = \<lparr>sp_TraceId = [b], sp_Rest = []\<rparr>"

definition demo_trace :: TracePayload where
  "demo_trace = \<lparr>tp_Data = Some [\<lparr>rs_Resource = None, rs_ScopeSpans = [\<lparr>ss_Spans = [demo_span 1, demo_span 2, demo_span 1], ss_Rest = []\<rparr>]\<rparr>],
     tp_ReceivedAt = 0, tp_SpanCount = 3\<rparr>"

theorem sampler_consistent_witness:
  "passed_spans (Sampler_ProcessTraces (Sampler_New 1) (Some demo_trace)) = [demo_span 1, demo_span 2, demo_span 1] \<and>
   subseq (passed_spans (Sampler_ProcessTraces (Sampler_New (1 / 2)) (Some demo_trace)))
     (passed_spans (Sampler_ProcessTraces (Sampler_New 1) (Some demo_trace)))"
proof -
  have d: "tp_Data demo_trace = Some [\<lparr>rs_Resource = None, rs_ScopeSpans = [\<lparr>ss_Spans = [demo_span 1, demo_span 2, demo_span 1], ss_Rest = []\<rparr>]\<rparr>]"
    by (simp add: demo_trace_def)
  show ?thesis
    using sampler_consistent [OF d, of 1] sampler_consistent [OF d, of "1 / 2"]
    by (simp add: spans_of_def scope_spans_def sampled_def clamp_rate_def)
qed

text \<open>
  The memory limiter follows its watermarks: with watermarks that fit into 64 bits as bytes,
  the level is critical from the critical watermark on, high from the high watermark on and
  normal below; a payload of either kind is rejected exactly at the critical level.
\<close>

lemma level_of_watermarks:
  assumes "unat (ml_HighWatermarkMB cfg) < 2 ^ 44" and "unat (ml_CriticalWatermarkMB cfg) < 2 ^ 44"
  shows "level_of cfg heap =
      (if unat heap \<ge> unat (ml_CriticalWatermarkMB cfg) * 2 ^ 20 then LevelCritical
       else if unat heap \<ge> unat (ml_HighWatermarkMB cfg) * 2 ^ 20 then LevelHigh else LevelNormal)"
proof -
  have bytes: "unat (w * 1024 * 1024) = unat w * 2 ^ 20" if "unat w < 2 ^ 44" for w :: "64 word"
  proof -
    have "w * 1024 * 1024 = word_of_nat (unat w * 2 ^ 20)" by simp
    then have "unat (w * 1024 * 1024) = (unat w * 2 ^ 20) mod 2 ^ 64" by (simp only: unat_of_nat) simp
    then show ?thesis using that by simp
  qed
  show ?thesis unfolding level_of_def Let_def word_le_nat_alt bytes [OF assms(1)] bytes [OF assms(2)] by simp
qed

lemma Memlimit_rejects:
  "isl (fst (Memlimit_ProcessTraces p tp om)) \<longleftrightarrow> mm_level p = LevelCritical"
  "isl (fst (Memlimit_ProcessMetrics p mp om)) \<longleftrightarrow> mm_level p = LevelCritical"
  by (simp_all add: Memlimit_ProcessTraces_def Memlimit_ProcessMetrics_def)

lemma Memlimit_passes:
  "mm_level p \<noteq> LevelCritical \<Longrightarrow> Memlimit_ProcessTraces p tp om = (Inr (Some tp), om)"
  "mm_level p \<noteq> LevelCritical \<Longrightarrow> Memlimit_ProcessMetrics p mp om = (Inr (Some mp), om)"
  by (simp_all add: Memlimit_ProcessTraces_def Memlimit_ProcessMetrics_def)

lemma monitor_tick_simps:
  "mm_level (fst (monitor_tick heap p c)) = level_of (mm_cfg p) heap"
  "mm_cfg (fst (monitor_tick heap p c)) = mm_cfg p"
  "mm_onLevelChange (fst (monitor_tick heap p c)) = mm_onLevelChange p"
  by (cases c; simp add: monitor_tick_def Let_def)+

definition demo_metrics_payload :: MetricPayload where
  "demo_metrics_payload = \<lparr>mp_Data = None, mp_ReceivedAt = 0, mp_DataPointCount = 4\<rparr>"

end
