(* ===== verification/Exporters.thy ===== *)
theory Exporters
  imports Otel_Model
begin

text \<open>
  The exporters of the telemetry gateway: the OTLP exporter
  (\<^verbatim>\<open>internal/otelgateway/exporter/otlp\<close>), retries with exponential backoff
  (\<^verbatim>\<open>internal/otelgateway/retry\<close>) and the fan-out to several backends
  (\<^verbatim>\<open>internal/otelgateway/exporter/fanout\<close>). Trace and metric exporters have the same code,
  so an exporter is modelled over any payload type. The gRPC client is an argument that
  acts on the state of its backend; the time slept and the random numbers drawn are part
  of the world. Latency histograms are left out. The locale \<open>delivering\<close> is what an
  exporter promises: no payload other than the given one reaches the backend, at most a
  bounded number of times, and at least once when the export succeeds.
\<close>

record 's export_world =
  ew_metrics :: OtelMetrics
  ew_slept :: "duration list"
  ew_rand :: "nat \<Rightarrow> rat"
  ew_drawn :: nat
  ew_backend :: 's

type_synonym ('p, 's) exporter = "'p \<Rightarrow> 's export_world \<Rightarrow> error option \<times> 's export_world"

section \<open>OTLP\<close>

definition count_attempt :: "string \<Rightarrow> 's export_world \<Rightarrow> 's export_world" where
  "count_attempt l w = w\<lparr>ew_metrics := (ew_metrics w)\<lparr>om_ExportAttemptTotal := label_inc l (om_ExportAttemptTotal (ew_metrics w))\<rparr>\<rparr>"

definition count_success :: "string \<Rightarrow> 's export_world \<Rightarrow> 's export_world" where
  "count_success l w = w\<lparr>ew_metrics := (ew_metrics w)\<lparr>om_ExportSuccessTotal := label_inc l (om_ExportSuccessTotal (ew_metrics w))\<rparr>\<rparr>"

definition count_failure :: "string \<Rightarrow> 's export_world \<Rightarrow> 's export_world" where
  "count_failure l w = w\<lparr>ew_metrics := (ew_metrics w)\<lparr>om_ExportFailureTotal := label_inc l (om_ExportFailureTotal (ew_metrics w))\<rparr>\<rparr>"

definition count_retry :: "string \<Rightarrow> 's export_world \<Rightarrow> 's export_world" where
  "count_retry l w = w\<lparr>ew_metrics := (ew_metrics w)\<lparr>om_ExportRetryTotal := label_inc l (om_ExportRetryTotal (ew_metrics w))\<rparr>\<rparr>"

record Otlp_Exporter =
  oe_label :: string
  oe_cfg :: TempoExporterConfig

text \<open>\<open>dial\<close> is the result of making the gRPC client.\<close>

definition NewWithLabel :: "error option \<Rightarrow> TempoExporterConfig \<Rightarrow> string \<Rightarrow> error + Otlp_Exporter" where
  "NewWithLabel dial cfg l =
     (case dial of
        Some err \<Rightarrow> Inl (wrapf (''otlp exporter dial '' @ tc_Endpoint cfg) err)
      | None \<Rightarrow> Inr \<lparr>oe_label = l, oe_cfg = cfg\<rparr>)"

definition Otlp_New :: "error option \<Rightarrow> TempoExporterConfig \<Rightarrow> error + Otlp_Exporter" where
  "Otlp_New dial cfg = NewWithLabel dial cfg ''tempo''"

definition Otlp_ExportTraces :: "('p \<Rightarrow> 's \<Rightarrow> error option \<times> 's) \<Rightarrow> Otlp_Exporter \<Rightarrow> ('p, 's) exporter" where
  "Otlp_ExportTraces client e payload w =
     (let w1 = count_attempt (oe_label e) w
      in case client payload (ew_backend w1) of
           (Some err, b) \<Rightarrow>
             (Some (wrapf (''otlp/'' @ oe_label e @ '' export'') err), count_failure (oe_label e) (w1\<lparr>ew_backend := b\<rparr>))
         | (None, b) \<Rightarrow> (None, count_success (oe_label e) (w1\<lparr>ew_backend := b\<rparr>)))"

text \<open>\<open>conn\<close> closes the connection, if there is one.\<close>

definition Otlp_Shutdown ::
  "('s \<Rightarrow> error option \<times> 's) option \<Rightarrow> 's export_world \<Rightarrow> error option \<times> 's export_world" where
  "Otlp_Shutdown conn w =
     (case conn of
        None \<Rightarrow> (None, w)
      | Some close \<Rightarrow> (case close (ew_backend w) of (err, b) \<Rightarrow> (err, w\<lparr>ew_backend := b\<rparr>)))"

section \<open>Retry\<close>

record Retry_Config =
  ry_MaxAttempts :: int
  ry_InitialDelay :: duration
  ry_MaxDelay :: duration
  ry_JitterFraction :: go_float

definition Retry_DefaultConfig :: Retry_Config where
  "Retry_DefaultConfig = \<lparr>ry_MaxAttempts = 5, ry_InitialDelay = 100 * Millisecond, ry_MaxDelay = 10 * Second,
     ry_JitterFraction = Fin (f64 (1 / 5))\<rparr>"

definition backoff :: "Retry_Config \<Rightarrow> nat \<Rightarrow> rat \<Rightarrow> duration" where
  "backoff cfg attempt rnd =
     (let delay0 = fl_mul (fl_of_int (ry_InitialDelay cfg)) (math_Pow2 attempt);
          delay1 = (if fl_less (fl_of_int (ry_MaxDelay cfg)) delay0 then fl_of_int (ry_MaxDelay cfg) else delay0);
          jitter = fl_mul (fl_mul delay1 (ry_JitterFraction cfg)) (fl_add (to_float (rnd * 2)) (Fin (- 1)));
          delay2 = fl_add delay1 jitter;
          delay3 = (if fl_less delay2 (Fin 0) then fl_of_int (ry_InitialDelay cfg) else delay2)
      in int64_of delay3)"

definition rand_Float64 :: "'s export_world \<Rightarrow> rat \<times> 's export_world" where
  "rand_Float64 w = (ew_rand w (ew_drawn w), w\<lparr>ew_drawn := ew_drawn w + 1\<rparr>)"

definition Sleep :: "duration \<Rightarrow> 's export_world \<Rightarrow> 's export_world" where
  "Sleep d w = w\<lparr>ew_slept := ew_slept w @ [d]\<rparr>"

definition exhausted :: "string \<Rightarrow> Retry_Config \<Rightarrow> error option \<Rightarrow> error" where
  "exhausted pre cfg lastErr =
     (let msg = pre @ '': exhausted '' @ itoa (ry_MaxAttempts cfg) @ '' attempts, last error''
      in case lastErr of None \<Rightarrow> ErrorString (msg @ '': %!w(<nil>)'') | Some err \<Rightarrow> wrapf msg err)"

text \<open>The loop with \<open>n\<close> attempts left.\<close>

fun retry_loop ::
  "string \<Rightarrow> Retry_Config \<Rightarrow> ('p, 's) exporter \<Rightarrow> 'p \<Rightarrow> error option \<Rightarrow> nat \<Rightarrow> nat \<Rightarrow> 's export_world \<Rightarrow> error option \<times> 's export_world" where
  "retry_loop name cfg inner payload lastErr attempt 0 w = (Some (exhausted (''retry/'' @ name) cfg lastErr), w)"
| "retry_loop name cfg inner payload lastErr attempt (Suc n) w =
     (case inner payload (count_attempt name w) of
        (None, w1) \<Rightarrow> (None, w1)
      | (Some err, w1) \<Rightarrow>
          (let (rnd, w2) = rand_Float64 (count_retry name w1)
           in retry_loop name cfg inner payload (Some err) (Suc attempt) n (Sleep (backoff cfg attempt rnd) w2)))"

definition Retry_Export :: "string \<Rightarrow> Retry_Config \<Rightarrow> ('p, 's) exporter \<Rightarrow> ('p, 's) exporter" where
  "Retry_Export name cfg inner payload w = retry_loop name cfg inner payload None 0 (nat (ry_MaxAttempts cfg)) w"

text \<open>
  The helper with a context: \<open>cancelled i\<close> is the context's error before attempt \<open>i\<close> and
  \<open>interrupted i\<close> the one that ends the wait after it.
\<close>

fun context_loop ::
  "Retry_Config \<Rightarrow> (nat \<Rightarrow> error option) \<Rightarrow> (nat \<Rightarrow> error option) \<Rightarrow> ('s export_world \<Rightarrow> error option \<times> 's export_world) \<Rightarrow>
   error option \<Rightarrow> nat \<Rightarrow> nat \<Rightarrow> 's export_world \<Rightarrow> error option \<times> 's export_world" where
  "context_loop cfg cancelled interrupted fn lastErr attempt 0 w = (Some (exhausted ''retry'' cfg lastErr), w)"
| "context_loop cfg cancelled interrupted fn lastErr attempt (Suc n) w =
     (case cancelled attempt of
        Some err \<Rightarrow> (Some (wrapf ''retry: context cancelled'' err), w)
      | None \<Rightarrow>
          (case fn w of
             (None, w1) \<Rightarrow> (None, w1)
           | (Some err, w1) \<Rightarrow>
               (let (rnd, w2) = rand_Float64 w1
                in case interrupted attempt of
                     Some cerr \<Rightarrow> (Some (wrapf ''retry: context cancelled during backoff'' cerr), w2)
                   | None \<Rightarrow>
                       context_loop cfg cancelled interrupted fn (Some err) (Suc attempt) n
                         (Sleep (backoff cfg attempt rnd) w2))))"

definition WithContext ::
  "(nat \<Rightarrow> error option) \<Rightarrow> (nat \<Rightarrow> error option) \<Rightarrow> ('s export_world \<Rightarrow> error option \<times> 's export_world) \<Rightarrow> Retry_Config \<Rightarrow>
   's export_world \<Rightarrow> error option \<times> 's export_world" where
  "WithContext cancelled interrupted fn cfg w =
     context_loop cfg cancelled interrupted fn None 0 (nat (ry_MaxAttempts cfg)) w"

section \<open>Fan-out\<close>

text \<open>The exporters in the order in which the map of the constructor was ranged over.\<close>

definition errors_Join :: "error list \<Rightarrow> error option" where
  "errors_Join errs = (if errs = [] then None else Some (ErrorString (Join [char_of (10 :: nat)] (map Error errs))))"

fun fanout_loop :: "(string \<times> ('p, 's) exporter) list \<Rightarrow> 'p \<Rightarrow> 's export_world \<Rightarrow> error list \<times> 's export_world" where
  "fanout_loop [] payload w = ([], w)"
| "fanout_loop ((name, expo) # rest) payload w =
     (case expo payload w of
        (err, w1) \<Rightarrow>
          (case fanout_loop rest payload w1 of
             (errs, w2) \<Rightarrow> (case err of None \<Rightarrow> (errs, w2) | Some e \<Rightarrow> (wrapf name e # errs, w2))))"

definition Fanout_Export :: "(string \<times> ('p, 's) exporter) list \<Rightarrow> ('p, 's) exporter" where
  "Fanout_Export exporters payload w =
     (case fanout_loop exporters payload w of (errs, w') \<Rightarrow> (errors_Join errs, w'))"

text \<open>Shutting down runs every exporter's own shutdown, whatever the others return.\<close>

fun shutdown_loop :: "(string \<times> ('s \<Rightarrow> error option \<times> 's)) list \<Rightarrow> 's \<Rightarrow> error list \<times> 's" where
  "shutdown_loop [] s = ([], s)"
| "shutdown_loop ((name, stop) # rest) s =
     (case stop s of
        (err, s1) \<Rightarrow>
          (case shutdown_loop rest s1 of
             (errs, s2) \<Rightarrow> (case err of None \<Rightarrow> (errs, s2) | Some e \<Rightarrow> (wrapf name e # errs, s2))))"

definition Fanout_Shutdown :: "(string \<times> ('s \<Rightarrow> error option \<times> 's)) list \<Rightarrow> 's \<Rightarrow> error option \<times> 's" where
  "Fanout_Shutdown stops s = (case shutdown_loop stops s of (errs, s') \<Rightarrow> (errors_Join errs, s'))"

section \<open>Trace and metric exporters\<close>

text \<open>
  The wrappers the packages export, one type per signal: the wrapped exporter is its
  export function and its shutdown.
\<close>

record ('p, 's) Inner =
  in_export :: "('p, 's) exporter"
  in_shutdown :: "'s export_world \<Rightarrow> error option \<times> 's export_world"

record ('p, 's) Retry_Exporter =
  re_inner :: "('p, 's) Inner"
  re_cfg :: Retry_Config
  re_name :: string

definition Retry_NewTraceExporter :: "(TracePayload, 's) Inner \<Rightarrow> string \<Rightarrow> Retry_Config \<Rightarrow> (TracePayload, 's) Retry_Exporter" where
  "Retry_NewTraceExporter inner name cfg = \<lparr>re_inner = inner, re_cfg = cfg, re_name = name\<rparr>"

definition Retry_ExportTraces :: "(TracePayload, 's) Retry_Exporter \<Rightarrow> (TracePayload, 's) exporter" where
  "Retry_ExportTraces r payload w = Retry_Export (re_name r) (re_cfg r) (in_export (re_inner r)) payload w"

definition Retry_TraceShutdown :: "(TracePayload, 's) Retry_Exporter \<Rightarrow> 's export_world \<Rightarrow> error option \<times> 's export_world" where
  "Retry_TraceShutdown r w = in_shutdown (re_inner r) w"

definition Retry_NewMetricExporter :: "(MetricPayload, 's) Inner \<Rightarrow> string \<Rightarrow> Retry_Config \<Rightarrow> (MetricPayload, 's) Retry_Exporter" where
  "Retry_NewMetricExporter inner name cfg = \<lparr>re_inner = inner, re_cfg = cfg, re_name = name\<rparr>"

definition Retry_ExportMetrics :: "(MetricPayload, 's) Retry_Exporter \<Rightarrow> (MetricPayload, 's) exporter" where
  "Retry_ExportMetrics r payload w = Retry_Export (re_name r) (re_cfg r) (in_export (re_inner r)) payload w"

definition Retry_MetricShutdown :: "(MetricPayload, 's) Retry_Exporter \<Rightarrow> 's export_world \<Rightarrow> error option \<times> 's export_world" where
  "Retry_MetricShutdown r w = in_shutdown (re_inner r) w"

text \<open>\<open>order\<close> is the order in which the constructor ranges over its map of exporters.\<close>

type_synonym ('p, 's) Fanout = "(string \<times> ('p, 's) Inner) list"

definition fanout_of :: "string list \<Rightarrow> (string \<times> ('p, 's) Inner) list \<Rightarrow> ('p, 's) Fanout" where
  "fanout_of order exporters = concat (map (\<lambda>name. case map_of exporters name of None \<Rightarrow> [] | Some e \<Rightarrow> [(name, e)]) order)"

definition Fanout_NewTraceExporter :: "string list \<Rightarrow> (string \<times> (TracePayload, 's) Inner) list \<Rightarrow> (TracePayload, 's) Fanout" where
  "Fanout_NewTraceExporter order exporters = fanout_of order exporters"

definition Fanout_ExportTraces :: "(TracePayload, 's) Fanout \<Rightarrow> (TracePayload, 's) exporter" where
  "Fanout_ExportTraces f payload w = Fanout_Export (map (\<lambda>(name, e). (name, in_export e)) f) payload w"

definition Fanout_TraceShutdown :: "(TracePayload, 's) Fanout \<Rightarrow> 's export_world \<Rightarrow> error option \<times> 's export_world" where
  "Fanout_TraceShutdown f w = Fanout_Shutdown (map (\<lambda>(name, e). (name, in_shutdown e)) f) w"

definition Fanout_NewMetricExporter :: "string list \<Rightarrow> (string \<times> (MetricPayload, 's) Inner) list \<Rightarrow> (MetricPayload, 's) Fanout" where
  "Fanout_NewMetricExporter order exporters = fanout_of order exporters"

definition Fanout_ExportMetrics :: "(MetricPayload, 's) Fanout \<Rightarrow> (MetricPayload, 's) exporter" where
  "Fanout_ExportMetrics f payload w = Fanout_Export (map (\<lambda>(name, e). (name, in_export e)) f) payload w"

definition Fanout_MetricShutdown :: "(MetricPayload, 's) Fanout \<Rightarrow> 's export_world \<Rightarrow> error option \<times> 's export_world" where
  "Fanout_MetricShutdown f w = Fanout_Shutdown (map (\<lambda>(name, e). (name, in_shutdown e)) f) w"

text \<open>
  A fan-out of exporters shuts all of them down, whatever some of them return, and its error
  is exactly that one of them failed. Behind a retry an OTLP exporter closes its connection.
\<close>

lemma shutdown_reaches_all:
  "snd (Fanout_Shutdown stops s) = fold (\<lambda>(name, stop) v. snd (stop v)) stops s"
  "fst (Fanout_Shutdown stops s) = None \<longleftrightarrow>
     (\<forall>i < length stops. fst (snd (stops ! i) (fold (\<lambda>(name, stop) v. snd (stop v)) (take i stops) s)) = None)"
proof -
  let ?step = "\<lambda>(name :: string, stop) v. snd (stop v)"
  have *: "snd (shutdown_loop stops s) = fold ?step stops s \<and>
    (fst (shutdown_loop stops s) = [] \<longleftrightarrow>
      (\<forall>i < length stops. fst (snd (stops ! i) (fold ?step (take i stops) s)) = None))"
  proof (induction stops arbitrary: s)
    case (Cons ns rest)
    obtain name stop where ns: "ns = (name, stop)" by fastforce
    obtain err s1 where e: "stop s = (err, s1)" by fastforce
    with Cons [of s1] ns show ?case
      by (cases err) (auto simp: All_less_Suc2 split_beta)
  qed simp
  then show "snd (Fanout_Shutdown stops s) = fold ?step stops s" by (simp add: Fanout_Shutdown_def split_beta)
  from * show "fst (Fanout_Shutdown stops s) = None \<longleftrightarrow>
     (\<forall>i < length stops. fst (snd (stops ! i) (fold ?step (take i stops) s)) = None)"
    by (simp add: Fanout_Shutdown_def errors_Join_def split_beta)
qed

lemma retried_otlp_closes:
  "in_shutdown inner = Otlp_Shutdown (Some close) \<Longrightarrow>
   Retry_TraceShutdown (Retry_NewTraceExporter inner name cfg) w =
     (fst (close (ew_backend w)), w\<lparr>ew_backend := snd (close (ew_backend w))\<rparr>)"
  by (simp add: Retry_TraceShutdown_def Retry_NewTraceExporter_def Otlp_Shutdown_def split_beta)

section \<open>The delivery contract\<close>

text \<open>
  \<open>got\<close> is what the backend has received. A failed call may have reached it all the same,
  as when the answer is lost.
\<close>

locale delivering =
  fixes got :: "'s \<Rightarrow> 'p list" and export :: "('p, 's) exporter" and most :: nat
  assumes export_delivers: "export p w = (err, w') \<Longrightarrow>
    \<exists>k. got (ew_backend w') = got (ew_backend w) @ replicate k p \<and> k \<le> most \<and> (err = None \<longrightarrow> 1 \<le> k)"
begin

lemma retry_loop_delivers:
  "retry_loop name cfg export p lastErr attempt n w = (err, w') \<Longrightarrow>
   \<exists>k. got (ew_backend w') = got (ew_backend w) @ replicate k p \<and> k \<le> n * most \<and> (err = None \<longrightarrow> 1 \<le> k)"
proof (induction n arbitrary: lastErr attempt w)
  case (Suc n)
  obtain e w1 where e: "export p (count_attempt name w) = (e, w1)" by fastforce
  obtain j where j: "got (ew_backend w1) = got (ew_backend w) @ replicate j p" "j \<le> most" "e = None \<longrightarrow> 1 \<le> j"
    using export_delivers [OF e] by (auto simp: count_attempt_def)
  show ?case
  proof (cases e)
    case None
    with Suc.prems e j show ?thesis by (intro exI [of _ j]) auto
  next
    case (Some x)
    let ?w2 = "snd (rand_Float64 (count_retry name w1))"
    have b: "ew_backend (Sleep d ?w2) = ew_backend w1" for d
      by (simp add: Sleep_def rand_Float64_def count_retry_def)
    obtain d where "retry_loop name cfg export p (Some x) (Suc attempt) n (Sleep d ?w2) = (err, w')"
      using Suc.prems e Some by (auto simp: Let_def split: prod.splits)
    from Suc.IH [OF this] b obtain k where "got (ew_backend w') = got (ew_backend w1) @ replicate k p" "k \<le> n * most"
      "err = None \<longrightarrow> 1 \<le> k" by auto
    with j show ?thesis by (intro exI [of _ "j + k"]) (auto simp: replicate_add)
  qed
qed auto

text \<open>Retrying keeps the promise, with as many deliveries as attempts times the promise.\<close>

lemma retry_delivering: "delivering got (Retry_Export name cfg export) (nat (ry_MaxAttempts cfg) * most)"
  by unfold_locales (auto simp: Retry_Export_def dest: retry_loop_delivers)

end

definition client_ok :: "('s \<Rightarrow> 'p list) \<Rightarrow> ('p \<Rightarrow> 's \<Rightarrow> error option \<times> 's) \<Rightarrow> bool" where
  "client_ok got client \<longleftrightarrow> (\<forall>p s err s'. client p s = (err, s') \<longrightarrow>
     got s' = got s @ [p] \<or> err \<noteq> None \<and> got s' = got s)"

lemma otlp_delivering:
  fixes got :: "'s \<Rightarrow> 'p list"
  assumes "client_ok got client"
  shows "delivering got (Otlp_ExportTraces client e) 1"
proof unfold_locales
  fix p err and w w' :: "'s export_world"
  assume exp: "Otlp_ExportTraces client e p w = (err, w')"
  obtain r b where r: "client p (ew_backend w) = (r, b)" by fastforce
  then have "got b = got (ew_backend w) @ [p] \<or> r \<noteq> None \<and> got b = got (ew_backend w)"
    using assms unfolding client_ok_def by blast
  moreover have "ew_backend w' = b \<and> (err = None \<longleftrightarrow> r = None)"
    using exp r by (auto simp: Otlp_ExportTraces_def Let_def count_attempt_def count_failure_def count_success_def
        split: option.splits)
  ultimately show "\<exists>k. got (ew_backend w') = got (ew_backend w) @ replicate k p \<and> k \<le> 1 \<and> (err = None \<longrightarrow> 1 \<le> k)"
    by (cases "got b = got (ew_backend w)") (auto intro: exI [of _ 0] exI [of _ 1])
qed

text \<open>A backend that answers as scripted: each answer says whether it takes the payload and whether it reports success.\<close>

record 'p scripted =
  sb_script :: "(bool \<times> bool) list"
  sb_got :: "'p list"

definition scripted_client :: "'p \<Rightarrow> 'p scripted \<Rightarrow> error option \<times> 'p scripted" where
  "scripted_client p s =
     (case sb_script s of
        [] \<Rightarrow> (None, s\<lparr>sb_got := sb_got s @ [p]\<rparr>)
      | (takes, ok) # rest \<Rightarrow>
          (if ok then None else Some (ErrorString ''unavailable''),
           s\<lparr>sb_script := rest, sb_got := (if takes \<or> ok then sb_got s @ [p] else sb_got s)\<rparr>))"

lemma scripted_client_ok: "client_ok sb_got scripted_client"
  by (auto simp: client_ok_def scripted_client_def split: list.splits if_splits)

interpretation tempo: delivering sb_got "Otlp_ExportTraces scripted_client e" 1 for e
  by (rule otlp_delivering [OF scripted_client_ok])

interpretation retried_tempo: delivering sb_got "Retry_Export name cfg (Otlp_ExportTraces scripted_client e)"
  "nat (ry_MaxAttempts cfg) * 1" for name cfg e
  by (rule tempo.retry_delivering)

section \<open>Attempts and delays\<close>

lemma f64_jitter_bounds:
  assumes "0 \<le> d" and "0 \<le> j" and "j \<le> 1" and "0 \<le> rnd" and "rnd < 1"
  shows "\<bar>f64 (f64 (d * j) * f64 (f64 (rnd * 2) - 1))\<bar> \<le> f64 (d * j)"
proof -
  let ?u = "f64 (f64 (rnd * 2) - 1)"
  have r: "0 \<le> f64 (rnd * 2)" using assms(4) by (intro f64_nonneg) simp
  have "f64 (rnd * 2) \<le> f64 2" using assms(5) by (intro f64_mono) simp
  then have r2: "f64 (rnd * 2) \<le> 2" using f64_of_int [of 2] by simp
  have one: "f64 1 = 1" "f64 (- 1) = - 1" using f64_of_int [of 1] f64_of_int [of "- 1"] by simp_all
  have u: "- 1 \<le> ?u" "?u \<le> 1"
    using f64_mono [of "- 1" "f64 (rnd * 2) - 1"] f64_mono [of "f64 (rnd * 2) - 1" 1] r r2 one by simp_all
  have x: "0 \<le> f64 (d * j)" using assms by (intro f64_nonneg) simp
  have "f64 (d * j) * ?u \<le> f64 (d * j)" using mult_left_mono [OF u(2) x] by simp
  moreover have "- f64 (d * j) \<le> f64 (d * j) * ?u" using mult_left_mono [OF u(1) x] by simp
  ultimately have "f64 (f64 (d * j) * ?u) \<le> f64 (f64 (d * j))" "f64 (- f64 (d * j)) \<le> f64 (f64 (d * j) * ?u)"
    by (intro f64_mono; simp)+
  then show ?thesis by (simp add: f64_minus f64_idem abs_le_iff)
qed

definition jitter_of :: "Retry_Config \<Rightarrow> rat" where
  "jitter_of cfg = (case ry_JitterFraction cfg of Fin j \<Rightarrow> j | _ \<Rightarrow> 0)"

definition max_wait :: "Retry_Config \<Rightarrow> rat" where
  "max_wait cfg = f64 (f64 (of_int (ry_MaxDelay cfg)) + f64 (f64 (of_int (ry_MaxDelay cfg)) * jitter_of cfg))"

text \<open>
  The configurations whose waits are bounded: no negative delay, a jitter between zero and one,
  a longest wait that is a \<^verbatim>\<open>time.Duration\<close>, and no attempt at which the delay is zero times
  infinity.
\<close>

definition delays_ok :: "Retry_Config \<Rightarrow> bool" where
  "delays_ok cfg \<longleftrightarrow>
     0 \<le> ry_InitialDelay cfg \<and> 0 \<le> ry_MaxDelay cfg \<and>
     ry_JitterFraction cfg = Fin (jitter_of cfg) \<and> 0 \<le> jitter_of cfg \<and> jitter_of cfg \<le> 1 \<and>
     max_wait cfg < 2 ^ 63 \<and> (0 < ry_InitialDelay cfg \<or> ry_MaxAttempts cfg \<le> 1024)"

text \<open>The delay before the jitter is a number between zero and the maximal delay.\<close>

lemma backoff_delay:
  assumes "0 \<le> ry_InitialDelay cfg" and "0 \<le> ry_MaxDelay cfg" and "0 < ry_InitialDelay cfg \<or> attempt < 1024"
  obtains d where "is_f64 d" and "0 \<le> d" and "d \<le> f64 (of_int (ry_MaxDelay cfg))"
    and "(let delay0 = fl_mul (fl_of_int (ry_InitialDelay cfg)) (math_Pow2 attempt)
          in if fl_less (fl_of_int (ry_MaxDelay cfg)) delay0 then fl_of_int (ry_MaxDelay cfg) else delay0) = Fin d"
proof -
  let ?i = "f64 (of_int (ry_InitialDelay cfg))" and ?mx = "f64 (of_int (ry_MaxDelay cfg))"
  have i: "0 \<le> ?i" and mx: "0 \<le> ?mx" using assms(1,2) by (simp_all add: f64_nonneg)
  consider "fl_mul (Fin ?i) (math_Pow2 attempt) = PInf"
    | "fl_mul (Fin ?i) (math_Pow2 attempt) = Fin (f64 (?i * 2 ^ attempt))"
  proof (cases "attempt < 1024")
    case True
    have "0 \<le> ?i * 2 ^ attempt" using i by simp
    then show thesis using True that by (auto simp: fl_mul_def math_Pow2_def elim: to_float_nonneg)
  next
    case False
    with assms(3) have "1 \<le> ry_InitialDelay cfg" by simp
    then have "f64 1 \<le> ?i" by (intro f64_mono) simp
    then have "0 < ?i" using f64_of_int [of 1] by simp
    with False show thesis by (intro that(1)) (simp add: fl_mul_def math_Pow2_def)
  qed
  then show thesis
  proof cases
    case 1
    with mx show thesis by (intro that [of ?mx]) (simp_all add: fl_of_int_def)
  next
    case 2
    have "0 \<le> f64 (?i * 2 ^ attempt)" using i by (simp add: f64_nonneg)
    with 2 mx show thesis
      by (intro that [of "min ?mx (f64 (?i * 2 ^ attempt))"]) (auto simp: fl_of_int_def min_def)
  qed
qed

text \<open>Between zero and \<open>d\<close> nothing overflows, so the jitter is computed on finite numbers.\<close>

lemma backoff_jitter:
  assumes "0 \<le> d" and "d < 2 ^ 63" and "0 \<le> j" and "j \<le> 1" and "0 \<le> rnd" and "rnd < 1" and "is_f64 d"
  shows "fl_mul (fl_mul (Fin d) (Fin j)) (fl_add (to_float (rnd * 2)) (Fin (- 1))) =
    Fin (f64 (f64 (d * j) * f64 (f64 (rnd * 2) - 1)))"
proof -
  have r2: "0 \<le> f64 (rnd * 2)" "f64 (rnd * 2) \<le> 2"
    using assms(5,6) f64_mono [of "rnd * 2" 2] f64_of_int [of 2] by (simp_all add: f64_nonneg)
  have "f64 (- 1) \<le> f64 (f64 (rnd * 2) - 1)" "f64 (f64 (rnd * 2) - 1) \<le> f64 1"
    using r2 by (intro f64_mono; simp)+
  then have u: "\<bar>f64 (f64 (rnd * 2) - 1)\<bar> \<le> 1"
    using f64_of_int [of 1] f64_of_int [of "- 1"] by (simp add: abs_le_iff)
  have dj: "0 \<le> f64 (d * j)" "f64 (d * j) \<le> d"
    using assms f64_mono [of "d * j" d] by (simp_all add: f64_nonneg mult_left_le is_f64_def)
  have jit: "\<bar>f64 (f64 (d * j) * f64 (f64 (rnd * 2) - 1))\<bar> \<le> f64 (d * j)"
    using assms(1,3-6) by (rule f64_jitter_bounds)
  have big: "(2 :: rat) ^ 63 < 2 ^ 1024" "(2 :: rat) < 2 ^ 1024" "(1 :: rat) < 2 ^ 1024" by simp_all
  have "to_float (rnd * 2) = Fin (f64 (rnd * 2))" using r2 big(2) by (intro to_float_Fin) linarith
  moreover have "to_float (f64 (rnd * 2) - 1) = Fin (f64 (f64 (rnd * 2) - 1))"
    using u big(3) by (intro to_float_Fin) linarith
  moreover have "to_float (d * j) = Fin (f64 (d * j))" using dj assms(2) big(1) by (intro to_float_Fin) linarith
  moreover have "to_float (f64 (d * j) * f64 (f64 (rnd * 2) - 1)) = Fin (f64 (f64 (d * j) * f64 (f64 (rnd * 2) - 1)))"
    using jit dj(2) assms(2) big(1) by (intro to_float_Fin) linarith
  ultimately show ?thesis by (simp add: fl_mul_def)
qed

lemma backoff_bounds:
  assumes "delays_ok cfg" and "0 < ry_InitialDelay cfg \<or> attempt < 1024" and "0 \<le> rnd" and "rnd < 1"
  shows "0 \<le> backoff cfg attempt rnd" and "of_int (backoff cfg attempt rnd) \<le> max_wait cfg"
proof -
  define mx where "mx = f64 (of_int (ry_MaxDelay cfg))"
  define j where "j = jitter_of cfg"
  have c: "0 \<le> ry_InitialDelay cfg" "0 \<le> ry_MaxDelay cfg" "ry_JitterFraction cfg = Fin j" "0 \<le> j" "j \<le> 1"
      "max_wait cfg < 2 ^ 63"
    using assms(1) by (simp_all add: delays_ok_def j_def)
  obtain d where d: "is_f64 d" "0 \<le> d" "d \<le> mx"
    and eq: "(let delay0 = fl_mul (fl_of_int (ry_InitialDelay cfg)) (math_Pow2 attempt)
          in if fl_less (fl_of_int (ry_MaxDelay cfg)) delay0 then fl_of_int (ry_MaxDelay cfg) else delay0) = Fin d"
    unfolding mx_def using c(1,2) assms(2) by (rule backoff_delay)
  define jit where "jit = f64 (f64 (d * j) * f64 (f64 (rnd * 2) - 1))"
  have jit: "\<bar>jit\<bar> \<le> f64 (d * j)" unfolding jit_def using d(2) c(4,5) assms(3,4) by (rule f64_jitter_bounds)
  have "f64 (d * j) \<le> f64 d" using d(2) c(5) by (intro f64_mono) (simp add: mult_left_le)
  with jit d(1) have low: "0 \<le> d + jit" unfolding is_f64_def by linarith
  have mono: "f64 (d * j) \<le> f64 (mx * j)" using d c(4) by (intro f64_mono mult_right_mono) simp_all
  with jit d(3) have "d + jit \<le> mx + f64 (mx * j)" by linarith
  then have up: "f64 (d + jit) \<le> max_wait cfg" unfolding max_wait_def mx_def j_def by (rule f64_mono)
  have "0 \<le> f64 (d * j)" using d c by (simp add: f64_nonneg)
  with mono d(3) have "d \<le> mx + f64 (mx * j)" by linarith
  then have "f64 d \<le> max_wait cfg" unfolding max_wait_def mx_def j_def by (rule f64_mono)
  with d(1) c(6) have dlt: "d < 2 ^ 63" unfolding is_f64_def by linarith
  have nn: "0 \<le> f64 (d + jit)" using low by (rule f64_nonneg)
  have lt: "f64 (d + jit) < 2 ^ 63" using up c(6) by linarith
  have "(2 :: rat) ^ 63 < 2 ^ 1024" by simp
  with nn lt have fin: "to_float (d + jit) = Fin (f64 (d + jit))" by (intro to_float_Fin) linarith
  have j_eq: "fl_mul (fl_mul (Fin d) (Fin j)) (fl_add (to_float (rnd * 2)) (Fin (- 1))) = Fin jit"
    unfolding jit_def using d(2) dlt c(4,5) assms(3,4) d(1) by (rule backoff_jitter)
  have "backoff cfg attempt rnd = int64_of (Fin (f64 (d + jit)))"
    unfolding backoff_def Let_def eq [unfolded Let_def] c(3) j_eq using nn fin by simp
  also have "\<dots> = \<lfloor>f64 (d + jit)\<rfloor>"
  proof -
    have "\<lfloor>f64 (d + jit)\<rfloor> < 2 ^ 63" using lt by (simp add: floor_less_iff)
    with nn show ?thesis by (simp add: int64_of_def trunc_def is_i64_def)
  qed
  finally have eq: "backoff cfg attempt rnd = \<lfloor>f64 (d + jit)\<rfloor>" .
  show "0 \<le> backoff cfg attempt rnd" using nn unfolding eq by simp
  show "of_int (backoff cfg attempt rnd) \<le> max_wait cfg" using up unfolding eq by linarith
qed

definition rand_ok :: "'s export_world \<Rightarrow> bool" where
  "rand_ok w \<longleftrightarrow> (\<forall>i. 0 \<le> ew_rand w i \<and> ew_rand w i < 1)"

definition wait_ok :: "Retry_Config \<Rightarrow> duration \<Rightarrow> bool" where
  "wait_ok cfg d \<longleftrightarrow> 0 \<le> d \<and> of_int d \<le> max_wait cfg"

definition after_call :: "('p \<Rightarrow> 's \<Rightarrow> error option \<times> 's) \<Rightarrow> 'p \<Rightarrow> 's \<Rightarrow> 's" where
  "after_call client p s = snd (client p s)"

lemma Otlp_frame:
  assumes "Otlp_ExportTraces client e p w = (err, w')"
  shows "ew_backend w' = after_call client p (ew_backend w)" and "err = None \<longleftrightarrow> fst (client p (ew_backend w)) = None"
    and "ew_slept w' = ew_slept w" and "ew_rand w' = ew_rand w" and "ew_drawn w' = ew_drawn w"
  using assms
  by (auto simp: Otlp_ExportTraces_def Let_def count_attempt_def count_failure_def count_success_def after_call_def
      split: prod.splits option.splits)

text \<open>
  The loop calls the client until the first success or until its attempts are used up, and
  waits after every failed call.
\<close>

lemma retry_loop_exact:
  assumes "retry_loop name cfg (Otlp_ExportTraces client e) p lastErr attempt n w = (err, w')"
    and "delays_ok cfg" and "rand_ok w" and "int (attempt + n) \<le> ry_MaxAttempts cfg \<or> n = 0"
    and "\<And>i. i < k \<Longrightarrow> fst (client p ((after_call client p ^^ i) (ew_backend w))) \<noteq> None"
    and "k < n \<Longrightarrow> fst (client p ((after_call client p ^^ k) (ew_backend w))) = None"
  shows "(err = None \<longleftrightarrow> k < n) \<and> ew_backend w' = (after_call client p ^^ min (Suc k) n) (ew_backend w) \<and>
    (\<exists>ds. ew_slept w' = ew_slept w @ ds \<and> length ds = min k n \<and> list_all (wait_ok cfg) ds)"
  using assms
proof (induction n arbitrary: lastErr attempt w k)
  case 0
  then show ?case by auto
next
  case (Suc n)
  obtain x w1 where x: "Otlp_ExportTraces client e p (count_attempt name w) = (x, w1)" by fastforce
  note f = Otlp_frame [OF x]
  have b: "ew_backend (count_attempt name w) = ew_backend w" "ew_slept (count_attempt name w) = ew_slept w"
    "ew_rand (count_attempt name w) = ew_rand w" by (simp_all add: count_attempt_def)
  show ?case
  proof (cases k)
    case 0
    then have "x = None" using Suc.prems(6) f(2) b by simp
    with Suc.prems(1) x f b 0 show ?thesis by (auto simp: after_call_def)
  next
    case (Suc k')
    then obtain y where y: "x = Some y" using Suc.prems(5) [of 0] f(2) b by auto
    let ?rnd = "ew_rand w1 (ew_drawn w1)"
    define w2 where "w2 = Sleep (backoff cfg attempt ?rnd) (count_retry name w1\<lparr>ew_drawn := ew_drawn w1 + 1\<rparr>)"
    have w2: "ew_backend w2 = after_call client p (ew_backend w)" "ew_slept w2 = ew_slept w @ [backoff cfg attempt ?rnd]"
      "ew_rand w2 = ew_rand w"
      using f b by (simp_all add: w2_def Sleep_def count_retry_def)
    have rnd: "0 \<le> ?rnd" "?rnd < 1" using Suc.prems(3) f(4) b by (simp_all add: rand_ok_def)
    have "retry_loop name cfg (Otlp_ExportTraces client e) p (Some y) (Suc attempt) n w2 = (err, w')"
      using Suc.prems(1) x y by (simp add: w2_def rand_Float64_def count_retry_def)
    then have IH: "(err = None \<longleftrightarrow> k' < n) \<and> ew_backend w' = (after_call client p ^^ min (Suc k') n) (ew_backend w2) \<and>
        (\<exists>ds. ew_slept w' = ew_slept w2 @ ds \<and> length ds = min k' n \<and> list_all (wait_ok cfg) ds)"
    proof (rule Suc.IH)
      show "rand_ok w2" using Suc.prems(3) w2(3) by (simp add: rand_ok_def)
      show "fst (client p ((after_call client p ^^ i) (ew_backend w2))) \<noteq> None" if "i < k'" for i
        using Suc.prems(5) [of "Suc i"] that Suc w2(1) by (simp add: funpow_swap1)
      show "fst (client p ((after_call client p ^^ k') (ew_backend w2))) = None" if "k' < n"
        using Suc.prems(6) that Suc w2(1) by (simp add: funpow_swap1)
    qed (use Suc.prems(2,4) in auto)
    have "wait_ok cfg (backoff cfg attempt ?rnd)"
      using backoff_bounds [OF Suc.prems(2) _ rnd] Suc.prems(2,4) by (auto simp: wait_ok_def delays_ok_def)
    with IH w2 Suc show ?thesis by (auto simp: funpow_swap1)
  qed
qed

text \<open>
  Property C25. Retry calls the backend until the first success or until
  \<^verbatim>\<open>MaxAttempts\<close> calls have failed, never more, and succeeds exactly in the first case; it
  waits once per failed call, each time between zero and the maximal delay plus its
  jitter, also when the doubled delay overflows to infinity. The configuration has no negative
  delay, a jitter between zero and one, a longest wait that is a \<^verbatim>\<open>time.Duration\<close>, and either a
  positive initial delay or at most 1024 attempts. With no attempts configured it fails without a call.
\<close>

theorem retry_exact:
  assumes "Retry_Export name cfg (Otlp_ExportTraces client e) p w = (err, w')" and "delays_ok cfg" and "rand_ok w"
    and "\<forall>i < k. fst (client p ((after_call client p ^^ i) (ew_backend w))) \<noteq> None"
    and "int k < ry_MaxAttempts cfg \<longrightarrow> fst (client p ((after_call client p ^^ k) (ew_backend w))) = None"
  shows "(err = None \<longleftrightarrow> int k < ry_MaxAttempts cfg) \<and>
    ew_backend w' = (after_call client p ^^ min (Suc k) (nat (ry_MaxAttempts cfg))) (ew_backend w) \<and>
    (\<exists>ds. ew_slept w' = ew_slept w @ ds \<and> length ds = min k (nat (ry_MaxAttempts cfg)) \<and> list_all (wait_ok cfg) ds)"
proof -
  have "retry_loop name cfg (Otlp_ExportTraces client e) p None 0 (nat (ry_MaxAttempts cfg)) w = (err, w')"
    using assms(1) by (simp add: Retry_Export_def)
  from retry_loop_exact [OF this assms(2,3), of k] assms(4,5) show ?thesis by (auto simp: zless_nat_eq_int_zless)
qed

definition demo_world :: "int scripted export_world" where
  "demo_world = \<lparr>ew_metrics = OtelMetrics_zero, ew_slept = [], ew_rand = (\<lambda>_. 1 / 2), ew_drawn = 0,
     ew_backend = \<lparr>sb_script = [(False, False), (True, False)], sb_got = []\<rparr>\<rparr>"

definition demo_tempo :: Otlp_Exporter where
  "demo_tempo = \<lparr>oe_label = ''tempo'', oe_cfg = ec_Tempo (oc_Exporters Otel_DefaultConfig)\<rparr>"

lemma demo_retry_cfg: "delays_ok Retry_DefaultConfig" "rand_ok demo_world"
proof -
  let ?j = "f64 (1 / 5)"
  have "?j \<le> f64 1" by (rule f64_mono) simp
  then have j: "0 \<le> ?j" "?j \<le> 1" using f64_of_int [of 1] f64_nonneg [of "1 / 5"] by simp_all
  have mx: "f64 (of_int (10 ^ 10)) = 10 ^ 10" using f64_of_int [of "10 ^ 10"] by simp
  have "f64 (10 ^ 10 * ?j) \<le> f64 (of_int (10 ^ 10))" using j by (intro f64_mono) simp
  with mx have "10 ^ 10 + f64 (10 ^ 10 * ?j) \<le> of_int (2 * 10 ^ 10)" by simp
  then have "f64 (10 ^ 10 + f64 (10 ^ 10 * ?j)) \<le> f64 (of_int (2 * 10 ^ 10))" by (rule f64_mono)
  also have "\<dots> < 2 ^ 63" using f64_of_int [of "2 * 10 ^ 10"] by simp
  finally have "max_wait Retry_DefaultConfig < 2 ^ 63"
    using mx by (simp add: max_wait_def jitter_of_def Retry_DefaultConfig_def Second_def)
  with j show "delays_ok Retry_DefaultConfig"
    by (simp add: delays_ok_def jitter_of_def Retry_DefaultConfig_def Millisecond_def Second_def)
qed (simp add: rand_ok_def demo_world_def)

theorem retry_exact_witness:
  "fst (Retry_Export ''tempo'' Retry_DefaultConfig (Otlp_ExportTraces scripted_client demo_tempo) 7 demo_world) = None \<and>
   sb_got (ew_backend (snd (Retry_Export ''tempo'' Retry_DefaultConfig (Otlp_ExportTraces scripted_client demo_tempo) 7 demo_world))) = [7, 7]"
proof -
  obtain err w' where r: "Retry_Export ''tempo'' Retry_DefaultConfig (Otlp_ExportTraces scripted_client demo_tempo) 7 demo_world = (err, w')"
    by fastforce
  have "(err = None \<longleftrightarrow> int 2 < ry_MaxAttempts Retry_DefaultConfig) \<and>
    ew_backend w' = (after_call scripted_client 7 ^^ min (Suc 2) (nat (ry_MaxAttempts Retry_DefaultConfig))) (ew_backend demo_world) \<and>
    (\<exists>ds. ew_slept w' = ew_slept demo_world @ ds \<and> length ds = min 2 (nat (ry_MaxAttempts Retry_DefaultConfig)) \<and>
      list_all (wait_ok Retry_DefaultConfig) ds)"
    by (rule retry_exact [OF r demo_retry_cfg])
      (auto simp: less_Suc_eq after_call_def scripted_client_def demo_world_def numeral_2_eq_2)
  with r show ?thesis
    by (simp add: Retry_DefaultConfig_def after_call_def scripted_client_def demo_world_def eval_nat_numeral)
qed

text \<open>
  Property C26. Delivery under retries is at least once: whatever the client does, as long
  as a successful call means that the backend has the payload, the backend receives no
  other payload, receives this one at most \<^verbatim>\<open>MaxAttempts\<close> times, and at least once when
  the export succeeds.
\<close>

theorem retry_at_least_once:
  assumes "client_ok got client" and "Retry_Export name cfg (Otlp_ExportTraces client e) p w = (err, w')"
  shows "\<exists>k. got (ew_backend w') = got (ew_backend w) @ replicate k p \<and> k \<le> nat (ry_MaxAttempts cfg) \<and>
    (err = None \<longrightarrow> 1 \<le> k)"
proof -
  have "delivering got (Retry_Export name cfg (Otlp_ExportTraces client e)) (nat (ry_MaxAttempts cfg) * 1)"
    using otlp_delivering [OF assms(1)] by (rule delivering.retry_delivering)
  from delivering.export_delivers [OF this assms(2)] show ?thesis by simp
qed

theorem retry_at_least_once_witness:
  "\<exists>k. sb_got (ew_backend (snd (Retry_Export ''tempo'' Retry_DefaultConfig (Otlp_ExportTraces scripted_client demo_tempo) 7 demo_world))) =
     replicate k 7 \<and> k \<le> 5"
proof -
  obtain err w' where r: "Retry_Export ''tempo'' Retry_DefaultConfig (Otlp_ExportTraces scripted_client demo_tempo) 7 demo_world = (err, w')"
    by fastforce
  from retry_at_least_once [OF scripted_client_ok r] r show ?thesis
    by (auto simp: demo_world_def Retry_DefaultConfig_def)
qed

lemma fanout_as_shutdown:
  "Fanout_Export exporters p w = Fanout_Shutdown (map (\<lambda>(name, expo). (name, expo p)) exporters) w"
proof -
  have "fanout_loop exporters p w = shutdown_loop (map (\<lambda>(name, expo). (name, expo p)) exporters) w"
    by (induction exporters p w rule: fanout_loop.induct) (simp_all split: prod.splits)
  then show ?thesis by (simp add: Fanout_Export_def Fanout_Shutdown_def)
qed

text \<open>
  The fan-out reaches every backend: each exporter is called once with the
  payload, in order and whatever the others returned, and the result is an error exactly
  when some exporter returned one.
\<close>

lemma fanout_reaches_all:
  "snd (Fanout_Export exporters p w) = fold (\<lambda>(name, expo) v. snd (expo p v)) exporters w \<and>
   (fst (Fanout_Export exporters p w) = None \<longleftrightarrow>
     list_all (\<lambda>i. fst (snd (exporters ! i) p (fold (\<lambda>(name, expo) v. snd (expo p v)) (take i exporters) w)) = None)
       [0..<length exporters])"
  using shutdown_reaches_all [of "map (\<lambda>(name, expo). (name, expo p)) exporters" w]
  by (simp add: fanout_as_shutdown fold_map comp_def case_prod_unfold list_all_iff take_map Ball_def)

end
