(* ===== verification/Pipeline.thy ===== *)
theory Pipeline
  imports Processors Exporters
begin

text \<open>
  The pipeline manager (\<^verbatim>\<open>internal/otelgateway/pipeline/manager.go\<close>). The trace and the
  metric side run the same code over different payloads, so each side is a \<open>lane\<close>: its
  buffered channels, one per shard, and the payloads its workers hold. Goroutines
  interleave between channel operations, processor calls and exports; \<open>lane_step\<close> gives
  these steps, with any change of the shared state in between. The depth gauge is read as
  one step, the channels of a side are closed in one step, and the workers are there from the
  beginning, as after \<open>Start\<close>; the sizes are ones for which \<^verbatim>\<open>make\<close> does not panic. What the lane owes its clients is stated over the events of a run.
\<close>

section \<open>State\<close>

record 's pipe_state =
  ps_metrics :: OtelMetrics
  ps_env :: 's

type_synonym ('p, 's) proc = "'p \<Rightarrow> 's pipe_state \<Rightarrow> 'p processed \<times> 's pipe_state"
type_synonym ('p, 's) sink = "'p \<Rightarrow> 's pipe_state \<Rightarrow> error option \<times> 's pipe_state"
type_synonym 's stopper = "'s pipe_state \<Rightarrow> error option \<times> 's pipe_state"

text \<open>A payload in a worker's hands: as it was received, as it is now, and the next processor.\<close>

record 'p flight =
  fl_shard :: nat
  fl_origin :: 'p
  fl_current :: 'p
  fl_next :: nat

record 'p lane =
  ln_queues :: "'p list list"
  ln_cap :: nat
  ln_closed :: bool
  ln_flights :: "'p flight list"

record 's Manager =
  mg_cfg :: PipelineConfig
  mg_shardCount :: nat
  mg_trace :: "TracePayload lane"
  mg_metric :: "MetricPayload lane"
  mg_traceProcs :: "(TracePayload, 's) proc list"
  mg_metricProcs :: "(MetricPayload, 's) proc list"
  mg_traceExp :: "((TracePayload, 's) sink \<times> 's stopper) option"
  mg_metricExp :: "((MetricPayload, 's) sink \<times> 's stopper) option"
  mg_preShutdownHooks :: "('s pipe_state \<Rightarrow> 's pipe_state) list"

definition shard_count :: "PipelineConfig \<Rightarrow> nat" where
  "shard_count cfg = (if pc_ShardCount cfg < 1 then 1 else nat (pc_ShardCount cfg))"

definition per_shard :: "int \<Rightarrow> nat \<Rightarrow> nat" where
  "per_shard queueSize shards = (let q = quot queueSize (int shards) in if q < 1 then 1 else nat q)"

definition new_lane :: "nat \<Rightarrow> nat \<Rightarrow> 'p lane" where
  "new_lane shards cap = \<lparr>ln_queues = replicate shards [], ln_cap = cap, ln_closed = False, ln_flights = []\<rparr>"

definition NewManager ::
  "PipelineConfig \<Rightarrow> (TracePayload, 's) proc list \<Rightarrow> (MetricPayload, 's) proc list \<Rightarrow>
   ((TracePayload, 's) sink \<times> 's stopper) option \<Rightarrow> ((MetricPayload, 's) sink \<times> 's stopper) option \<Rightarrow> 's Manager" where
  "NewManager cfg traceProcs metricProcs traceExp metricExp =
     (let shards = shard_count cfg
      in \<lparr>mg_cfg = cfg, mg_shardCount = shards,
          mg_trace = new_lane shards (per_shard (pc_TraceQueueSize cfg) shards),
          mg_metric = new_lane shards (per_shard (pc_MetricQueueSize cfg) shards),
          mg_traceProcs = traceProcs, mg_metricProcs = metricProcs, mg_traceExp = traceExp, mg_metricExp = metricExp,
          mg_preShutdownHooks = []\<rparr>)"

definition worker_count :: "PipelineConfig \<Rightarrow> nat" where
  "worker_count cfg = (if pc_Workers cfg < 1 then 1 else nat (pc_Workers cfg))"

text \<open>\<open>Start\<close> sets the capacity gauges; each shard then has \<open>worker_count\<close> workers per signal.\<close>

definition Manager_Start :: "'s Manager \<Rightarrow> 's pipe_state \<Rightarrow> 's pipe_state" where
  "Manager_Start m st = st\<lparr>ps_metrics := (ps_metrics st)\<lparr>om_QueueCapacity := (om_QueueCapacity (ps_metrics st))
     (SignalTrace := pc_TraceQueueSize (mg_cfg m), SignalMetric := pc_MetricQueueSize (mg_cfg m))\<rparr>\<rparr>"

section \<open>Shards\<close>

fun extractServiceName :: "KeyValue list \<Rightarrow> string" where
  "extractServiceName [] = ''''"
| "extractServiceName (kv # attrs) =
     (if kv_Key kv = ''service.name'' \<and> kv_StringValue kv \<noteq> '''' then kv_StringValue kv else extractServiceName attrs)"

definition hashToShard :: "string \<Rightarrow> nat \<Rightarrow> nat" where
  "hashToShard key shards = (if key = '''' \<or> shards \<le> 1 then 0 else unat (fnv32a (string_bytes key)) mod shards)"

definition traceShardIndex :: "nat \<Rightarrow> TracePayload option \<Rightarrow> nat" where
  "traceShardIndex shards payload =
     (if shards \<le> 1 then 0
      else case payload of
             None \<Rightarrow> 0
           | Some tp \<Rightarrow>
               (case tp_Data tp of
                  Some (rs # _) \<Rightarrow>
                    (case rs_Resource rs of None \<Rightarrow> 0 | Some attrs \<Rightarrow> hashToShard (extractServiceName attrs) shards)
                | _ \<Rightarrow> 0))"

definition metricShardIndex :: "nat \<Rightarrow> MetricPayload option \<Rightarrow> nat" where
  "metricShardIndex shards payload =
     (if shards \<le> 1 then 0
      else case payload of
             None \<Rightarrow> 0
           | Some mp \<Rightarrow>
               (case mp_Data mp of
                  Some (rm # _) \<Rightarrow>
                    (case rm_Resource rm of None \<Rightarrow> 0 | Some attrs \<Rightarrow> hashToShard (extractServiceName attrs) shards)
                | _ \<Rightarrow> 0))"

section \<open>Submitting\<close>

text \<open>The non-blocking send of a \<^verbatim>\<open>select\<close> with a default; sending on a closed channel panics.\<close>

definition lane_send :: "nat \<Rightarrow> 'p \<Rightarrow> 'p lane \<Rightarrow> error + bool \<times> 'p lane" where
  "lane_send i p l =
     (if ln_closed l then Inl (GoPanic ''send on closed channel'')
      else if length (ln_queues l ! i) < ln_cap l then
        Inr (True, l\<lparr>ln_queues := (ln_queues l)[i := ln_queues l ! i @ [p]]\<rparr>)
      else Inr (False, l))"

definition lane_depth :: "'p lane \<Rightarrow> int" where
  "lane_depth l = int (sum_list (map length (ln_queues l)))"

definition updateDepth :: "SignalType \<Rightarrow> 'p lane \<Rightarrow> 's pipe_state \<Rightarrow> 's pipe_state" where
  "updateDepth sig l st =
     st\<lparr>ps_metrics := (ps_metrics st)\<lparr>om_QueueDepth := (om_QueueDepth (ps_metrics st))(sig := lane_depth l)\<rparr>\<rparr>"

definition count_drop :: "SignalType \<Rightarrow> 's pipe_state \<Rightarrow> 's pipe_state" where
  "count_drop sig st =
     st\<lparr>ps_metrics := (ps_metrics st)\<lparr>om_QueueDropTotal :=
       (om_QueueDropTotal (ps_metrics st))(sig := om_QueueDropTotal (ps_metrics st) sig + 1)\<rparr>\<rparr>"

definition SubmitTrace :: "TracePayload \<Rightarrow> 's Manager \<Rightarrow> 's pipe_state \<Rightarrow> (error + bool) \<times> 's Manager \<times> 's pipe_state" where
  "SubmitTrace p m st =
     (case lane_send (traceShardIndex (mg_shardCount m) (Some p)) p (mg_trace m) of
        Inl panic \<Rightarrow> (Inl panic, m, st)
      | Inr (True, l) \<Rightarrow> (Inr True, m\<lparr>mg_trace := l\<rparr>, updateDepth SignalTrace l st)
      | Inr (False, l) \<Rightarrow> (Inr False, m, count_drop SignalTrace st))"

definition SubmitMetric :: "MetricPayload \<Rightarrow> 's Manager \<Rightarrow> 's pipe_state \<Rightarrow> (error + bool) \<times> 's Manager \<times> 's pipe_state" where
  "SubmitMetric p m st =
     (case lane_send (metricShardIndex (mg_shardCount m) (Some p)) p (mg_metric m) of
        Inl panic \<Rightarrow> (Inl panic, m, st)
      | Inr (True, l) \<Rightarrow> (Inr True, m\<lparr>mg_metric := l\<rparr>, updateDepth SignalMetric l st)
      | Inr (False, l) \<Rightarrow> (Inr False, m, count_drop SignalMetric st))"

definition OnPreShutdown :: "('s pipe_state \<Rightarrow> 's pipe_state) \<Rightarrow> 's Manager \<Rightarrow> 's Manager" where
  "OnPreShutdown hook m = m\<lparr>mg_preShutdownHooks := mg_preShutdownHooks m @ [hook]\<rparr>"

section \<open>Workers\<close>

datatype 'p lane_event =
    Accepted 'p
  | Refused 'p
  | Received 'p
  | Processed
  | Dropped nat 'p
  | Exported nat 'p 'p "error option"
  | Closed
  | Other

text \<open>What a worker of a lane runs: the processors in order and the exporter, if there is one.\<close>

record ('p, 's) stage =
  sg_index :: "'p \<Rightarrow> nat"
  sg_workers :: nat
  sg_procs :: "('p, 's) proc list"
  sg_exp :: "('p, 's) sink option"

definition trace_stage :: "'s Manager \<Rightarrow> (TracePayload, 's) stage" where
  "trace_stage m = \<lparr>sg_index = (\<lambda>p. traceShardIndex (mg_shardCount m) (Some p)), sg_workers = worker_count (mg_cfg m),
     sg_procs = mg_traceProcs m, sg_exp = map_option fst (mg_traceExp m)\<rparr>"

definition metric_stage :: "'s Manager \<Rightarrow> (MetricPayload, 's) stage" where
  "metric_stage m = \<lparr>sg_index = (\<lambda>p. metricShardIndex (mg_shardCount m) (Some p)), sg_workers = worker_count (mg_cfg m),
     sg_procs = mg_metricProcs m, sg_exp = map_option fst (mg_metricExp m)\<rparr>"

definition in_shard :: "nat \<Rightarrow> 'p lane \<Rightarrow> 'p flight list" where
  "in_shard i l = filter (\<lambda>f. fl_shard f = i) (ln_flights l)"

text \<open>A free worker of shard \<open>i\<close> takes the head of its channel.\<close>

definition lane_receive :: "nat \<Rightarrow> nat \<Rightarrow> 'p lane \<Rightarrow> ('p \<times> 'p lane) option" where
  "lane_receive workers i l =
     (if i < length (ln_queues l) \<and> length (in_shard i l) < workers then
        (case ln_queues l ! i of
           [] \<Rightarrow> None
         | p # rest \<Rightarrow>
             Some (p, l\<lparr>ln_queues := (ln_queues l)[i := rest],
               ln_flights := ln_flights l @ [\<lparr>fl_shard = i, fl_origin = p, fl_current = p, fl_next = 0\<rparr>]\<rparr>))
      else None)"

definition drop_flight :: "nat \<Rightarrow> 'p lane \<Rightarrow> 'p lane" where
  "drop_flight j l = l\<lparr>ln_flights := take j (ln_flights l) @ drop (Suc j) (ln_flights l)\<rparr>"

text \<open>The worker that holds flight \<open>j\<close> calls the next processor, or the exporter after the last one.\<close>

definition flight_step ::
  "('p, 's) stage \<Rightarrow> nat \<Rightarrow> 'p lane \<Rightarrow> 's pipe_state \<Rightarrow> ('p lane_event \<times> 'p lane \<times> 's pipe_state) option" where
  "flight_step g j l st =
     (if j < length (ln_flights l) then
        (let f = ln_flights l ! j in
         if fl_next f < length (sg_procs g) then
           (case (sg_procs g ! fl_next f) (fl_current f) st of
              (Inr (Some p), st') \<Rightarrow>
                Some (Processed, l\<lparr>ln_flights := (ln_flights l)[j := f\<lparr>fl_current := p, fl_next := Suc (fl_next f)\<rparr>]\<rparr>, st')
            | (_, st') \<Rightarrow> Some (Dropped (fl_shard f) (fl_origin f), drop_flight j l, st'))
         else
           (case sg_exp g of
              None \<Rightarrow> Some (Dropped (fl_shard f) (fl_origin f), drop_flight j l, st)
            | Some sink \<Rightarrow>
                (case sink (fl_current f) st of
                   (err, st') \<Rightarrow> Some (Exported (fl_shard f) (fl_origin f) (fl_current f) err, drop_flight j l, st'))))
      else None)"

section \<open>Shutdown\<close>

text \<open>
  Closing the channels, and what runs once the workers have drained them. The workers stop
  when their channel is closed and empty.
\<close>

definition Shutdown_close :: "'s Manager \<Rightarrow> error + 's Manager" where
  "Shutdown_close m =
     (if ln_closed (mg_trace m) \<or> ln_closed (mg_metric m) then Inl (GoPanic ''close of closed channel'')
      else Inr (m\<lparr>mg_trace := (mg_trace m)\<lparr>ln_closed := True\<rparr>, mg_metric := (mg_metric m)\<lparr>ln_closed := True\<rparr>\<rparr>))"

definition lane_drained :: "'p lane \<Rightarrow> bool" where
  "lane_drained l \<longleftrightarrow> ln_closed l \<and> list_all (\<lambda>q. q = []) (ln_queues l) \<and> ln_flights l = []"

definition Shutdown_finish :: "'s Manager \<Rightarrow> 's pipe_state \<Rightarrow> 's pipe_state" where
  "Shutdown_finish m st =
     (let st1 = fold (\<lambda>hook v. hook v) (mg_preShutdownHooks m) st;
          st2 = (case mg_traceExp m of None \<Rightarrow> st1 | Some (_, stop) \<Rightarrow> snd (stop st1))
      in case mg_metricExp m of None \<Rightarrow> st2 | Some (_, stop) \<Rightarrow> snd (stop st2))"

section \<open>Runs of a lane\<close>

inductive lane_step :: "('p, 's) stage \<Rightarrow> 'p lane \<times> 's pipe_state \<Rightarrow> 'p lane_event \<Rightarrow> 'p lane \<times> 's pipe_state \<Rightarrow> bool" for g where
  submit: "lane_send (sg_index g p) p l = Inr (True, l') \<Longrightarrow> lane_step g (l, st) (Accepted p) (l', st')"
| refuse: "lane_send (sg_index g p) p l = Inr (False, l') \<Longrightarrow> lane_step g (l, st) (Refused p) (l, st')"
| receive: "lane_receive (sg_workers g) i l = Some (p, l') \<Longrightarrow> lane_step g (l, st) (Received p) (l', st')"
| work: "flight_step g j l st = Some (ev, l', st') \<Longrightarrow> lane_step g (l, st) ev (l', st')"
| close: "\<not> ln_closed l \<Longrightarrow> lane_step g (l, st) Closed (l\<lparr>ln_closed := True\<rparr>, st')"
| other: "lane_step g (l, st) Other (l, st')"

inductive lane_run :: "('p, 's) stage \<Rightarrow> 'p lane \<times> 's pipe_state \<Rightarrow> 'p lane_event list \<Rightarrow> 'p lane \<times> 's pipe_state \<Rightarrow> bool" for g s where
  nil: "lane_run g s [] s"
| snoc: "lane_run g s evs s' \<Longrightarrow> lane_step g s' ev s'' \<Longrightarrow> lane_run g s (evs @ [ev]) s''"

inductive_cases lane_stepE: "lane_step g (l, st) ev (l', st')"
inductive_cases lane_step_AcceptedE: "lane_step g s (Accepted p) s'"

fun accepted_in :: "('p, 's) stage \<Rightarrow> nat \<Rightarrow> 'p lane_event list \<Rightarrow> 'p list" where
  "accepted_in g i [] = []"
| "accepted_in g i (Accepted p # evs) = (if sg_index g p = i then p # accepted_in g i evs else accepted_in g i evs)"
| "accepted_in g i (_ # evs) = accepted_in g i evs"

fun finished_in :: "nat \<Rightarrow> 'p lane_event list \<Rightarrow> 'p list" where
  "finished_in i [] = []"
| "finished_in i (Dropped k p # evs) = (if k = i then p # finished_in i evs else finished_in i evs)"
| "finished_in i (Exported k p c e # evs) = (if k = i then p # finished_in i evs else finished_in i evs)"
| "finished_in i (_ # evs) = finished_in i evs"

lemma accepted_in_append [simp]: "accepted_in g i (xs @ ys) = accepted_in g i xs @ accepted_in g i ys"
  by (induction xs rule: accepted_in.induct) auto

lemma finished_in_append [simp]: "finished_in i (xs @ ys) = finished_in i xs @ finished_in i ys"
  by (induction xs rule: finished_in.induct) auto

definition held :: "nat \<Rightarrow> 'p lane \<Rightarrow> 'p list" where
  "held i l = map fl_origin (in_shard i l)"

definition lane_inv :: "('p, 's) stage \<Rightarrow> nat \<Rightarrow> 'p lane \<Rightarrow> bool" where
  "lane_inv g n l \<longleftrightarrow> length (ln_queues l) = n \<and> list_all (\<lambda>q. length q \<le> ln_cap l) (ln_queues l) \<and>
     (\<forall>i. length (held i l) \<le> sg_workers g) \<and>
     list_all (\<lambda>f. fl_shard f < n \<and> fl_next f \<le> length (sg_procs g)) (ln_flights l)"

text \<open>The four ways a step changes queues and flights.\<close>

datatype 'p change = Same | Enqueue nat 'p | Take nat 'p | Finish nat 'p

definition applies :: "'p change \<Rightarrow> 'p lane \<Rightarrow> 'p lane \<Rightarrow> bool" where
  "applies c l l' \<longleftrightarrow>
     (case c of
        Same \<Rightarrow> ln_queues l' = ln_queues l \<and> (\<forall>k. held k l' = held k l)
      | Enqueue i p \<Rightarrow> i < length (ln_queues l) \<and> ln_queues l' = (ln_queues l)[i := ln_queues l ! i @ [p]] \<and> (\<forall>k. held k l' = held k l)
      | Take i p \<Rightarrow> i < length (ln_queues l) \<and> (\<exists>rest. ln_queues l ! i = p # rest \<and> ln_queues l' = (ln_queues l)[i := rest]) \<and>
          (\<forall>k. held k l' = held k l @ (if k = i then [p] else []))
      | Finish i p \<Rightarrow> ln_queues l' = ln_queues l \<and> (\<forall>k. k \<noteq> i \<longrightarrow> held k l' = held k l) \<and>
          (\<exists>us vs. held i l = us @ p # vs \<and> held i l' = us @ vs))"

definition change_of :: "('p, 's) stage \<Rightarrow> nat \<Rightarrow> 'p lane_event \<Rightarrow> 'p change" where
  "change_of g i ev = (case ev of Accepted p \<Rightarrow> Enqueue (sg_index g p) p | Received p \<Rightarrow> Take i p
     | Dropped k p \<Rightarrow> Finish k p | Exported k p c e \<Rightarrow> Finish k p | _ \<Rightarrow> Same)"

lemma held_drop_flight:
  assumes "j < length (ln_flights l)" and "f = ln_flights l ! j"
  shows "applies (Finish (fl_shard f) (fl_origin f)) l (drop_flight j l)"
proof -
  let ?h = "\<lambda>k fs. map fl_origin (filter (\<lambda>f. fl_shard f = k) fs)"
  have eq: "ln_flights l = take j (ln_flights l) @ f # drop (Suc j) (ln_flights l)"
    using assms by (simp add: id_take_nth_drop)
  have h: "held k l = ?h k (take j (ln_flights l)) @ (if fl_shard f = k then [fl_origin f] else []) @ ?h k (drop (Suc j) (ln_flights l))" for k
    using arg_cong [OF eq, of "?h k"] by (simp add: held_def in_shard_def)
  have "held k (drop_flight j l) = ?h k (take j (ln_flights l)) @ ?h k (drop (Suc j) (ln_flights l))" for k
    by (simp add: held_def in_shard_def drop_flight_def)
  with h show ?thesis by (auto simp: applies_def drop_flight_def)
qed

lemma held_update:
  assumes "fl_shard f = fl_shard (ln_flights l ! j)" and "fl_origin f = fl_origin (ln_flights l ! j)"
  shows "held k (l\<lparr>ln_flights := (ln_flights l)[j := f]\<rparr>) = held k l"
proof (cases "j < length (ln_flights l)")
  case True
  let ?h = "\<lambda>fs. map fl_origin (filter (\<lambda>f. fl_shard f = k) fs)"
  have eq: "ln_flights l = take j (ln_flights l) @ ln_flights l ! j # drop (Suc j) (ln_flights l)"
    using True by (rule id_take_nth_drop)
  show ?thesis
    using True assms arg_cong [OF eq, of ?h] by (simp add: held_def in_shard_def upd_conv_take_nth_drop)
qed (simp add: held_def in_shard_def list_update_beyond)

lemma flight_step_change:
  assumes "flight_step g j l st = Some (ev, l', st')"
  shows "applies (change_of g i ev) l l'" and "ln_closed l' = ln_closed l" and "ln_cap l' = ln_cap l"
    and "\<And>p. ev \<noteq> Accepted p" and "\<And>p. ev \<noteq> Received p"
proof -
  let ?f = "ln_flights l ! j"
  have j: "j < length (ln_flights l)" using assms by (auto simp: flight_step_def split: if_splits)
  have drop: "applies (Finish (fl_shard ?f) (fl_origin ?f)) l (drop_flight j l)" using held_drop_flight [OF j refl] .
  have upd: "applies Same l (l\<lparr>ln_flights := (ln_flights l)[j := ?f\<lparr>fl_current := p, fl_next := m\<rparr>]\<rparr>)" for p m
    by (simp add: applies_def held_update)
  show "applies (change_of g i ev) l l'"
    using assms j drop upd
    by (auto simp: flight_step_def Let_def change_of_def split: if_splits prod.splits sum.splits option.splits)
  show "ln_closed l' = ln_closed l" "ln_cap l' = ln_cap l" "\<And>p. ev \<noteq> Accepted p" "\<And>p. ev \<noteq> Received p"
    using assms j
    by (auto simp: flight_step_def Let_def drop_flight_def split: if_splits prod.splits sum.splits option.splits)
qed

lemma flight_step_flights:
  assumes "flight_step g j l st = Some (ev, l', st')" and "f \<in> set (ln_flights l')"
  shows "f \<in> set (ln_flights l) \<or>
    (\<exists>f0 \<in> set (ln_flights l). fl_shard f = fl_shard f0 \<and> fl_next f = Suc (fl_next f0) \<and> fl_next f0 < length (sg_procs g))"
proof -
  have j: "j < length (ln_flights l)" using assms by (auto simp: flight_step_def split: if_splits)
  consider "l' = drop_flight j l"
    | p where "l' = l\<lparr>ln_flights := (ln_flights l)[j := (ln_flights l ! j)\<lparr>fl_current := p, fl_next := Suc (fl_next (ln_flights l ! j))\<rparr>]\<rparr>"
      "fl_next (ln_flights l ! j) < length (sg_procs g)"
    using assms(1) j by (auto simp: flight_step_def Let_def split: if_splits prod.splits sum.splits option.splits)
  then show ?thesis
  proof cases
    case 1
    with assms(2) show ?thesis by (auto simp: drop_flight_def dest: in_set_takeD in_set_dropD)
  next
    case 2
    with assms(2) have "f = (ln_flights l ! j)\<lparr>fl_current := p, fl_next := Suc (fl_next (ln_flights l ! j))\<rparr> \<or> f \<in> set (ln_flights l)"
      by (auto dest!: set_update_subset_insert [THEN subsetD])
    with 2(2) j show ?thesis by auto
  qed
qed

lemma lane_receive_change:
  assumes "lane_receive workers i l = Some (p, l')"
  shows "applies (Take i p) l l'" and "ln_closed l' = ln_closed l" and "ln_cap l' = ln_cap l" and "length (held i l) < workers"
  using assms
  by (auto simp: lane_receive_def applies_def held_def in_shard_def split: if_splits list.splits)

lemma applies_held:
  assumes "applies c l l'"
  shows "length (held k l') \<le> length (held k l) + (case c of Take i p \<Rightarrow> if k = i then 1 else 0 | _ \<Rightarrow> 0)"
proof (cases c)
  case (Finish i p)
  with assms show ?thesis by (cases "k = i") (auto simp: applies_def)
qed (use assms in \<open>auto simp: applies_def\<close>)

locale lane_system =
  fixes g :: "('p, 's) stage" and n :: nat
  assumes index_bound: "sg_index g p < n" and some_worker: "1 \<le> sg_workers g"
begin

lemma lane_send_change:
  "lane_send (sg_index g p) p l = Inr (True, l') \<Longrightarrow> length (ln_queues l) = n \<Longrightarrow>
   applies (Enqueue (sg_index g p) p) l l' \<and> ln_closed l' = ln_closed l \<and> ln_cap l' = ln_cap l \<and>
   \<not> ln_closed l \<and> length (ln_queues l ! sg_index g p) < ln_cap l"
  using index_bound [of p] by (auto simp: lane_send_def applies_def held_def in_shard_def split: if_splits)

text \<open>Every step is one of the four changes.\<close>

lemma step_change:
  assumes "lane_step g (l, st) ev (l', st')" and "length (ln_queues l) = n"
  obtains i where "applies (change_of g i ev) l l'" and "ln_cap l' = ln_cap l" and "length (ln_queues l') = n"
    and "\<And>p. ev = Received p \<Longrightarrow> length (held i l) < sg_workers g"
    and "\<And>p. ev = Accepted p \<Longrightarrow> length (ln_queues l ! sg_index g p) < ln_cap l \<and> \<not> ln_closed l"
  using assms(1)
proof (cases rule: lane_step.cases)
  case (submit p)
  with lane_send_change [OF _ assms(2)] that show ?thesis
    by (force simp: change_of_def applies_def assms(2))
next
  case (receive i p)
  with lane_receive_change [of "sg_workers g" i l p l'] that [of i] show ?thesis
    by (auto simp: change_of_def applies_def assms(2))
next
  case (work j)
  note c = flight_step_change [OF work(1)]
  have "length (ln_queues l') = n" using c(1) [of 0] assms(2)
    by (auto simp: applies_def change_of_def split: lane_event.splits change.splits)
  with c that [of 0] show ?thesis by blast
qed (use that [of 0] assms(2) in \<open>auto simp: change_of_def applies_def held_def in_shard_def\<close>)

lemma flights_ok_step:
  assumes "lane_step g (l, st) ev (l', st')" and "length (ln_queues l) = n"
    and "list_all (\<lambda>f. fl_shard f < n \<and> fl_next f \<le> length (sg_procs g)) (ln_flights l)"
  shows "list_all (\<lambda>f. fl_shard f < n \<and> fl_next f \<le> length (sg_procs g)) (ln_flights l')"
  using assms(1)
proof (cases rule: lane_step.cases)
  case (receive i p)
  with assms(2,3) show ?thesis by (auto simp: lane_receive_def split: if_splits list.splits)
next
  case (work j)
  with flight_step_flights [OF work] assms(3) show ?thesis by (fastforce simp: list_all_iff)
qed (use assms(3) in \<open>auto simp: lane_send_def split: if_splits\<close>)

lemma lane_inv_step:
  assumes "lane_step g (l, st) ev (l', st')" and inv: "lane_inv g n l"
  shows "lane_inv g n l'"
proof -
  from inv have n: "length (ln_queues l) = n" and cap: "list_all (\<lambda>q. length q \<le> ln_cap l) (ln_queues l)"
    and w: "\<And>i. length (held i l) \<le> sg_workers g" by (simp_all add: lane_inv_def)
  obtain i where c: "applies (change_of g i ev) l l'" "ln_cap l' = ln_cap l" "length (ln_queues l') = n"
    "\<And>p. ev = Received p \<Longrightarrow> length (held i l) < sg_workers g"
    "\<And>p. ev = Accepted p \<Longrightarrow> length (ln_queues l ! sg_index g p) < ln_cap l \<and> \<not> ln_closed l"
    using step_change [OF assms(1) n] by metis
  have "list_all (\<lambda>q. length q \<le> ln_cap l') (ln_queues l')"
    using c(1,2,5) cap unfolding list_all_length
    by (auto simp: applies_def change_of_def nth_list_update less_eq_Suc_le split: lane_event.splits if_splits)
  moreover have "length (held k l') \<le> sg_workers g" for k
    using applies_held [OF c(1), of k] c(4) w [of k]
    by (cases ev) (auto simp: change_of_def split: if_splits)
  ultimately show ?thesis
    using c(3) flights_ok_step [OF assms(1) n] inv by (simp add: lane_inv_def)
qed

text \<open>Nothing is lost or duplicated: what a shard accepted is what it holds and what it finished.\<close>

definition balanced :: "'p lane_event list \<Rightarrow> 'p lane \<Rightarrow> bool" where
  "balanced evs l \<longleftrightarrow> (\<forall>i < n. mset (accepted_in g i evs) = mset (finished_in i evs) + mset (held i l) + mset (ln_queues l ! i))"

definition in_order :: "'p lane_event list \<Rightarrow> 'p lane \<Rightarrow> bool" where
  "in_order evs l \<longleftrightarrow> (\<forall>i < n. accepted_in g i evs = finished_in i evs @ held i l @ ln_queues l ! i)"

lemma balanced_step:
  assumes "lane_step g (l, st) ev (l', st')" and "lane_inv g n l" and "balanced evs l"
  shows "balanced (evs @ [ev]) l'"
proof -
  have n: "length (ln_queues l) = n" using assms(2) by (simp add: lane_inv_def)
  obtain i where c: "applies (change_of g i ev) l l'" using step_change [OF assms(1) n] by metis
  show ?thesis
    unfolding balanced_def
  proof (intro allI impI)
    fix k assume k: "k < n"
    with assms(3) have old: "mset (accepted_in g k evs) = mset (finished_in k evs) + mset (held k l) + mset (ln_queues l ! k)"
      by (simp add: balanced_def)
    show "mset (accepted_in g k (evs @ [ev])) = mset (finished_in k (evs @ [ev])) + mset (held k l') + mset (ln_queues l' ! k)"
      using c old k n
      by (cases ev) (auto simp: applies_def change_of_def nth_list_update split: if_splits)
  qed
qed

lemma in_order_step:
  assumes "sg_workers g = 1" and "lane_step g (l, st) ev (l', st')" and "lane_inv g n l" and "in_order evs l"
  shows "in_order (evs @ [ev]) l'"
proof -
  have n: "length (ln_queues l) = n" and one: "\<And>k. length (held k l) \<le> 1" using assms(1,3) by (simp_all add: lane_inv_def)
  obtain i where c: "applies (change_of g i ev) l l'" and free: "\<And>p. ev = Received p \<Longrightarrow> length (held i l) < 1"
    using step_change [OF assms(2) n] assms(1) by metis
  have single: "held k l = [p] \<and> us = [] \<and> vs = []" if "held k l = us @ p # vs" for k us p vs
    using one [of k] that by simp
  show ?thesis
    unfolding in_order_def
  proof (intro allI impI)
    fix k assume k: "k < n"
    with assms(4) have old: "accepted_in g k evs = finished_in k evs @ held k l @ ln_queues l ! k"
      by (simp add: in_order_def)
    show "accepted_in g k (evs @ [ev]) = finished_in k (evs @ [ev]) @ held k l' @ ln_queues l' ! k"
      using c old k n free
      by (cases ev) (auto simp: applies_def change_of_def nth_list_update split: if_splits dest!: single)
  qed
qed

lemma run_inv:
  assumes "lane_run g (l, st) evs (l', st')" and "lane_inv g n l" and "balanced [] l"
  shows "lane_inv g n l' \<and> balanced evs l'"
  using assms(1)
proof (induction evs "(l', st')" arbitrary: l' st' rule: lane_run.induct)
  case nil
  then show ?case using assms by simp
next
  case (snoc evs s' ev)
  obtain l1 st1 where s': "s' = (l1, st1)" by fastforce
  with snoc have "lane_inv g n l1" "balanced evs l1" by auto
  with snoc s' show ?case using lane_inv_step balanced_step by blast
qed

lemma run_in_order:
  assumes "lane_run g (l, st) evs (l', st')" and "lane_inv g n l" and "in_order [] l" and "sg_workers g = 1"
  shows "lane_inv g n l' \<and> in_order evs l'"
  using assms(1)
proof (induction evs "(l', st')" arbitrary: l' st' rule: lane_run.induct)
  case nil
  then show ?case using assms by simp
next
  case (snoc evs s' ev)
  obtain l1 st1 where s': "s' = (l1, st1)" by fastforce
  with snoc have "lane_inv g n l1" "in_order evs l1" by auto
  with snoc s' show ?case using lane_inv_step in_order_step [OF assms(4)] by blast
qed

lemma new_lane_ok:
  "lane_inv g n (new_lane n cap)" "balanced [] (new_lane n cap)" "in_order [] (new_lane n cap)"
  by (simp_all add: lane_inv_def balanced_def in_order_def new_lane_def held_def in_shard_def list_all_length)

end

section \<open>Draining\<close>

definition is_work :: "'p lane_event \<Rightarrow> bool" where
  "is_work ev = (case ev of Received _ \<Rightarrow> True | Processed \<Rightarrow> True | Dropped _ _ \<Rightarrow> True | Exported _ _ _ _ \<Rightarrow> True | _ \<Rightarrow> False)"

definition flight_work :: "('p, 's) stage \<Rightarrow> 'p flight \<Rightarrow> nat" where
  "flight_work g f = length (sg_procs g) + 1 - fl_next f"

definition work_left :: "('p, 's) stage \<Rightarrow> 'p lane \<Rightarrow> nat" where
  "work_left g l = (length (sg_procs g) + 2) * sum_list (map length (ln_queues l)) + sum_list (map (flight_work g) (ln_flights l))"

lemma sum_list_update_map:
  "i < length xs \<Longrightarrow> sum_list (map f (xs[i := x])) + f (xs ! i) = sum_list (map f xs) + (f x :: nat)"
proof -
  assume i: "i < length xs"
  then have "f (xs ! i) \<le> sum_list (map f xs)" by (simp add: member_le_sum_list)
  with i show ?thesis by (simp add: map_update sum_list_update)
qed

lemma lane_receive_work:
  assumes "lane_receive workers i l = Some (p, l')"
  shows "work_left g l' < work_left g l"
proof -
  obtain rest where i: "i < length (ln_queues l)" and q: "ln_queues l ! i = p # rest"
    and l': "ln_queues l' = (ln_queues l)[i := rest]"
      "ln_flights l' = ln_flights l @ [\<lparr>fl_shard = i, fl_origin = p, fl_current = p, fl_next = 0\<rparr>]"
    using assms by (auto simp: lane_receive_def split: if_splits list.splits)
  have "sum_list (map length (ln_queues l)) = Suc (sum_list (map length (ln_queues l')))"
    using sum_list_update_map [OF i, of length rest] q l'(1) by simp
  then show ?thesis by (simp add: work_left_def l'(2) flight_work_def)
qed

lemma drop_flight_work:
  assumes "j < length (ln_flights l)" and "fl_next (ln_flights l ! j) \<le> length (sg_procs g)"
  shows "work_left g (drop_flight j l) < work_left g l"
proof -
  have eq: "ln_flights l = take j (ln_flights l) @ ln_flights l ! j # drop (Suc j) (ln_flights l)"
    using assms(1) by (rule id_take_nth_drop)
  show ?thesis
    using assms(2) arg_cong [OF eq, of "\<lambda>fs. sum_list (map (flight_work g) fs)"]
    by (simp add: work_left_def drop_flight_def flight_work_def)
qed

lemma flight_step_work:
  assumes "flight_step g j l st = Some (ev, l', st')" and "list_all (\<lambda>f. fl_next f \<le> length (sg_procs g)) (ln_flights l)"
  shows "work_left g l' < work_left g l" and "is_work ev"
proof -
  let ?f = "ln_flights l ! j"
  have j: "j < length (ln_flights l)" using assms(1) by (auto simp: flight_step_def split: if_splits)
  with assms(2) have nx: "fl_next ?f \<le> length (sg_procs g)" by (simp add: list_all_length)
  have "work_left g (l\<lparr>ln_flights := (ln_flights l)[j := ?f\<lparr>fl_current := p, fl_next := Suc (fl_next ?f)\<rparr>]\<rparr>) < work_left g l"
    if "fl_next ?f < length (sg_procs g)" for p
    using that sum_list_update_map [OF j, of "flight_work g" "?f\<lparr>fl_current := p, fl_next := Suc (fl_next ?f)\<rparr>"]
    by (simp add: work_left_def flight_work_def)
  then show "work_left g l' < work_left g l"
    using assms(1) j drop_flight_work [OF j nx]
    by (auto simp: flight_step_def Let_def split: if_splits prod.splits sum.splits option.splits)
  show "is_work ev"
    using assms(1) j by (auto simp: flight_step_def Let_def is_work_def split: if_splits prod.splits sum.splits option.splits)
qed

context lane_system
begin

lemma flights_next: "lane_inv g n l \<Longrightarrow> list_all (\<lambda>f. fl_next f \<le> length (sg_procs g)) (ln_flights l)"
  by (auto simp: lane_inv_def list_all_iff)

lemma closed_step:
  assumes "lane_step g (l, st) ev (l', st')" and "lane_inv g n l" and "ln_closed l"
  shows "ln_closed l'" and "work_left g l' + (if is_work ev then 1 else 0) \<le> work_left g l"
  using assms(1)
proof (atomize (full), cases rule: lane_step.cases)
  case (receive i p)
  with lane_receive_change(2) [of "sg_workers g" i l p l'] lane_receive_work [of "sg_workers g" i l p l' g] assms(3)
  show "ln_closed l' \<and> work_left g l' + (if is_work ev then 1 else 0) \<le> work_left g l" by (simp add: is_work_def)
next
  case (work j)
  with flight_step_work [OF work flights_next [OF assms(2)]] flight_step_change(2) [OF work] assms(3)
  show "ln_closed l' \<and> work_left g l' + (if is_work ev then 1 else 0) \<le> work_left g l" by simp
qed (use assms(3) in \<open>auto simp: lane_send_def is_work_def\<close>)

lemma closed_run:
  assumes "lane_run g (l, st) evs (l', st')" and "lane_inv g n l" and "ln_closed l"
  shows "lane_inv g n l' \<and> ln_closed l' \<and> work_left g l' + length (filter is_work evs) \<le> work_left g l"
  using assms(1)
proof (induction evs "(l', st')" arbitrary: l' st' rule: lane_run.induct)
  case nil
  then show ?case using assms by simp
next
  case (snoc evs s' ev)
  obtain l1 st1 where s': "s' = (l1, st1)" by fastforce
  with snoc have l1: "lane_inv g n l1" "ln_closed l1" "work_left g l1 + length (filter is_work evs) \<le> work_left g l" by auto
  have step: "lane_step g (l1, st1) ev (l', st')" using snoc s' by simp
  show ?case using closed_step [OF step l1(1,2)] lane_inv_step [OF step l1(1)] l1(3) by (auto split: if_splits)
qed

text \<open>As long as something is left, some worker can move.\<close>

lemma progress:
  assumes "lane_inv g n l" and "ln_closed l" and "\<not> lane_drained l"
  obtains ev l' st' where "lane_step g (l, st) ev (l', st')" and "is_work ev"
proof (cases "ln_flights l = []")
  case True
  then obtain q where "q \<in> set (ln_queues l)" "q \<noteq> []" using assms(2,3) by (auto simp: lane_drained_def list_all_iff)
  then obtain i where i: "i < length (ln_queues l)" "ln_queues l ! i \<noteq> []" by (auto simp: in_set_conv_nth)
  then obtain p rest where "ln_queues l ! i = p # rest" by (cases "ln_queues l ! i") auto
  with i True some_worker have "\<exists>l'. lane_receive (sg_workers g) i l = Some (p, l')"
    by (simp add: lane_receive_def in_shard_def)
  then obtain l' where "lane_receive (sg_workers g) i l = Some (p, l')" by blast
  then show thesis by (intro that [OF lane_step.receive]) (simp_all add: is_work_def)
next
  case False
  then have "\<exists>ev l' st'. flight_step g 0 l st = Some (ev, l', st')"
    by (auto simp: flight_step_def Let_def split: prod.splits sum.splits option.splits)
  then obtain ev l' st' where f: "flight_step g 0 l st = Some (ev, l', st')" by blast
  show thesis by (rule that [OF lane_step.work [OF f] flight_step_work(2) [OF f flights_next [OF assms(1)]]])
qed

end

section \<open>The manager\<close>

datatype pipe_event =
    TraceEv "TracePayload lane_event"
  | MetricEv "MetricPayload lane_event"
  | ShutdownEv
  | EnvEv

text \<open>
  A step of the whole manager. The last rule is anything else that changes the shared
  state: a tick of the memory monitor, a reload of a processor's configuration, the clock.
\<close>

inductive manager_step :: "'s Manager \<times> 's pipe_state \<Rightarrow> pipe_event \<Rightarrow> 's Manager \<times> 's pipe_state \<Rightarrow> bool" where
  submit_trace: "SubmitTrace p m st = (Inr ok, m', st') \<Longrightarrow>
    manager_step (m, st) (TraceEv (if ok then Accepted p else Refused p)) (m', st')"
| submit_metric: "SubmitMetric q m st = (Inr ok, m', st') \<Longrightarrow>
    manager_step (m, st) (MetricEv (if ok then Accepted q else Refused q)) (m', st')"
| trace_receive: "lane_receive (worker_count (mg_cfg m)) i (mg_trace m) = Some (p, tln) \<Longrightarrow>
    manager_step (m, st) (TraceEv (Received p)) (m\<lparr>mg_trace := tln\<rparr>, updateDepth SignalTrace tln st)"
| metric_receive: "lane_receive (worker_count (mg_cfg m)) i (mg_metric m) = Some (q, mln) \<Longrightarrow>
    manager_step (m, st) (MetricEv (Received q)) (m\<lparr>mg_metric := mln\<rparr>, updateDepth SignalMetric mln st)"
| trace_work: "flight_step (trace_stage m) j (mg_trace m) st = Some (tev, tln, st') \<Longrightarrow>
    manager_step (m, st) (TraceEv tev) (m\<lparr>mg_trace := tln\<rparr>, st')"
| metric_work: "flight_step (metric_stage m) j (mg_metric m) st = Some (mev, mln, st') \<Longrightarrow>
    manager_step (m, st) (MetricEv mev) (m\<lparr>mg_metric := mln\<rparr>, st')"
| shutdown: "Shutdown_close m = Inr m' \<Longrightarrow> manager_step (m, st) ShutdownEv (m', st)"
| env: "manager_step (m, st) EnvEv (m, st')"

inductive manager_run :: "'s Manager \<times> 's pipe_state \<Rightarrow> pipe_event list \<Rightarrow> 's Manager \<times> 's pipe_state \<Rightarrow> bool" for s where
  start: "manager_run s [] s"
| more: "manager_run s evs s' \<Longrightarrow> manager_step s' ev s'' \<Longrightarrow> manager_run s (evs @ [ev]) s''"

lemma manager_run_append:
  assumes "manager_run s evs s1" and "manager_run s1 evs' s2"
  shows "manager_run s (evs @ evs') s2"
  using assms(2)
proof (induction rule: manager_run.induct)
  case (more evs1 s' ev s'')
  then show ?case using manager_run.more [of s "evs @ evs1" s' ev s''] by simp
qed (simp add: assms(1))

fun trace_view :: "pipe_event \<Rightarrow> TracePayload lane_event" where
  "trace_view (TraceEv ev) = ev"
| "trace_view ShutdownEv = Closed"
| "trace_view _ = Other"

fun metric_view :: "pipe_event \<Rightarrow> MetricPayload lane_event" where
  "metric_view (MetricEv ev) = ev"
| "metric_view ShutdownEv = Closed"
| "metric_view _ = Other"

lemma stage_frame [simp]:
  "trace_stage (m\<lparr>mg_trace := l\<rparr>) = trace_stage m" "trace_stage (m\<lparr>mg_metric := k\<rparr>) = trace_stage m"
  "metric_stage (m\<lparr>mg_trace := l\<rparr>) = metric_stage m" "metric_stage (m\<lparr>mg_metric := k\<rparr>) = metric_stage m"
  by (simp_all add: trace_stage_def metric_stage_def)

lemma stage_fields [simp]:
  "sg_workers (trace_stage m) = worker_count (mg_cfg m)" "sg_workers (metric_stage m) = worker_count (mg_cfg m)"
  "sg_index (trace_stage m) p = traceShardIndex (mg_shardCount m) (Some p)"
  "sg_index (metric_stage m) q = metricShardIndex (mg_shardCount m) (Some q)"
  by (simp_all add: trace_stage_def metric_stage_def)

lemma SubmitTrace_cases:
  assumes "SubmitTrace p m st = (Inr ok, m', st')"
  shows "metric_stage m' = metric_stage m" and "trace_stage m' = trace_stage m" and "mg_metric m' = mg_metric m"
    and "lane_step (trace_stage m) (mg_trace m, st) (if ok then Accepted p else Refused p) (mg_trace m', st')"
  using assms lane_step.submit [of "trace_stage m" p "mg_trace m"] lane_step.refuse [of "trace_stage m" p "mg_trace m"]
  by (auto simp: SubmitTrace_def split: sum.splits bool.splits prod.splits)

lemma SubmitMetric_cases:
  assumes "SubmitMetric q m st = (Inr ok, m', st')"
  shows "trace_stage m' = trace_stage m" and "metric_stage m' = metric_stage m" and "mg_trace m' = mg_trace m"
    and "lane_step (metric_stage m) (mg_metric m, st) (if ok then Accepted q else Refused q) (mg_metric m', st')"
  using assms lane_step.submit [of "metric_stage m" q "mg_metric m"] lane_step.refuse [of "metric_stage m" q "mg_metric m"]
  by (auto simp: SubmitMetric_def split: sum.splits bool.splits prod.splits)

text \<open>Seen from either lane, a step of the manager is a step of that lane.\<close>

lemma manager_step_views:
  assumes "manager_step (m, st) ev (m', st')"
  shows "trace_stage m' = trace_stage m \<and> metric_stage m' = metric_stage m \<and>
    lane_step (trace_stage m) (mg_trace m, st) (trace_view ev) (mg_trace m', st') \<and>
    lane_step (metric_stage m) (mg_metric m, st) (metric_view ev) (mg_metric m', st')"
  using assms
proof (cases rule: manager_step.cases)
  case (submit_trace p ok)
  with SubmitTrace_cases [OF submit_trace(2)] show ?thesis by (simp add: lane_step.other)
next
  case (submit_metric q ok)
  with SubmitMetric_cases [OF submit_metric(2)] show ?thesis by (simp add: lane_step.other)
next
  case (trace_receive i p tln)
  then show ?thesis by (auto intro: lane_step.receive lane_step.other)
next
  case (metric_receive i q mln)
  then show ?thesis by (auto intro: lane_step.receive lane_step.other)
next
  case (trace_work j tev tln)
  then show ?thesis by (auto intro: lane_step.work lane_step.other)
next
  case (metric_work j mev mln)
  then show ?thesis by (auto intro: lane_step.work lane_step.other)
next
  case shutdown
  then show ?thesis
    by (auto simp: Shutdown_close_def trace_stage_def metric_stage_def intro: lane_step.close split: if_splits)
next
  case env
  then show ?thesis by (simp add: lane_step.other)
qed

lemma manager_run_views:
  assumes "manager_run (m, st) evs (m', st')"
  shows "trace_stage m' = trace_stage m \<and> metric_stage m' = metric_stage m \<and>
    lane_run (trace_stage m) (mg_trace m, st) (map trace_view evs) (mg_trace m', st') \<and>
    lane_run (metric_stage m) (mg_metric m, st) (map metric_view evs) (mg_metric m', st')"
  using assms
proof (induction evs "(m', st')" arbitrary: m' st' rule: manager_run.induct)
  case start
  then show ?case by (simp add: lane_run.nil)
next
  case (more evs s' ev)
  obtain m1 st1 where s': "s' = (m1, st1)" by fastforce
  with more have IH: "trace_stage m1 = trace_stage m" "metric_stage m1 = metric_stage m"
    "lane_run (trace_stage m) (mg_trace m, st) (map trace_view evs) (mg_trace m1, st1)"
    "lane_run (metric_stage m) (mg_metric m, st) (map metric_view evs) (mg_metric m1, st1)" by auto
  have "manager_step (m1, st1) ev (m', st')" using more s' by simp
  from manager_step_views [OF this] IH show ?case by (auto intro: lane_run.snoc)
qed

lemma hashToShard_bound: "0 < n \<Longrightarrow> hashToShard key n < n"
  by (simp add: hashToShard_def)

lemma traceShardIndex_bound: "0 < n \<Longrightarrow> traceShardIndex n p < n"
  by (auto simp: traceShardIndex_def hashToShard_bound split: option.splits list.splits)

lemma metricShardIndex_bound: "0 < n \<Longrightarrow> metricShardIndex n p < n"
  by (auto simp: metricShardIndex_def hashToShard_bound split: option.splits list.splits)

lemma NewManager_fields [simp]:
  "mg_shardCount (NewManager cfg tp mp te me) = shard_count cfg" "mg_cfg (NewManager cfg tp mp te me) = cfg"
  "mg_trace (NewManager cfg tp mp te me) = new_lane (shard_count cfg) (per_shard (pc_TraceQueueSize cfg) (shard_count cfg))"
  "mg_metric (NewManager cfg tp mp te me) = new_lane (shard_count cfg) (per_shard (pc_MetricQueueSize cfg) (shard_count cfg))"
  by (simp_all add: NewManager_def Let_def)

lemma counts_pos: "0 < shard_count cfg" "1 \<le> worker_count cfg" "0 < per_shard k n"
  by (auto simp: shard_count_def worker_count_def per_shard_def Let_def)

interpretation trace_lane: lane_system "trace_stage (NewManager cfg tp mp te me)" "shard_count cfg" for cfg tp mp te me
  by unfold_locales (simp_all add: traceShardIndex_bound counts_pos counts_pos(2) [unfolded One_nat_def])

interpretation metric_lane: lane_system "metric_stage (NewManager cfg tp mp te me)" "shard_count cfg" for cfg tp mp te me
  by unfold_locales (simp_all add: metricShardIndex_bound counts_pos counts_pos(2) [unfolded One_nat_def])

context lane_system
begin

lemma run_cap:
  assumes "lane_run g (l, st) evs (l', st')" and "lane_inv g n l"
  shows "ln_cap l' = ln_cap l \<and> lane_inv g n l'"
  using assms(1)
proof (induction evs "(l', st')" arbitrary: l' st' rule: lane_run.induct)
  case nil
  then show ?case using assms by simp
next
  case (snoc evs s' ev)
  obtain l1 st1 where s': "s' = (l1, st1)" by fastforce
  with snoc have l1: "ln_cap l1 = ln_cap l" "lane_inv g n l1" by auto
  have step: "lane_step g (l1, st1) ev (l', st')" using snoc s' by simp
  have "length (ln_queues l1) = n" using l1(2) by (simp add: lane_inv_def)
  then have "ln_cap l' = ln_cap l1" using step_change [OF step] by metis
  with l1 lane_inv_step [OF step] show ?case by simp
qed

lemma run_from_new:
  assumes "lane_run g (new_lane n cap, st) evs (l', st')"
  shows "lane_inv g n l'" and "ln_cap l' = cap" and "balanced evs l'" and "sg_workers g = 1 \<Longrightarrow> in_order evs l'"
  using run_inv [OF assms new_lane_ok(1,2)] run_cap [OF assms new_lane_ok(1)] run_in_order [OF assms new_lane_ok(1,3)]
  by (simp_all add: new_lane_def)

lemma shard_account:
  assumes "lane_run g (new_lane n cap, st) evs (l', st')" and "i < n"
  shows "mset (accepted_in g i evs) = mset (finished_in i evs) + mset (held i l') + mset (ln_queues l' ! i) \<and>
    length (ln_queues l' ! i) \<le> cap \<and> length (held i l') \<le> sg_workers g"
  using run_from_new [OF assms(1)] assms(2) by (auto simp: balanced_def lane_inv_def list_all_length)

lemma drained_account:
  assumes "lane_run g (new_lane n cap, st) evs (l', st')" and "lane_drained l'" and "i < n"
  shows "mset (accepted_in g i evs) = mset (finished_in i evs)"
proof -
  have "length (ln_queues l') = n" using run_from_new(1) [OF assms(1)] by (simp add: lane_inv_def)
  with assms(2,3) have "ln_queues l' ! i = []" "held i l' = []"
    by (simp_all add: lane_drained_def list_all_length held_def in_shard_def)
  with shard_account [OF assms(1,3)] show ?thesis by simp
qed

end

text \<open>A worker step of a lane is a step of the manager.\<close>

lemma trace_work_step:
  assumes "lane_step (trace_stage m) (mg_trace m, st) ev (l', st')" and "is_work ev"
  shows "\<exists>m' st''. manager_step (m, st) (TraceEv ev) (m', st'')"
  using assms(1)
proof (cases rule: lane_step.cases)
  case (receive i p)
  then show ?thesis using manager_step.trace_receive by fastforce
next
  case (work j)
  then show ?thesis using manager_step.trace_work by blast
qed (use assms(2) in \<open>simp_all add: is_work_def\<close>)

lemma metric_work_step:
  assumes "lane_step (metric_stage m) (mg_metric m, st) ev (l', st')" and "is_work ev"
  shows "\<exists>m' st''. manager_step (m, st) (MetricEv ev) (m', st'')"
  using assms(1)
proof (cases rule: lane_step.cases)
  case (receive i p)
  then show ?thesis using manager_step.metric_receive by fastforce
next
  case (work j)
  then show ?thesis using manager_step.metric_work by blast
qed (use assms(2) in \<open>simp_all add: is_work_def\<close>)

section \<open>Properties\<close>

text \<open>
  Property C22. Nothing is lost or duplicated inside the pipeline: under every interleaving
  of submissions and workers, what a shard has accepted is exactly what it has dropped or
  exported, what its workers hold and what its queue holds; a queue never exceeds its
  capacity and no more payloads are held than there are workers.
\<close>

theorem pipeline_conservation:
  assumes "m = NewManager cfg tprocs mprocs texp mexp" and "manager_run (m, st) evs (m', st')" and "i < shard_count cfg"
  shows "mset (accepted_in (trace_stage m) i (map trace_view evs)) =
      mset (finished_in i (map trace_view evs)) + mset (held i (mg_trace m')) + mset (ln_queues (mg_trace m') ! i) \<and>
    length (ln_queues (mg_trace m') ! i) \<le> per_shard (pc_TraceQueueSize cfg) (shard_count cfg) \<and>
    length (held i (mg_trace m')) \<le> worker_count cfg \<and>
    mset (accepted_in (metric_stage m) i (map metric_view evs)) =
      mset (finished_in i (map metric_view evs)) + mset (held i (mg_metric m')) + mset (ln_queues (mg_metric m') ! i) \<and>
    length (ln_queues (mg_metric m') ! i) \<le> per_shard (pc_MetricQueueSize cfg) (shard_count cfg) \<and>
    length (held i (mg_metric m')) \<le> worker_count cfg"
  using manager_run_views [OF assms(2)] trace_lane.shard_account [OF _ assms(3)] metric_lane.shard_account [OF _ assms(3)]
  unfolding assms(1) by fastforce

definition demo_pipe_cfg :: PipelineConfig where
  "demo_pipe_cfg = \<lparr>pc_TraceQueueSize = 4, pc_MetricQueueSize = 4, pc_Workers = 1, pc_ShardCount = 2\<rparr>"

definition demo_manager :: "TracePayload list Manager" where
  "demo_manager = NewManager demo_pipe_cfg [] []
     (Some (\<lambda>p st. (None, st\<lparr>ps_env := ps_env st @ [p]\<rparr>), \<lambda>st. (None, st))) None"

definition demo_pipe_state :: "TracePayload list pipe_state" where
  "demo_pipe_state = \<lparr>ps_metrics = OtelMetrics_zero, ps_env = []\<rparr>"

lemma demo_index: "traceShardIndex n (Some demo_trace) = 0"
  by (simp add: traceShardIndex_def demo_trace_def)

lemma demo_submit:
  obtains m' st' where "manager_run (demo_manager, demo_pipe_state) [TraceEv (Accepted demo_trace)] (m', st')"
    and "ln_queues (mg_trace m') = [[demo_trace], []]" and "ln_flights (mg_trace m') = []" and "trace_stage m' = trace_stage demo_manager"
    and "mg_cfg m' = demo_pipe_cfg" and "\<not> ln_closed (mg_trace m')" and "\<not> ln_closed (mg_metric m')"
proof -
  obtain m' st' where s: "SubmitTrace demo_trace demo_manager demo_pipe_state = (Inr True, m', st')"
    "ln_queues (mg_trace m') = [[demo_trace], []]" "ln_flights (mg_trace m') = []" "mg_cfg m' = demo_pipe_cfg" "\<not> ln_closed (mg_trace m')" "\<not> ln_closed (mg_metric m')"
    by (simp add: SubmitTrace_def demo_index lane_send_def demo_manager_def new_lane_def shard_count_def per_shard_def
        quot_def demo_pipe_cfg_def numeral_2_eq_2)
  have "manager_run (demo_manager, demo_pipe_state) ([] @ [TraceEv (if True then Accepted demo_trace else Refused demo_trace)]) (m', st')"
    by (rule manager_run.more [OF manager_run.start manager_step.submit_trace [OF s(1)]])
  with s SubmitTrace_cases(2) [OF s(1)] show thesis by (intro that) simp_all
qed

theorem pipeline_conservation_witness:
  "\<exists>m' st'. manager_run (demo_manager, demo_pipe_state) [TraceEv (Accepted demo_trace)] (m', st') \<and>
     {#demo_trace#} = mset (held 0 (mg_trace m')) + mset (ln_queues (mg_trace m') ! 0)"
proof -
  obtain m' st' where r: "manager_run (demo_manager, demo_pipe_state) [TraceEv (Accepted demo_trace)] (m', st')"
    using demo_submit by metis
  have "0 < shard_count demo_pipe_cfg" by (rule counts_pos)
  from pipeline_conservation [OF demo_manager_def r this] r show ?thesis by (auto simp: demo_index)
qed

text \<open>
  Property C24. With one worker per shard the order is kept: the payloads a shard has
  dropped or exported are the first it accepted, in the order in which it accepted them.
\<close>

theorem pipeline_fifo:
  assumes "m = NewManager cfg tprocs mprocs texp mexp" and "manager_run (m, st) evs (m', st')" and "i < shard_count cfg"
    and "pc_Workers cfg \<le> 1"
  shows "prefix (finished_in i (map trace_view evs)) (accepted_in (trace_stage m) i (map trace_view evs)) \<and>
    prefix (finished_in i (map metric_view evs)) (accepted_in (metric_stage m) i (map metric_view evs))"
proof -
  have one: "worker_count cfg = 1" using assms(4) by (simp add: worker_count_def)
  have t: "lane_run (trace_stage m) (mg_trace m, st) (map trace_view evs) (mg_trace m', st')"
    and q: "lane_run (metric_stage m) (mg_metric m, st) (map metric_view evs) (mg_metric m', st')"
    using manager_run_views [OF assms(2)] by simp_all
  show ?thesis
    using trace_lane.run_from_new(4) [OF t [unfolded assms(1) NewManager_fields]]
      metric_lane.run_from_new(4) [OF q [unfolded assms(1) NewManager_fields]] one assms(3)
    unfolding assms(1) trace_lane.in_order_def metric_lane.in_order_def by (auto simp: prefix_def)
qed

theorem pipeline_fifo_witness:
  "\<exists>m' st' evs. manager_run (demo_manager, demo_pipe_state) evs (m', st') \<and>
     prefix (finished_in 0 (map trace_view evs)) (accepted_in (trace_stage demo_manager) 0 (map trace_view evs)) \<and>
     finished_in 0 (map trace_view evs) = [demo_trace]"
proof -
  obtain m1 st1 where r1: "manager_run (demo_manager, demo_pipe_state) [TraceEv (Accepted demo_trace)] (m1, st1)"
    and q1: "ln_queues (mg_trace m1) = [[demo_trace], []]" "ln_flights (mg_trace m1) = []"
    and g1: "trace_stage m1 = trace_stage demo_manager" "mg_cfg m1 = demo_pipe_cfg" using demo_submit by metis
  obtain l2 where l2: "lane_receive (worker_count (mg_cfg m1)) 0 (mg_trace m1) = Some (demo_trace, l2)"
    and f2: "ln_flights l2 = [\<lparr>fl_shard = 0, fl_origin = demo_trace, fl_current = demo_trace, fl_next = 0\<rparr>]"
    using q1 g1(2) by (simp add: lane_receive_def in_shard_def worker_count_def demo_pipe_cfg_def)
  let ?m2 = "m1\<lparr>mg_trace := l2\<rparr>" let ?st2 = "updateDepth SignalTrace l2 st1"
  have r2: "manager_run (demo_manager, demo_pipe_state) ([TraceEv (Accepted demo_trace)] @ [TraceEv (Received demo_trace)]) (?m2, ?st2)"
    by (rule manager_run.more [OF r1 manager_step.trace_receive [OF l2]])
  have "sg_procs (trace_stage demo_manager) = []"
    "sg_exp (trace_stage demo_manager) = Some (\<lambda>p st. (None, st\<lparr>ps_env := ps_env st @ [p]\<rparr>))"
    by (simp_all add: trace_stage_def demo_manager_def NewManager_def Let_def)
  then obtain l3 st3 where "flight_step (trace_stage ?m2) 0 (mg_trace ?m2) ?st2 = Some (Exported 0 demo_trace demo_trace None, l3, st3)"
    using f2 by (simp add: flight_step_def g1(1))
  then have r3: "manager_run (demo_manager, demo_pipe_state)
      (([TraceEv (Accepted demo_trace)] @ [TraceEv (Received demo_trace)]) @ [TraceEv (Exported 0 demo_trace demo_trace None)]) (?m2\<lparr>mg_trace := l3\<rparr>, st3)"
    by (intro manager_run.more [OF r2] manager_step.trace_work)
  have "0 < shard_count demo_pipe_cfg" "pc_Workers demo_pipe_cfg \<le> 1" by (rule counts_pos) (simp add: demo_pipe_cfg_def)
  from pipeline_fifo [OF demo_manager_def r3 this] r3 show ?thesis by fastforce
qed

text \<open>
  Property C23. Shutdown drains: once the channels are closed the workers take at most
  \<open>work_left\<close> further steps on each side, whatever the processors and exporters return;
  while a side is not drained one of its workers can move; and when it is drained every
  payload its shards ever accepted has been dropped by a processor or handed to the
  exporter, exactly once.
\<close>

theorem pipeline_shutdown_drains:
  assumes "m = NewManager cfg tprocs mprocs texp mexp" and "manager_run (m, st) evs (m1, st1)"
    and "ln_closed (mg_trace m1)" and "ln_closed (mg_metric m1)" and "manager_run (m1, st1) evs' (m2, st2)"
  shows "length (filter is_work (map trace_view evs')) \<le> work_left (trace_stage m) (mg_trace m1) \<and>
    length (filter is_work (map metric_view evs')) \<le> work_left (metric_stage m) (mg_metric m1) \<and>
    (\<not> lane_drained (mg_trace m2) \<longrightarrow> (\<exists>ev s. is_work ev \<and> manager_step (m2, st2) (TraceEv ev) s)) \<and>
    (\<not> lane_drained (mg_metric m2) \<longrightarrow> (\<exists>ev s. is_work ev \<and> manager_step (m2, st2) (MetricEv ev) s)) \<and>
    (\<forall>i < shard_count cfg.
      (lane_drained (mg_trace m2) \<longrightarrow>
         mset (accepted_in (trace_stage m) i (map trace_view (evs @ evs'))) = mset (finished_in i (map trace_view (evs @ evs')))) \<and>
      (lane_drained (mg_metric m2) \<longrightarrow>
         mset (accepted_in (metric_stage m) i (map metric_view (evs @ evs'))) = mset (finished_in i (map metric_view (evs @ evs')))))"
proof -
  note v1 = manager_run_views [OF assms(2)] and v2 = manager_run_views [OF assms(5)] and v = manager_run_views [OF manager_run_append [OF assms(2,5)]]
  have t1: "lane_inv (trace_stage m) (shard_count cfg) (mg_trace m1)"
    and q1: "lane_inv (metric_stage m) (shard_count cfg) (mg_metric m1)"
    using v1 trace_lane.run_from_new(1) metric_lane.run_from_new(1) unfolding assms(1) NewManager_fields by blast+
  have t2: "lane_run (trace_stage m) (mg_trace m1, st1) (map trace_view evs') (mg_trace m2, st2)"
    and q2: "lane_run (metric_stage m) (mg_metric m1, st1) (map metric_view evs') (mg_metric m2, st2)"
    and g2: "trace_stage m2 = trace_stage m" "metric_stage m2 = metric_stage m" using v1 v2 by simp_all
  note tc = trace_lane.closed_run [OF t2 [unfolded assms(1)] t1 [unfolded assms(1)] assms(3)]
  note qc = metric_lane.closed_run [OF q2 [unfolded assms(1)] q1 [unfolded assms(1)] assms(4)]
  have "\<exists>ev s. is_work ev \<and> manager_step (m2, st2) (TraceEv ev) s" if nd: "\<not> lane_drained (mg_trace m2)"
  proof -
    obtain ev l' st' where "lane_step (trace_stage m) (mg_trace m2, st2) ev (l', st')" "is_work ev"
      using trace_lane.progress [OF _ _ nd] tc unfolding assms(1) by metis
    then show ?thesis using trace_work_step [of m2 st2 ev l' st'] g2(1) by auto
  qed
  moreover have "\<exists>ev s. is_work ev \<and> manager_step (m2, st2) (MetricEv ev) s" if nd: "\<not> lane_drained (mg_metric m2)"
  proof -
    obtain ev l' st' where "lane_step (metric_stage m) (mg_metric m2, st2) ev (l', st')" "is_work ev"
      using metric_lane.progress [OF _ _ nd] qc unfolding assms(1) by metis
    then show ?thesis using metric_work_step [of m2 st2 ev l' st'] g2(2) by auto
  qed
  moreover have "mset (accepted_in (trace_stage m) i (map trace_view (evs @ evs'))) = mset (finished_in i (map trace_view (evs @ evs')))"
    if "i < shard_count cfg" "lane_drained (mg_trace m2)" for i
    using v trace_lane.drained_account [OF _ that(2,1)] unfolding assms(1) NewManager_fields by blast
  moreover have "mset (accepted_in (metric_stage m) i (map metric_view (evs @ evs'))) = mset (finished_in i (map metric_view (evs @ evs')))"
    if "i < shard_count cfg" "lane_drained (mg_metric m2)" for i
    using v metric_lane.drained_account [OF _ that(2,1)] unfolding assms(1) NewManager_fields by blast
  ultimately show ?thesis using tc qc unfolding assms(1) by auto
qed

theorem pipeline_shutdown_drains_witness:
  "\<exists>m2 st2. manager_run (demo_manager, demo_pipe_state) ([TraceEv (Accepted demo_trace)] @ [ShutdownEv]) (m2, st2) \<and>
     (\<exists>ev s. is_work ev \<and> manager_step (m2, st2) (TraceEv ev) s)"
proof -
  obtain m1 st1 where r1: "manager_run (demo_manager, demo_pipe_state) [TraceEv (Accepted demo_trace)] (m1, st1)"
    and q1: "ln_queues (mg_trace m1) = [[demo_trace], []]" and "\<not> ln_closed (mg_trace m1)" "\<not> ln_closed (mg_metric m1)"
    using demo_submit by metis
  then obtain m2 where m2: "Shutdown_close m1 = Inr m2" "ln_closed (mg_trace m2)" "ln_closed (mg_metric m2)"
    "ln_queues (mg_trace m2) = [[demo_trace], []]" using q1 by (simp add: Shutdown_close_def)
  have r2: "manager_run (demo_manager, demo_pipe_state) ([TraceEv (Accepted demo_trace)] @ [ShutdownEv]) (m2, st1)"
    by (rule manager_run.more [OF r1 manager_step.shutdown [OF m2(1)]])
  have "\<not> lane_drained (mg_trace m2)" using m2(4) by (simp add: lane_drained_def)
  with pipeline_shutdown_drains [OF demo_manager_def r2 m2(2,3) manager_run.start]
  have "\<exists>ev s. is_work ev \<and> manager_step (m2, st1) (TraceEv ev) s" by blast
  with r2 show ?thesis by blast
qed

end
