(* ===== verification/Memory_Guard.thy ===== *)
theory Memory_Guard
  imports Processors
begin

text \<open>
  The memory limiter with its goroutine (\<^verbatim>\<open>internal/otelgateway/processor/memlimit\<close>): \<^verbatim>\<open>New\<close>
  starts a loop that reads the heap at every tick until \<^verbatim>\<open>Shutdown\<close> closes a channel. The
  callback that \<^verbatim>\<open>New\<close> is given is any function of the level, a state of its owner and the
  metrics: no code of the repository installs one. A run is a sequence of events, each of which
  must be possible where it happens.
\<close>

section \<open>The goroutine of the limiter\<close>

record 's Monitor =
  mo_limiter :: "'s Memlimit"
  mo_closed :: bool
  mo_exited :: bool

text \<open>The ticker panics in the new goroutine for an interval that is not positive.\<close>

definition Memlimit_Start ::
  "Memlimit_Config \<Rightarrow> (int \<Rightarrow> 's \<times> OtelMetrics \<Rightarrow> 's \<times> OtelMetrics) option \<Rightarrow> error + 's Monitor" where
  "Memlimit_Start cfg cb =
     (if ml_CheckInterval cfg \<le> 0 then Inl (GoPanic ''non-positive interval for NewTicker'')
      else Inr \<lparr>mo_limiter = Memlimit_New cfg cb, mo_closed = False, mo_exited = False\<rparr>)"

definition Memlimit_Shutdown :: "'s Monitor \<Rightarrow> error + 's Monitor" where
  "Memlimit_Shutdown mo =
     (if mo_closed mo then Inl (GoPanic ''close of closed channel'') else Inr (mo\<lparr>mo_closed := True\<rparr>))"

datatype monitor_event = HeapTick "64 word" | ShutdownCall | StopSeen

text \<open>With the channel closed a tick that is ready may still be taken before the loop returns.\<close>

fun monitor_do :: "monitor_event \<Rightarrow> 's Monitor \<times> 's \<times> OtelMetrics \<Rightarrow> ('s Monitor \<times> 's \<times> OtelMetrics) option" where
  "monitor_do (HeapTick heap) (mo, c) =
     (if mo_exited mo then None
      else (case monitor_tick heap (mo_limiter mo) c of (p, c') \<Rightarrow> Some (mo\<lparr>mo_limiter := p\<rparr>, c')))"
| "monitor_do ShutdownCall (mo, c) =
     (case Memlimit_Shutdown mo of Inl _ \<Rightarrow> None | Inr mo' \<Rightarrow> Some (mo', c))"
| "monitor_do StopSeen (mo, c) =
     (if mo_closed mo \<and> \<not> mo_exited mo then Some (mo\<lparr>mo_exited := True\<rparr>, c) else None)"

fun monitor_run :: "monitor_event list \<Rightarrow> 's Monitor \<times> 's \<times> OtelMetrics \<Rightarrow> ('s Monitor \<times> 's \<times> OtelMetrics) option" where
  "monitor_run [] c = Some c"
| "monitor_run (e # es) c = (case monitor_do e c of None \<Rightarrow> None | Some c1 \<Rightarrow> monitor_run es c1)"

section \<open>What the limiter has seen\<close>

text \<open>
  The specification: the heap sizes read in a run, the level the watermarks give to a size, and
  what one change of the level does to the gauge and, if there is one, through the callback.
\<close>

fun heaps_read :: "monitor_event list \<Rightarrow> 64 word list" where
  "heaps_read [] = []"
| "heaps_read (HeapTick heap # es) = heap # heaps_read es"
| "heaps_read (_ # es) = heaps_read es"

definition watermark_level :: "Memlimit_Config \<Rightarrow> 64 word \<Rightarrow> int" where
  "watermark_level cfg heap =
     (if unat heap \<ge> unat (ml_CriticalWatermarkMB cfg) * 2 ^ 20 then LevelCritical
      else if unat heap \<ge> unat (ml_HighWatermarkMB cfg) * 2 ^ 20 then LevelHigh else LevelNormal)"

definition announce ::
  "(int \<Rightarrow> 's \<times> OtelMetrics \<Rightarrow> 's \<times> OtelMetrics) option \<Rightarrow> int \<Rightarrow> 's \<times> OtelMetrics \<Rightarrow> 's \<times> OtelMetrics" where
  "announce cb l = (\<lambda>(s, om).
     case cb of None \<Rightarrow> (s, om\<lparr>om_DegradeMode := l\<rparr>) | Some f \<Rightarrow> f l (s, om\<lparr>om_DegradeMode := l\<rparr>))"

lemma monitor_tick_announce:
  "monitor_tick heap p c =
     (p\<lparr>mm_level := level_of (mm_cfg p) heap\<rparr>,
      if mm_level p = level_of (mm_cfg p) heap then c else announce (mm_onLevelChange p) (level_of (mm_cfg p) heap) c)"
  by (cases c) (simp add: monitor_tick_def announce_def Let_def split: option.splits)

text \<open>
  From a state with level \<open>l\<close> the run ends with the level of the last heap, having announced
  every level that differs from the one before it.
\<close>

lemma monitor_run_levels:
  assumes "monitor_run es (mo, c) = Some (mo', c')"
  shows "mm_level (mo_limiter mo') = last (mm_level (mo_limiter mo) # map (level_of (mm_cfg (mo_limiter mo))) (heaps_read es)) \<and>
    c' = fold (announce (mm_onLevelChange (mo_limiter mo)))
      (tl (remdups_adj (mm_level (mo_limiter mo) # map (level_of (mm_cfg (mo_limiter mo))) (heaps_read es)))) c"
  using assms
proof (induction es arbitrary: mo c)
  case (Cons e es)
  from Cons.prems obtain mo1 c1 where s: "monitor_do e (mo, c) = Some (mo1, c1)" "monitor_run es (mo1, c1) = Some (mo', c')"
    by (auto split: option.splits)
  note IH = Cons.IH [OF s(2)]
  show ?case
  proof (cases e)
    case (HeapTick heap)
    let ?l = "level_of (mm_cfg (mo_limiter mo)) heap"
    have "mo_limiter mo1 = mo_limiter mo\<lparr>mm_level := ?l\<rparr>"
      and "c1 = (if mm_level (mo_limiter mo) = ?l then c else announce (mm_onLevelChange (mo_limiter mo)) ?l c)"
      using s(1) by (auto simp: HeapTick monitor_tick_announce split: if_splits)
    then show ?thesis using IH by (auto simp: HeapTick remdups_adj_Cons' split: list.splits)
  next
    case ShutdownCall
    then have "mo_limiter mo1 = mo_limiter mo" "c1 = c" using s(1) by (auto simp: Memlimit_Shutdown_def split: if_splits)
    with IH ShutdownCall show ?thesis by simp
  next
    case StopSeen
    then have "mo_limiter mo1 = mo_limiter mo" "c1 = c" using s(1) by (auto split: if_splits)
    with IH StopSeen show ?thesis by simp
  qed
qed simp

text \<open>
  Property C28. The memory limiter follows the heap. After any number of ticks, whether
  \<^verbatim>\<open>Shutdown\<close> was called or not, its level is what the watermarks say of the heap last read, and
  normal before the first reading. The gauge is set and the callback runs once for every
  change of the level, in the order of the changes and with the new level, and never between.
  Traces and metrics are rejected at the critical level, and pass unchanged at the others. The
  watermarks are below 16 exbibytes, so that their number of bytes does not wrap around.
\<close>

theorem memlimit_follows_heap:
  assumes "unat (ml_HighWatermarkMB cfg) < 2 ^ 44" and "unat (ml_CriticalWatermarkMB cfg) < 2 ^ 44"
    and "Memlimit_Start cfg cb = Inr mo0" and "monitor_run es (mo0, s0, om0) = Some (mo, s, om)"
  shows "mm_level (mo_limiter mo) = last (LevelNormal # map (watermark_level cfg) (heaps_read es)) \<and>
    (s, om) = fold (announce cb) (tl (remdups_adj (LevelNormal # map (watermark_level cfg) (heaps_read es)))) (s0, om0) \<and>
    (if mm_level (mo_limiter mo) = LevelCritical
     then isl (fst (Memlimit_ProcessTraces (mo_limiter mo) tp om)) \<and> isl (fst (Memlimit_ProcessMetrics (mo_limiter mo) mp om))
     else Memlimit_ProcessTraces (mo_limiter mo) tp om = (Inr (Some tp), om) \<and>
       Memlimit_ProcessMetrics (mo_limiter mo) mp om = (Inr (Some mp), om))"
proof -
  have mo0: "mo_limiter mo0 = Memlimit_New cfg cb" using assms(3) by (auto simp: Memlimit_Start_def split: if_splits)
  have "level_of cfg = watermark_level cfg"
    using level_of_watermarks [OF assms(1,2)] by (simp add: fun_eq_iff watermark_level_def)
  then have "mm_level (mo_limiter mo) = last (LevelNormal # map (watermark_level cfg) (heaps_read es))"
    and "(s, om) = fold (announce cb) (tl (remdups_adj (LevelNormal # map (watermark_level cfg) (heaps_read es)))) (s0, om0)"
    using monitor_run_levels [OF assms(4)] by (simp_all add: mo0 Memlimit_New_def LevelNormal_def)
  then show ?thesis
    by (intro conjI) (assumption | cases "mm_level (mo_limiter mo) = LevelCritical"; simp add: Memlimit_rejects Memlimit_passes)+
qed

text \<open>A callback that keeps a list of the levels it is told: critical, then high.\<close>

theorem memlimit_follows_heap_witness:
  "\<exists>mo om. monitor_run [HeapTick 1, HeapTick 482344960, HeapTick 482344961, ShutdownCall, HeapTick 402653184, StopSeen]
      (\<lparr>mo_limiter = Memlimit_New Memlimit_DefaultConfig (Some (\<lambda>l (s, om). (s @ [l], om))), mo_closed = False, mo_exited = False\<rparr>,
       [], OtelMetrics_zero) = Some (mo, [LevelCritical, LevelHigh], om) \<and>
     mm_level (mo_limiter mo) = LevelHigh \<and> om_DegradeMode om = LevelHigh"
proof -
  let ?es = "[HeapTick 1, HeapTick 482344960, HeapTick 482344961, ShutdownCall, HeapTick 402653184, StopSeen]"
  let ?cb = "Some (\<lambda>l (s, om). (s @ [l], om)) :: (int \<Rightarrow> int list \<times> OtelMetrics \<Rightarrow> int list \<times> OtelMetrics) option"
  let ?mo = "\<lparr>mo_limiter = Memlimit_New Memlimit_DefaultConfig ?cb, mo_closed = False, mo_exited = False\<rparr>"
  have start: "Memlimit_Start Memlimit_DefaultConfig ?cb = Inr ?mo"
    by (simp add: Memlimit_Start_def Memlimit_DefaultConfig_def Second_def)
  obtain mo s om where r: "monitor_run ?es (?mo, [], OtelMetrics_zero) = Some (mo, s, om)"
    by (cases "monitor_run ?es (?mo, [], OtelMetrics_zero)") (auto simp: Memlimit_Shutdown_def split_beta)
  from memlimit_follows_heap [OF _ _ start r] r show ?thesis
    by (simp add: Memlimit_DefaultConfig_def watermark_level_def announce_def LevelHigh_def LevelNormal_def LevelCritical_def)
qed

end
