(* ===== verification/Benchmark.thy ===== *)
theory Benchmark
  imports Worker Float64
begin

text \<open>
  \<^verbatim>\<open>internal/benchmark\<close> with its two clients, \<^verbatim>\<open>internal/worker/benchmark_executor.go\<close> and
  \<^verbatim>\<open>cmd/benchctl\<close>: a load test that sends a number of chat requests through goroutines
  limited by a semaphore, the summary of its samples, and the reports. A goroutine is in one of
  three places, and a schedule says whose turn is next; the server is answered by a
  \<open>chat_server\<close>, any function of the request.
\<close>

section \<open>Rounding to integers\<close>

text \<open>\<^verbatim>\<open>math.Round\<close>: to the nearest integer, halves away from zero.\<close>

definition math_Round :: "rat \<Rightarrow> int" where
  "math_Round x = (if x < 0 then - \<lfloor>- x + 1 / 2\<rfloor> else \<lfloor>x + 1 / 2\<rfloor>)"

section \<open>Requests and samples\<close>

record Bench_Config =
  Bench_TargetURL :: string
  Bench_Endpoint :: string
  Bench_Model :: string
  Bench_Concurrency :: int
  Bench_TotalReqs :: int
  Bench_MaxTokens :: int
  Bench_Prompts :: "string list"

record chatMessage =
  Msg_Role :: string
  Msg_Content :: string

record chatRequest =
  Chat_Model :: string
  Chat_Messages :: "chatMessage list"
  Chat_MaxTokens :: int
  Chat_Temperature :: rat
  Chat_Stream :: bool

text \<open>The part of the response the program reads.\<close>

record chatResponse =
  Usage_PromptTokens :: int
  Usage_CompletionTokens :: int

record Sample =
  Sample_Index :: int
  Sample_LatencyMs :: rat
  Sample_TTFTMs :: go_float
  Sample_PromptTokens :: int
  Sample_OutputTokens :: int
  Sample_TokensPerSec :: rat
  Sample_Success :: bool
  Sample_Error :: string

text \<open>
  How a request ends: it cannot be built, the client fails after some time, or a response
  arrives with a status, the text of its body, what decoding the body gives, and the value of
  the header \<^verbatim>\<open>x-ttft-ms\<close> as text and as \<^verbatim>\<open>strconv.ParseFloat\<close> reads it.
\<close>

datatype http_outcome =
    BuildError string
  | DoError duration string
  | Answer duration int string "string + chatResponse" string go_float

type_synonym chat_server = "nat \<Rightarrow> string \<Rightarrow> chatRequest \<Rightarrow> http_outcome"

definition failedSample :: "int \<Rightarrow> duration \<Rightarrow> string \<Rightarrow> Sample" where
  "failedSample idx latency err =
     \<lparr>Sample_Index = idx, Sample_LatencyMs = f64 (of_int (quot latency 1000000)), Sample_TTFTMs = Fin 0,
      Sample_PromptTokens = 0, Sample_OutputTokens = 0, Sample_TokensPerSec = 0,
      Sample_Success = False, Sample_Error = err\<rparr>"

definition tokensPerSecond :: "int \<Rightarrow> duration \<Rightarrow> rat" where
  "tokensPerSecond tokens latency =
     (if latency \<le> 0 \<or> tokens \<le> 0 then 0 else f64 (f64 (of_int tokens) / Seconds latency))"

definition parseFloatHeader :: "string \<Rightarrow> go_float \<Rightarrow> go_float" where
  "parseFloatHeader val parsed = (if val = '''' then Fin 0 else parsed)"

definition chat_request :: "Bench_Config \<Rightarrow> string \<Rightarrow> chatRequest" where
  "chat_request cfg prompt =
     \<lparr>Chat_Model = Bench_Model cfg, Chat_Messages = [\<lparr>Msg_Role = ''user'', Msg_Content = prompt\<rparr>],
      Chat_MaxTokens = Bench_MaxTokens cfg, Chat_Temperature = f64 (7 / 10), Chat_Stream = False\<rparr>"

definition executeRequest :: "chat_server \<Rightarrow> Bench_Config \<Rightarrow> string \<Rightarrow> nat \<Rightarrow> Sample" where
  "executeRequest server cfg prompt idx =
     (case server idx (Bench_TargetURL cfg @ Bench_Endpoint cfg) (chat_request cfg prompt) of
        BuildError err \<Rightarrow> failedSample (int idx) 0 err
      | DoError latency err \<Rightarrow> failedSample (int idx) latency err
      | Answer latency status body decoded header parsed \<Rightarrow>
          if status \<noteq> 200 then failedSample (int idx) latency (''HTTP '' @ itoa status @ '': '' @ body)
          else (case decoded of
                  Inl err \<Rightarrow> failedSample (int idx) latency (''decode response: '' @ err)
                | Inr chatResp \<Rightarrow>
                    (let outputTokens = Usage_CompletionTokens chatResp
                     in \<lparr>Sample_Index = int idx, Sample_LatencyMs = f64 (of_int (quot latency 1000000)),
                         Sample_TTFTMs = parseFloatHeader header parsed,
                         Sample_PromptTokens = Usage_PromptTokens chatResp, Sample_OutputTokens = outputTokens,
                         Sample_TokensPerSec = tokensPerSecond outputTokens latency,
                         Sample_Success = True, Sample_Error = ''''\<rparr>)))"

definition validateConfig :: "Bench_Config \<Rightarrow> error option" where
  "validateConfig cfg =
     (if Bench_TargetURL cfg = '''' then Some (ErrorString ''target URL is required'')
      else if Bench_Concurrency cfg \<le> 0 then Some (ErrorString ''concurrency must be positive'')
      else if Bench_TotalReqs cfg \<le> 0 then Some (ErrorString ''total requests must be positive'')
      else if Bench_Prompts cfg = [] then Some (ErrorString ''at least one prompt is required'')
      else None)"

section \<open>The goroutines of a run\<close>

text \<open>
  Every request has a goroutine: it waits for the semaphore, then its request is in flight,
  then its sample is appended under the lock and its slot is given back. \<open>turn st i\<close> is what
  happens when goroutine \<open>i\<close> is scheduled; one that cannot acquire the semaphore stays where
  it is.
\<close>

record bench_run =
  br_waiting :: "nat list"
  br_flying :: "nat list"
  br_samples :: "Sample list"

definition run_start :: "Bench_Config \<Rightarrow> bench_run" where
  "run_start cfg = \<lparr>br_waiting = [0..<nat (Bench_TotalReqs cfg)], br_flying = [], br_samples = []\<rparr>"

definition request_sample :: "chat_server \<Rightarrow> Bench_Config \<Rightarrow> nat \<Rightarrow> Sample" where
  "request_sample server cfg i = executeRequest server cfg (Bench_Prompts cfg ! (i mod length (Bench_Prompts cfg))) i"

definition goroutine_turn :: "chat_server \<Rightarrow> Bench_Config \<Rightarrow> bench_run \<Rightarrow> nat \<Rightarrow> bench_run" where
  "goroutine_turn server cfg st i =
     (if i \<in> set (br_waiting st) \<and> int (length (br_flying st)) < Bench_Concurrency cfg then
        st\<lparr>br_waiting := remove1 i (br_waiting st), br_flying := br_flying st @ [i]\<rparr>
      else if i \<in> set (br_flying st) then
        st\<lparr>br_flying := remove1 i (br_flying st), br_samples := br_samples st @ [request_sample server cfg i]\<rparr>
      else st)"

text \<open>
  \<^verbatim>\<open>make([]Sample, 0, cfg.TotalReqs)\<close> panics when the samples, 72 bytes each, exceed the
  address space. \<open>None\<close> is a run that has not returned when the schedule ends.
\<close>

definition sample_cap_ok :: "int \<Rightarrow> bool" where
  "sample_cap_ok n \<longleftrightarrow> n * 72 \<le> 2 ^ 48"

definition Run :: "chat_server \<Rightarrow> nat list \<Rightarrow> Bench_Config \<Rightarrow> (error + Sample list) option" where
  "Run server schedule cfg =
     (case validateConfig cfg of
        Some err \<Rightarrow> Some (Inl err)
      | None \<Rightarrow>
          if \<not> sample_cap_ok (Bench_TotalReqs cfg) then
            Some (Inl (GoPanic ''runtime error: makeslice: cap out of range''))
          else
            (let st = foldl (goroutine_turn server cfg) (run_start cfg) schedule
             in if br_waiting st = [] \<and> br_flying st = [] then Some (Inr (br_samples st)) else None))"

section \<open>The summary\<close>

record Summary =
  Summary_TotalRequests :: int
  Summary_SuccessCount :: int
  Summary_ErrorCount :: int
  Summary_SuccessRate :: rat
  Summary_QPS :: rat
  Summary_P50LatencyMs :: rat
  Summary_P95LatencyMs :: rat
  Summary_P99LatencyMs :: rat
  Summary_AvgLatencyMs :: rat
  Summary_MinLatencyMs :: rat
  Summary_MaxLatencyMs :: rat
  Summary_AvgTTFTMs :: go_float
  Summary_AvgTokensSec :: rat
  Summary_RuntimeSec :: rat

definition round_to :: "rat \<Rightarrow> nat \<Rightarrow> rat" where
  "round_to val precision =
     (let pow = 10 ^ precision in f64 (of_int (math_Round (f64 (val * pow))) / pow))"

fun round_float :: "go_float \<Rightarrow> nat \<Rightarrow> go_float" where
  "round_float x precision =
     (let pow = 10 ^ precision
      in case fl_scale x pow of
           Fin v \<Rightarrow> Fin (f64 (of_int (math_Round v) / pow))
         | y \<Rightarrow> y)"

definition safeDiv :: "rat \<Rightarrow> rat \<Rightarrow> rat" where
  "safeDiv a b = (if b \<le> 0 then 0 else f64 (a / b))"

definition safeDiv_float :: "go_float \<Rightarrow> rat \<Rightarrow> go_float" where
  "safeDiv_float a b = (if b \<le> 0 then Fin 0 else fl_scale a (1 / b))"

text \<open>An index outside the slice is a panic.\<close>

definition percentile :: "rat list \<Rightarrow> rat \<Rightarrow> error + rat" where
  "percentile sorted_vals p =
     (if sorted_vals = [] then Inr 0
      else
        (let idx = f64 (p * f64 (of_int (int (length sorted_vals) - 1)));
             lower = \<lfloor>idx\<rfloor>; upper = \<lceil>idx\<rceil>
         in if lower < 0 \<or> int (length sorted_vals) \<le> upper then Inl (GoPanic ''runtime error: index out of range'')
            else if lower = upper then Inr (round_to (sorted_vals ! nat lower) 2)
            else
              (let frac = f64 (idx - of_int lower)
               in Inr (round_to (f64 (f64 (sorted_vals ! nat lower * f64 (1 - frac))
                                    + f64 (sorted_vals ! nat upper * frac))) 2))))"

definition minFloat :: "rat list \<Rightarrow> rat" where
  "minFloat vals = (if vals = [] then 0 else round_to (hd vals) 2)"

definition maxFloat :: "rat list \<Rightarrow> rat" where
  "maxFloat vals = (if vals = [] then 0 else round_to (last vals) 2)"

text \<open>The variables of the loop of \<^verbatim>\<open>Summarize\<close>.\<close>

record bench_sums =
  sum_success :: int
  sum_latencies :: "rat list"
  sum_latency :: rat
  sum_tps :: rat
  sum_ttft :: go_float
  sum_ttft_count :: int

definition sums_zero :: bench_sums where
  "sums_zero = \<lparr>sum_success = 0, sum_latencies = [], sum_latency = 0, sum_tps = 0, sum_ttft = Fin 0, sum_ttft_count = 0\<rparr>"

definition sums_add :: "bench_sums \<Rightarrow> Sample \<Rightarrow> bench_sums" where
  "sums_add a s =
     (if \<not> Sample_Success s then a
      else
        (let b = a\<lparr>sum_success := sum_success a + 1, sum_latencies := sum_latencies a @ [Sample_LatencyMs s],
                  sum_latency := f64 (sum_latency a + Sample_LatencyMs s), sum_tps := f64 (sum_tps a + Sample_TokensPerSec s)\<rparr>
         in if fl_positive (Sample_TTFTMs s)
            then b\<lparr>sum_ttft := fl_add (sum_ttft b) (Sample_TTFTMs s), sum_ttft_count := sum_ttft_count b + 1\<rparr>
            else b))"

definition empty_summary :: "rat \<Rightarrow> Summary" where
  "empty_summary runtimeSec =
     \<lparr>Summary_TotalRequests = 0, Summary_SuccessCount = 0, Summary_ErrorCount = 0, Summary_SuccessRate = 0,
      Summary_QPS = 0, Summary_P50LatencyMs = 0, Summary_P95LatencyMs = 0, Summary_P99LatencyMs = 0,
      Summary_AvgLatencyMs = 0, Summary_MinLatencyMs = 0, Summary_MaxLatencyMs = 0, Summary_AvgTTFTMs = Fin 0,
      Summary_AvgTokensSec = 0, Summary_RuntimeSec = runtimeSec\<rparr>"

definition Summarize :: "Sample list \<Rightarrow> rat \<Rightarrow> error + Summary" where
  "Summarize samples runtimeSec =
     (if samples = [] then Inr (empty_summary runtimeSec)
      else
        (let n = int (length samples);
             acc = foldl sums_add sums_zero samples;
             ok = sum_success acc;
             latencies = sort (sum_latencies acc)
         in case (percentile latencies (f64 (1 / 2)), percentile latencies (f64 (95 / 100)), percentile latencies (f64 (99 / 100))) of
              (Inr p50, Inr p95, Inr p99) \<Rightarrow>
                Inr \<lparr>Summary_TotalRequests = n, Summary_SuccessCount = ok, Summary_ErrorCount = n - ok,
                     Summary_SuccessRate = round_to (f64 (f64 (of_int ok) / f64 (of_int n))) 4,
                     Summary_QPS = round_to (safeDiv (f64 (of_int ok)) runtimeSec) 2,
                     Summary_P50LatencyMs = p50, Summary_P95LatencyMs = p95, Summary_P99LatencyMs = p99,
                     Summary_AvgLatencyMs = round_to (safeDiv (sum_latency acc) (f64 (of_int ok))) 2,
                     Summary_MinLatencyMs = minFloat latencies, Summary_MaxLatencyMs = maxFloat latencies,
                     Summary_AvgTTFTMs = round_float (safeDiv_float (sum_ttft acc) (f64 (of_int (sum_ttft_count acc)))) 2,
                     Summary_AvgTokensSec = round_to (safeDiv (sum_tps acc) (f64 (of_int ok))) 2,
                     Summary_RuntimeSec = round_to runtimeSec 3\<rparr>
            | _ \<Rightarrow> Inl (GoPanic ''runtime error: index out of range'')))"

section \<open>The executor of the platform\<close>

definition stringOrDefault :: "string \<Rightarrow> string \<Rightarrow> string" where
  "stringOrDefault val fallback = (if val = '''' then fallback else val)"

definition intOrDefault :: "string \<Rightarrow> int \<Rightarrow> int" where
  "intOrDefault val fallback =
     (if val = '''' then fallback
      else (case Sscanf_d '''' val of
              None \<Rightarrow> fallback
            | Some n \<Rightarrow> if n \<le> 0 then fallback else n))"

definition parseBenchmarkConfig :: "Job \<Rightarrow> error + Bench_Config" where
  "parseBenchmarkConfig job =
     (let meta = map_get (Job_Metadata job); target = meta ''bench_target''
      in if target = '''' then Inl (ErrorString (''metadata '' @ Quote ''bench_target'' @ '' is required''))
         else Inr \<lparr>Bench_TargetURL = target,
                   Bench_Endpoint = stringOrDefault (meta ''bench_endpoint'') ''/v1/chat/completions'',
                   Bench_Model = stringOrDefault (meta ''bench_model'') ''qwen2.5:1.5b'',
                   Bench_Concurrency = intOrDefault (meta ''bench_concurrency'') 5,
                   Bench_TotalReqs = intOrDefault (meta ''bench_total_reqs'') 20,
                   Bench_MaxTokens = intOrDefault (meta ''bench_max_tokens'') 64,
                   Bench_Prompts = Split CHR '';'' (stringOrDefault (meta ''bench_prompts'') ''Hello, tell me a joke'')\<rparr>)"

definition exitCodeFromSummary :: "Summary \<Rightarrow> int" where
  "exitCodeFromSummary s = (if Summary_ErrorCount s > 0 then 1 else 0)"

text \<open>
  \<^verbatim>\<open>encoding/json\<close> refuses infinities and not-a-number; the text of the other summaries is
  given by \<open>render\<close>. The executor drops the error, so the logs of a refused summary are empty.
\<close>

definition marshal_summary :: "(Summary \<Rightarrow> string) \<Rightarrow> Summary \<Rightarrow> string option" where
  "marshal_summary render s = (if fl_finite (Summary_AvgTTFTMs s) then Some (render s) else None)"

text \<open>
  What a run of the executor meets: the server, the schedule of the goroutines and the time it
  took. A panic (\<open>Inl\<close>) unwinds through the caller; \<open>None\<close> is a run that has not returned.
\<close>

record bench_host =
  bh_server :: chat_server
  bh_schedule :: "nat list"
  bh_runtime :: duration
  bh_render :: "Summary \<Rightarrow> string"

definition Benchmark_Execute :: "bench_host \<Rightarrow> Job \<Rightarrow> (error + Result \<times> error option) option" where
  "Benchmark_Execute h job =
     (case parseBenchmarkConfig job of
        Inl err \<Rightarrow> Some (Inr (empty_result\<lparr>Result_ExitCode := 1\<rparr>, Some (wrapf ''parse benchmark config'' err)))
      | Inr cfg \<Rightarrow>
          (case Run (bh_server h) (bh_schedule h) cfg of
             None \<Rightarrow> None
           | Some (Inl (GoPanic msg)) \<Rightarrow> Some (Inl (GoPanic msg))
           | Some (Inl err) \<Rightarrow>
               Some (Inr (empty_result\<lparr>Result_ExitCode := 1\<rparr>, Some (wrapf ''run benchmark'' err)))
           | Some (Inr samples) \<Rightarrow>
               (case Summarize samples (Seconds (bh_runtime h)) of
                  Inl panicked \<Rightarrow> Some (Inl panicked)
                | Inr summary \<Rightarrow>
                    (let resultJSON = (case marshal_summary (bh_render h) summary of None \<Rightarrow> '''' | Some text \<Rightarrow> text)
                     in Some (Inr (\<lparr>Result_Logs = resultJSON, Result_Manifest = '''',
                                    Result_ExitCode = exitCodeFromSummary summary\<rparr>, None))))))"

section \<open>Reports\<close>

record Report =
  Report_RunName :: string
  Report_Config :: Bench_Config
  Report_Summary :: Summary
  Report_Samples :: "Sample list"
  Report_Metadata :: "(string \<times> string) list"

text \<open>
  A disk answers \<^verbatim>\<open>os.MkdirAll\<close> and \<^verbatim>\<open>os.WriteFile\<close>: a file is written, or cannot be
  opened, or is left with the first bytes of its content.
\<close>

datatype write_outcome = Written | OpenFailed string | CutShort nat string

record report_disk =
  rd_mkdir :: "string \<Rightarrow> string option"
  rd_write :: "string \<Rightarrow> write_outcome"
  rd_files :: "string \<rightharpoonup> string"

definition WriteFile :: "report_disk \<Rightarrow> string \<Rightarrow> string \<Rightarrow> error option \<times> report_disk" where
  "WriteFile disk path content =
     (case rd_write disk path of
        Written \<Rightarrow> (None, disk\<lparr>rd_files := (rd_files disk)(path \<mapsto> content)\<rparr>)
      | OpenFailed err \<Rightarrow> (Some (ErrorString err), disk)
      | CutShort n err \<Rightarrow> (Some (ErrorString err), disk\<lparr>rd_files := (rd_files disk)(path \<mapsto> take n content)\<rparr>))"

text \<open>The float the encoder refuses first: the summary is printed before the samples.\<close>

fun fl_text :: "go_float \<Rightarrow> string" where
  "fl_text PInf = ''+Inf''"
| "fl_text NInf = ''-Inf''"
| "fl_text _ = ''NaN''"

definition refused_float :: "Report \<Rightarrow> go_float option" where
  "refused_float r =
     List.find (\<lambda>x. \<not> fl_finite x) (Summary_AvgTTFTMs (Report_Summary r) # map Sample_TTFTMs (Report_Samples r))"

definition writeJSON :: "(Report \<Rightarrow> string) \<Rightarrow> report_disk \<Rightarrow> string \<Rightarrow> Report \<Rightarrow> error option \<times> report_disk" where
  "writeJSON render disk path report =
     (case refused_float report of
        Some x \<Rightarrow> (Some (wrapf ''marshal report'' (ErrorString (''json: unsupported value: '' @ fl_text x))), disk)
      | None \<Rightarrow> WriteFile disk path (render report))"

text \<open>\<open>fmt_fixed p x\<close> is \<^verbatim>\<open>fmt.Sprintf("%.<p>f", x)\<close>: the exact value rounded to \<open>p\<close> decimals.\<close>

definition fmt_fixed :: "nat \<Rightarrow> rat \<Rightarrow> string" where
  "fmt_fixed p x =
     (let m = nat (round_half_even (\<bar>x\<bar> * 10 ^ p)); frac = utoa (m mod 10 ^ p)
      in (if x < 0 then ''-'' else '''') @ utoa (m div 10 ^ p) @ ''.'' @ replicate (p - length frac) CHR ''0'' @ frac)"

definition nl :: string where
  "nl = [char_of (10 :: nat)]"

definition table_row :: "string \<Rightarrow> string \<Rightarrow> string" where
  "table_row name val = ''| '' @ name @ '' | '' @ val @ '' |'' @ nl"

definition writeMarkdown :: "report_disk \<Rightarrow> string \<Rightarrow> Report \<Rightarrow> error option \<times> report_disk" where
  "writeMarkdown disk path r =
     (let cfg = Report_Config r; s = Report_Summary r;
          ms = (\<lambda>x. fmt_fixed 2 x @ '' ms'')
      in WriteFile disk path
          (''# Benchmark Report: '' @ Report_RunName r @ nl @ nl @
           ''## Configuration'' @ nl @ nl @
           table_row ''Parameter'' ''Value'' @ ''|---|---|'' @ nl @
           table_row ''Target'' (Bench_TargetURL cfg) @
           table_row ''Model'' (Bench_Model cfg) @
           table_row ''Concurrency'' (itoa (Bench_Concurrency cfg)) @
           table_row ''Total Requests'' (itoa (Bench_TotalReqs cfg)) @
           table_row ''Max Tokens'' (itoa (Bench_MaxTokens cfg)) @
           nl @ ''## Results'' @ nl @ nl @
           table_row ''Metric'' ''Value'' @ ''|---|---|'' @ nl @
           table_row ''QPS'' (fmt_fixed 2 (Summary_QPS s)) @
           table_row ''Success Rate'' (fmt_fixed 2 (f64 (Summary_SuccessRate s * 100)) @ ''%'') @
           table_row ''P50 Latency'' (ms (Summary_P50LatencyMs s)) @
           table_row ''P95 Latency'' (ms (Summary_P95LatencyMs s)) @
           table_row ''P99 Latency'' (ms (Summary_P99LatencyMs s)) @
           table_row ''Avg Latency'' (ms (Summary_AvgLatencyMs s)) @
           table_row ''Min Latency'' (ms (Summary_MinLatencyMs s)) @
           table_row ''Max Latency'' (ms (Summary_MaxLatencyMs s)) @
           table_row ''Avg Tokens/s'' (fmt_fixed 2 (Summary_AvgTokensSec s)) @
           table_row ''Runtime'' (fmt_fixed 3 (Summary_RuntimeSec s) @ '' s'')))"

text \<open>
  \<^verbatim>\<open>filepath.Join\<close> on a clean directory and a file name without slashes, which is what the
  command passes. The time of the report is text.
\<close>

definition report_path :: "string \<Rightarrow> string \<Rightarrow> string" where
  "report_path outputDir name = outputDir @ ''/'' @ name"

definition WriteReport ::
    "(Report \<Rightarrow> string) \<Rightarrow> string \<Rightarrow> report_disk \<Rightarrow> string \<Rightarrow> string \<Rightarrow> Bench_Config \<Rightarrow> Summary \<Rightarrow> Sample list \<Rightarrow>
     (string \<times> string \<times> error option) \<times> report_disk" where
  "WriteReport render generated_at disk outputDir runName cfg summary samples =
     (case rd_mkdir disk outputDir of
        Some err \<Rightarrow> (('''', '''', Some (wrapf ''create output dir'' (ErrorString err))), disk)
      | None \<Rightarrow>
          (let report = \<lparr>Report_RunName = runName, Report_Config = cfg, Report_Summary = summary, Report_Samples = samples,
                 Report_Metadata = [(''generated_at'', generated_at), (''target_url'', Bench_TargetURL cfg), (''model'', Bench_Model cfg)]\<rparr>;
               jsonPath = report_path outputDir (runName @ ''.json'');
               mdPath = report_path outputDir (runName @ ''.md'')
           in case writeJSON render disk jsonPath report of
                (Some err, disk1) \<Rightarrow> (('''', '''', Some err), disk1)
              | (None, disk1) \<Rightarrow>
                  (case writeMarkdown disk1 mdPath report of
                     (Some err, disk2) \<Rightarrow> ((jsonPath, '''', Some err), disk2)
                   | (None, disk2) \<Rightarrow> ((jsonPath, mdPath, None), disk2))))"

section \<open>The command\<close>

definition printSummary :: "Summary \<Rightarrow> string" where
  "printSummary s =
     nl @ ''=== Benchmark Results ==='' @ nl @
     ''  QPS:            '' @ fmt_fixed 2 (Summary_QPS s) @ nl @
     ''  Success Rate:   '' @ fmt_fixed 2 (f64 (Summary_SuccessRate s * 100)) @ ''%'' @ nl @
     ''  P50 Latency:    '' @ fmt_fixed 2 (Summary_P50LatencyMs s) @ '' ms'' @ nl @
     ''  P95 Latency:    '' @ fmt_fixed 2 (Summary_P95LatencyMs s) @ '' ms'' @ nl @
     ''  P99 Latency:    '' @ fmt_fixed 2 (Summary_P99LatencyMs s) @ '' ms'' @ nl @
     ''  Avg Tokens/s:   '' @ fmt_fixed 2 (Summary_AvgTokensSec s) @ nl @
     ''  Runtime:        '' @ fmt_fixed 3 (Summary_RuntimeSec s) @ '' s'' @ nl @
     ''========================='' @ nl @ nl"

definition benchctl_exitCode :: "Summary \<Rightarrow> int" where
  "benchctl_exitCode s = (if Summary_ErrorCount s > 0 then 1 else 0)"

text \<open>The flags of the command line after parsing, each with its default.\<close>

record bench_flags =
  flag_target :: "string option"
  flag_endpoint :: "string option"
  flag_model :: "string option"
  flag_concurrency :: "int option"
  flag_total :: "int option"
  flag_max_tokens :: "int option"
  flag_prompts :: "string option"

definition flag_or :: "'a option \<Rightarrow> 'a \<Rightarrow> 'a" where
  "flag_or given fallback = (case given of None \<Rightarrow> fallback | Some v \<Rightarrow> v)"

definition parseFlags :: "bench_flags \<Rightarrow> Bench_Config" where
  "parseFlags fl =
     \<lparr>Bench_TargetURL = flag_or (flag_target fl) ''http://localhost:11434'',
      Bench_Endpoint = flag_or (flag_endpoint fl) ''/v1/chat/completions'',
      Bench_Model = flag_or (flag_model fl) ''qwen2.5:1.5b'',
      Bench_Concurrency = flag_or (flag_concurrency fl) 5,
      Bench_TotalReqs = flag_or (flag_total fl) 20,
      Bench_MaxTokens = flag_or (flag_max_tokens fl) 64,
      Bench_Prompts = Split CHR '';'' (flag_or (flag_prompts fl)
        ''Hello, tell me a joke;What is AI?;Explain Go concurrency'')\<rparr>"

text \<open>
  The exit status, what is printed and the disk afterwards; \<open>stamp\<close> is the time in the name of
  the report. A panic ends the process with status 2.
\<close>

definition benchctl_run ::
    "bench_host \<Rightarrow> (Report \<Rightarrow> string) \<Rightarrow> string \<Rightarrow> string \<Rightarrow> bench_flags \<Rightarrow> report_disk \<Rightarrow> (int \<times> string \<times> report_disk) option" where
  "benchctl_run h render stamp generated_at fl disk =
     (let cfg = parseFlags fl
      in case Run (bh_server h) (bh_schedule h) cfg of
           None \<Rightarrow> None
         | Some (Inl (GoPanic _)) \<Rightarrow> Some (2, '''', disk)
         | Some (Inl _) \<Rightarrow> Some (1, '''', disk)
         | Some (Inr samples) \<Rightarrow>
             (case Summarize samples (Seconds (bh_runtime h)) of
                Inl _ \<Rightarrow> Some (2, '''', disk)
              | Inr summary \<Rightarrow>
                  (case WriteReport render generated_at disk ''reports/generated'' (''bench_'' @ stamp) cfg summary samples of
                     ((_, _, Some _), disk1) \<Rightarrow> Some (1, printSummary summary, disk1)
                   | ((_, _, None), disk1) \<Rightarrow> Some (benchctl_exitCode summary, printSummary summary, disk1))))"

section \<open>Runs\<close>

text \<open>
  A goroutine that is scheduled either changes nothing or brings the run one step closer to its
  end, so a schedule in which everybody keeps getting a turn finishes.
\<close>

definition run_work :: "bench_run \<Rightarrow> nat" where
  "run_work st = 2 * length (br_waiting st) + length (br_flying st)"

definition run_inv :: "chat_server \<Rightarrow> Bench_Config \<Rightarrow> bench_run \<Rightarrow> bool" where
  "run_inv server cfg st \<longleftrightarrow>
     length (br_flying st) \<le> nat (Bench_Concurrency cfg) \<and>
     (\<exists>fin. br_samples st = map (request_sample server cfg) fin \<and>
        mset (br_waiting st @ br_flying st @ fin) = mset [0..<nat (Bench_TotalReqs cfg)])"

lemma mset_remove1_add: "i \<in> set xs \<Longrightarrow> add_mset i (mset (remove1 i xs)) = mset xs"
  by simp

lemma turn_cases:
  obtains (acquire) "i \<in> set (br_waiting st)" "int (length (br_flying st)) < Bench_Concurrency cfg"
      "goroutine_turn server cfg st i =
         st\<lparr>br_waiting := remove1 i (br_waiting st), br_flying := br_flying st @ [i]\<rparr>"
    | (finish) "i \<in> set (br_flying st)"
      "goroutine_turn server cfg st i =
         st\<lparr>br_flying := remove1 i (br_flying st), br_samples := br_samples st @ [request_sample server cfg i]\<rparr>"
    | (blocked) "goroutine_turn server cfg st i = st"
  unfolding goroutine_turn_def by metis

lemma turn_inv: "run_inv server cfg st \<Longrightarrow> run_inv server cfg (goroutine_turn server cfg st i)"
proof -
  assume inv: "run_inv server cfg st"
  then obtain fin where fin: "br_samples st = map (request_sample server cfg) fin"
      "mset (br_waiting st @ br_flying st @ fin) = mset [0..<nat (Bench_TotalReqs cfg)]"
    by (auto simp: run_inv_def)
  show ?thesis
  proof (cases rule: turn_cases [of i st cfg server])
    case acquire
    have "mset (remove1 i (br_waiting st) @ (br_flying st @ [i]) @ fin) = mset (br_waiting st @ br_flying st @ fin)"
      using mset_remove1_add [OF acquire(1)] by (simp del: mset_remove1)
    with acquire fin show ?thesis
      by (simp add: run_inv_def) (auto intro!: exI [of _ fin])
  next
    case finish
    have "mset (br_waiting st @ remove1 i (br_flying st) @ (fin @ [i])) = mset (br_waiting st @ br_flying st @ fin)"
      using mset_remove1_add [OF finish(1)] by (simp del: mset_remove1)
    moreover have "length (remove1 i (br_flying st)) \<le> nat (Bench_Concurrency cfg)"
      using inv finish(1) by (auto simp: run_inv_def length_remove1)
    ultimately show ?thesis
      using finish fin by (simp add: run_inv_def) (auto intro!: exI [of _ "fin @ [i]"])
  qed (use inv in simp)
qed

lemma run_start_inv: "run_inv server cfg (run_start cfg)"
  by (simp add: run_inv_def run_start_def)

lemma schedule_inv: "run_inv server cfg st \<Longrightarrow> run_inv server cfg (foldl (goroutine_turn server cfg) st schedule)"
  by (induction schedule arbitrary: st) (simp_all add: turn_inv)

lemma turn_work:
  "goroutine_turn server cfg st i = st \<or> run_work (goroutine_turn server cfg st i) < run_work st"
proof (cases rule: turn_cases [of i st cfg server])
  case acquire
  then have "length (br_waiting st) = Suc (length (remove1 i (br_waiting st)))"
    by (metis One_nat_def Suc_pred length_pos_if_in_set length_remove1)
  with acquire show ?thesis by (simp add: run_work_def del: length_remove1)
next
  case finish
  then have "0 < length (br_flying st)" by (auto dest: length_pos_if_in_set)
  with finish show ?thesis by (simp add: run_work_def length_remove1)
qed simp

lemma schedule_work: "run_work (foldl (goroutine_turn server cfg) st schedule) \<le> run_work st"
proof (induction schedule arbitrary: st)
  case (Cons i rest)
  show ?case using Cons [of "goroutine_turn server cfg st i"] turn_work [of server cfg st i] by auto
qed simp

lemma schedule_progress:
  "i \<in> set schedule \<Longrightarrow> goroutine_turn server cfg st i \<noteq> st \<Longrightarrow>
   run_work (foldl (goroutine_turn server cfg) st schedule) < run_work st"
proof (induction schedule arbitrary: st)
  case (Cons j js)
  show ?case
  proof (cases "goroutine_turn server cfg st j = st")
    case True
    with Cons show ?thesis by auto
  next
    case False
    then have "run_work (goroutine_turn server cfg st j) < run_work st" using turn_work by blast
    then show ?thesis using schedule_work [of server cfg "goroutine_turn server cfg st j" js] by simp
  qed
qed simp

lemma run_inv_members:
  assumes "run_inv server cfg st" and "i \<in> set (br_waiting st) \<or> i \<in> set (br_flying st)"
  shows "i < nat (Bench_TotalReqs cfg)"
proof -
  from assms obtain fin where "mset (br_waiting st @ br_flying st @ fin) = mset [0..<nat (Bench_TotalReqs cfg)]"
    by (auto simp: run_inv_def)
  then have "set (br_waiting st @ br_flying st @ fin) = {0..<nat (Bench_TotalReqs cfg)}"
    by (metis mset_eq_setD set_upt)
  with assms(2) show ?thesis by auto
qed

lemma run_inv_disjoint:
  assumes "run_inv server cfg st" and "i \<in> set (br_flying st)"
  shows "i \<notin> set (br_waiting st)"
proof -
  from assms obtain fin where "mset (br_waiting st @ br_flying st @ fin) = mset [0..<nat (Bench_TotalReqs cfg)]"
    by (auto simp: run_inv_def)
  then have "distinct (br_waiting st @ br_flying st @ fin)"
    by (metis distinct_upt mset_eq_imp_distinct_iff)
  with assms(2) show ?thesis by auto
qed

lemma unfinished_turn:
  assumes "run_inv server cfg st" and "0 < Bench_Concurrency cfg" and "br_waiting st \<noteq> [] \<or> br_flying st \<noteq> []"
  obtains i where "i < nat (Bench_TotalReqs cfg)" and "goroutine_turn server cfg st i \<noteq> st"
proof (cases "br_flying st")
  case Nil
  with assms(3) obtain i where i: "i \<in> set (br_waiting st)" by (cases "br_waiting st") auto
  have "br_flying (goroutine_turn server cfg st i) \<noteq> br_flying st"
    using i assms(2) Nil by (simp add: goroutine_turn_def)
  then have "goroutine_turn server cfg st i \<noteq> st" by auto
  with run_inv_members [OF assms(1)] i show thesis by (intro that) simp_all
next
  case (Cons i rest)
  then have i: "i \<in> set (br_flying st)" by simp
  with run_inv_disjoint [OF assms(1)] have "i \<notin> set (br_waiting st)" by blast
  with i have "br_samples (goroutine_turn server cfg st i) \<noteq> br_samples st"
    by (simp add: goroutine_turn_def)
  then have "goroutine_turn server cfg st i \<noteq> st" by auto
  with run_inv_members [OF assms(1)] i show thesis by (intro that) simp_all
qed

lemma fair_rounds:
  assumes "0 < Bench_Concurrency cfg" and "run_inv server cfg st" and "run_work st \<le> length rounds"
    and "\<forall>r \<in> set rounds. {0..<nat (Bench_TotalReqs cfg)} \<subseteq> set r"
  shows "run_work (foldl (goroutine_turn server cfg) st (concat rounds)) = 0"
  using assms(2-)
proof (induction rounds arbitrary: st)
  case (Cons r rounds)
  let ?st = "foldl (goroutine_turn server cfg) st r"
  have inv: "run_inv server cfg ?st" using Cons.prems(1) by (rule schedule_inv)
  have "run_work ?st \<le> length rounds"
  proof (cases "run_work st = 0")
    case True
    then show ?thesis using schedule_work [of server cfg st r] by simp
  next
    case False
    then have "br_waiting st \<noteq> [] \<or> br_flying st \<noteq> []" by (auto simp: run_work_def)
    then obtain i where "i < nat (Bench_TotalReqs cfg)" "goroutine_turn server cfg st i \<noteq> st"
      using unfinished_turn [OF Cons.prems(1) assms(1)] by blast
    then have "run_work ?st < run_work st" using Cons.prems(3) by (intro schedule_progress) auto
    with Cons.prems(2) show ?thesis by simp
  qed
  with Cons.IH [OF inv] Cons.prems(3) show ?case by simp
qed simp

lemma Run_valid:
  assumes "validateConfig cfg = None" and "sample_cap_ok (Bench_TotalReqs cfg)"
  shows "Run server schedule cfg =
     (let st = foldl (goroutine_turn server cfg) (run_start cfg) schedule
      in if run_work st = 0 then Some (Inr (br_samples st)) else None)"
  using assms by (simp add: Run_def Let_def run_work_def)

lemma Run_samples:
  assumes "Run server schedule cfg = Some (Inr samples)"
  shows "mset samples = mset (map (request_sample server cfg) [0..<nat (Bench_TotalReqs cfg)])"
proof -
  let ?st = "foldl (goroutine_turn server cfg) (run_start cfg) schedule"
  from assms have "br_waiting ?st = []" "br_flying ?st = []" "samples = br_samples ?st"
    by (auto simp: Run_def Let_def split: option.splits if_splits)
  then show ?thesis using schedule_inv [OF run_start_inv, of server cfg schedule]
    by (auto simp: run_inv_def)
qed

lemma validateConfig_None:
  "validateConfig cfg = None \<longleftrightarrow> Bench_TargetURL cfg \<noteq> '''' \<and> 0 < Bench_Concurrency cfg \<and>
     0 < Bench_TotalReqs cfg \<and> Bench_Prompts cfg \<noteq> []"
  by (auto simp: validateConfig_def)

section \<open>Summaries\<close>

definition ok_latencies :: "Sample list \<Rightarrow> rat list" where
  "ok_latencies samples = map Sample_LatencyMs (filter Sample_Success samples)"

lemma sums_success: "sum_success (foldl sums_add a xs) = sum_success a + int (length (filter Sample_Success xs))"
  by (induction xs arbitrary: a) (simp_all add: sums_add_def Let_def)

lemma sums_latencies: "sum_latencies (foldl sums_add a xs) = sum_latencies a @ ok_latencies xs"
  by (induction xs arbitrary: a) (simp_all add: sums_add_def ok_latencies_def Let_def)

text \<open>Whole milliseconds add up without rounding as long as the total is below \<open>2 ^ 53\<close>.\<close>

definition whole_latencies :: "Sample list \<Rightarrow> bool" where
  "whole_latencies samples \<longleftrightarrow> list_all (\<lambda>q. q \<in> \<nat>) (ok_latencies samples) \<and> sum_list (ok_latencies samples) < 2 ^ 53"

lemma sum_Nats: "list_all (\<lambda>q. q \<in> \<nat>) qs \<Longrightarrow> sum_list (qs :: rat list) \<in> \<nat>"
  by (induction qs) auto

lemma f64_nat: "q \<in> \<nat> \<Longrightarrow> q < 2 ^ 53 \<Longrightarrow> f64 q = q"
proof -
  assume "q \<in> \<nat>" and lt: "q < 2 ^ 53"
  then obtain n where n: "q = of_nat n" by (auto elim: Nats_cases)
  with lt have "(of_nat n :: rat) < of_nat (2 ^ 53)" by simp
  then have "n < 2 ^ 53" by (simp only: of_nat_less_iff)
  then show ?thesis using f64_of_int [of "int n"] n by simp
qed

lemma sums_latency:
  assumes "list_all (\<lambda>q. q \<in> \<nat>) (ok_latencies xs)" and "sum_latency a \<in> \<nat>"
    and "sum_latency a + sum_list (ok_latencies xs) < 2 ^ 53"
  shows "sum_latency (foldl sums_add a xs) = sum_latency a + sum_list (ok_latencies xs)"
  using assms
proof (induction xs arbitrary: a)
  case (Cons s xs)
  show ?case
  proof (cases "Sample_Success s")
    case True
    have rest: "list_all (\<lambda>q. q \<in> \<nat>) (ok_latencies xs)" and s: "Sample_LatencyMs s \<in> \<nat>"
      and lt: "sum_latency a + (Sample_LatencyMs s + sum_list (ok_latencies xs)) < 2 ^ 53"
      using Cons.prems True by (simp_all add: ok_latencies_def)
    have "0 \<le> sum_list (ok_latencies xs)"
      using sum_Nats [OF rest] by (auto elim: Nats_cases)
    with lt have "f64 (sum_latency a + Sample_LatencyMs s) = sum_latency a + Sample_LatencyMs s"
      using Cons.prems(2) s by (intro f64_nat) simp_all
    then have step: "sum_latency (sums_add a s) = sum_latency a + Sample_LatencyMs s"
      using True by (simp add: sums_add_def Let_def)
    show ?thesis
      using Cons.IH [of "sums_add a s"] rest s lt Cons.prems(2) True
      by (simp add: step ok_latencies_def add.assoc)
  next
    case False
    then have "ok_latencies (s # xs) = ok_latencies xs" "sums_add a s = a"
      by (simp_all add: ok_latencies_def sums_add_def)
    with Cons show ?thesis by simp
  qed
qed (simp add: ok_latencies_def)

lemma percentile_Inr:
  assumes "int (length xs) < 2 ^ 53" and "0 \<le> p" and "p \<le> 1"
  shows "\<exists>v. percentile xs p = Inr v"
proof (cases "xs = []")
  case False
  define n where "n = int (length xs) - 1"
  have n: "0 \<le> n" "n < 2 ^ 53" using False assms(1) by (simp_all add: n_def Suc_le_eq)
  then have fn: "f64 (of_int n) = of_int n" by (intro f64_of_int) simp
  have "0 \<le> f64 (p * of_int n)" using assms(2) n by (intro f64_nonneg) simp
  moreover have "f64 (p * of_int n) \<le> of_int n"
    using assms n by (intro f64_le_f64) (simp_all add: mult_left_le_one_le is_f64_def fn)
  ultimately have "0 \<le> \<lfloor>f64 (p * of_int n)\<rfloor>" "\<lceil>f64 (p * of_int n)\<rceil> \<le> n"
    by (simp_all add: ceiling_le_iff)
  then have "\<not> \<lfloor>f64 (p * of_int n)\<rfloor> < 0" "\<not> int (length xs) \<le> \<lceil>f64 (p * of_int n)\<rceil>"
    by (simp_all add: n_def)
  then show ?thesis using False fn by (simp add: percentile_def Let_def n_def)
qed (simp add: percentile_def)

lemma percentile_grades:
  "0 \<le> f64 (1 / 2)" "f64 (1 / 2) \<le> 1" "0 \<le> f64 (95 / 100)" "f64 (95 / 100) \<le> 1" "0 \<le> f64 (99 / 100)" "f64 (99 / 100) \<le> 1"
  using f64_of_int [of 1] by (auto intro!: f64_nonneg f64_le_f64 simp: is_f64_def)

text \<open>
  The summary without the averages over rounded sums, which depend on the order of the samples,
  and without the two fields that depend on the time the run took.
\<close>

definition summary_core :: "Summary \<Rightarrow> Summary" where
  "summary_core s = s\<lparr>Summary_QPS := 0, Summary_AvgTTFTMs := Fin 0, Summary_AvgTokensSec := 0, Summary_RuntimeSec := 0\<rparr>"

text \<open>The rest of the summary, as a function of how often the samples occur.\<close>

definition core_of :: "Sample list \<Rightarrow> Summary" where
  "core_of samples =
     (let lat = sort (ok_latencies samples); n = int (length samples); ok = int (length (filter Sample_Success samples))
      in \<lparr>Summary_TotalRequests = n, Summary_SuccessCount = ok, Summary_ErrorCount = n - ok,
          Summary_SuccessRate = round_to (f64 (f64 (of_int ok) / f64 (of_int n))) 4,
          Summary_QPS = 0,
          Summary_P50LatencyMs = projr (percentile lat (f64 (1 / 2))),
          Summary_P95LatencyMs = projr (percentile lat (f64 (95 / 100))),
          Summary_P99LatencyMs = projr (percentile lat (f64 (99 / 100))),
          Summary_AvgLatencyMs = round_to (safeDiv (sum_list (ok_latencies samples)) (f64 (of_int ok))) 2,
          Summary_MinLatencyMs = minFloat lat, Summary_MaxLatencyMs = maxFloat lat,
          Summary_AvgTTFTMs = Fin 0, Summary_AvgTokensSec = 0, Summary_RuntimeSec = 0\<rparr>)"

text \<open>The two fields that depend on the runtime: successes per second and the seconds, rounded.\<close>

definition timing_of :: "Sample list \<Rightarrow> rat \<Rightarrow> Summary \<Rightarrow> bool" where
  "timing_of samples r s \<longleftrightarrow>
     Summary_QPS s = round_to (safeDiv (f64 (of_int (int (length (filter Sample_Success samples))))) r) 2 \<and>
     Summary_RuntimeSec s = round_to r 3"

lemma Summarize_core:
  assumes "samples \<noteq> []" and "int (length samples) < 2 ^ 53" and "whole_latencies samples"
  shows "\<exists>s. Summarize samples r = Inr s \<and> summary_core s = core_of samples \<and> timing_of samples r s"
proof -
  let ?acc = "foldl sums_add sums_zero samples"
  let ?lat = "sort (ok_latencies samples)"
  have acc: "sum_success ?acc = int (length (filter Sample_Success samples))" "sum_latencies ?acc = ok_latencies samples"
    by (simp_all add: sums_success sums_latencies sums_zero_def)
  have sum: "sum_latency ?acc = sum_list (ok_latencies samples)"
    using sums_latency [of samples sums_zero] assms(3) by (simp add: whole_latencies_def sums_zero_def)
  have "int (length ?lat) \<le> int (length samples)" by (simp add: ok_latencies_def)
  then have len: "int (length ?lat) < 2 ^ 53" using assms(2) by linarith
  obtain a b c where p: "percentile ?lat (f64 (1 / 2)) = Inr a" "percentile ?lat (f64 (95 / 100)) = Inr b"
      "percentile ?lat (f64 (99 / 100)) = Inr c"
    using percentile_Inr [OF len percentile_grades(1,2)] percentile_Inr [OF len percentile_grades(3,4)]
      percentile_Inr [OF len percentile_grades(5,6)] by blast
  show ?thesis
    unfolding Summarize_def core_of_def summary_core_def timing_of_def Let_def acc sum p using assms(1)
    by (simp only: if_False sum.case prod.case sum.sel) (intro exI conjI, rule refl, (simp only: Summary.simps)+)
qed

lemma core_counts:
  assumes "summary_core s = core_of xs"
  shows "Summary_TotalRequests s = int (length xs)"
    "Summary_SuccessCount s = int (length (filter Sample_Success xs))"
    "Summary_ErrorCount s = int (length xs) - int (length (filter Sample_Success xs))"
  using arg_cong [OF assms, of Summary_TotalRequests] arg_cong [OF assms, of Summary_SuccessCount]
    arg_cong [OF assms, of Summary_ErrorCount]
  by (simp_all add: summary_core_def core_of_def Let_def)

lemma ok_latencies_perm:
  assumes "mset xs = mset ys"
  shows "mset (ok_latencies xs) = mset (ok_latencies ys)" "sort (ok_latencies xs) = sort (ok_latencies ys)"
    "sum_list (ok_latencies xs) = sum_list (ok_latencies ys)"
    "length (filter Sample_Success xs) = length (filter Sample_Success ys)" "length xs = length ys"
proof -
  have f: "mset (filter Sample_Success xs) = mset (filter Sample_Success ys)" using assms by simp
  then show m: "mset (ok_latencies xs) = mset (ok_latencies ys)" by (simp add: ok_latencies_def)
  then show "sort (ok_latencies xs) = sort (ok_latencies ys)" "sum_list (ok_latencies xs) = sum_list (ok_latencies ys)"
    by (metis sorted_list_of_multiset_mset) (metis m sum_mset_sum_list)
  show "length (filter Sample_Success xs) = length (filter Sample_Success ys)" using f by (metis size_mset)
  show "length xs = length ys" using assms by (metis size_mset)
qed

lemma whole_latencies_perm: "mset xs = mset ys \<Longrightarrow> whole_latencies xs \<Longrightarrow> whole_latencies ys"
  using ok_latencies_perm [of xs ys] by (metis list_all_iff mset_eq_setD whole_latencies_def)

lemma Summarize_perm:
  assumes "mset xs = mset ys" and "xs \<noteq> []" and "int (length xs) < 2 ^ 53" and "whole_latencies xs"
  shows "\<exists>s t. Summarize xs r1 = Inr s \<and> Summarize ys r2 = Inr t \<and> summary_core s = summary_core t \<and>
     timing_of xs r1 s \<and> timing_of xs r2 t \<and>
     Summary_TotalRequests s = int (length xs) \<and>
     Summary_SuccessCount s = int (length (filter Sample_Success xs)) \<and>
     Summary_ErrorCount s = int (length xs) - int (length (filter Sample_Success xs))"
proof -
  note perm = ok_latencies_perm [OF assms(1)]
  have "ys \<noteq> []" "int (length ys) < 2 ^ 53" using assms(1-3) perm(5) by auto
  from Summarize_core [OF this whole_latencies_perm [OF assms(1,4)], of r2]
  obtain t where t: "Summarize ys r2 = Inr t" "summary_core t = core_of ys" "timing_of ys r2 t" by blast
  obtain s where s: "Summarize xs r1 = Inr s" "summary_core s = core_of xs" "timing_of xs r1 s"
    using Summarize_core [OF assms(2-4), of r1] by blast
  have "core_of xs = core_of ys" "timing_of xs r2 t = timing_of ys r2 t" unfolding core_of_def timing_of_def perm by simp_all
  with s t show ?thesis using core_counts [OF s(2)] by metis
qed

lemma all_success_iff: "length (filter P xs) = length xs \<longleftrightarrow> list_all P xs"
  by (induction xs) (auto simp: le_imp_less_Suc order_less_imp_not_eq)

text \<open>The request as the executor sees it: an error count of zero is the exit code zero.\<close>

lemma exit_codes:
  assumes "Summary_ErrorCount s = int (length xs) - int (length (filter Sample_Success xs))"
  shows "exitCodeFromSummary s = (if list_all Sample_Success xs then 0 else 1)"
    and "benchctl_exitCode s = exitCodeFromSummary s"
proof -
  have "length (filter Sample_Success xs) = length xs \<or> length (filter Sample_Success xs) < length xs"
    using length_filter_le [of Sample_Success xs] by linarith
  then show "exitCodeFromSummary s = (if list_all Sample_Success xs then 0 else 1)"
    using assms all_success_iff [of Sample_Success xs] by (auto simp: exitCodeFromSummary_def)
  show "benchctl_exitCode s = exitCodeFromSummary s"
    by (simp add: benchctl_exitCode_def exitCodeFromSummary_def)
qed

lemma Run_Inr_valid:
  assumes "Run server schedule cfg = Some (Inr samples)"
  shows "validateConfig cfg = None" and "sample_cap_ok (Bench_TotalReqs cfg)"
  using assms by (auto simp: Run_def split: option.splits if_splits)

lemma Run_summaries:
  assumes "Run server sched1 cfg = Some (Inr xs)" and "Run server sched2 cfg = Some (Inr ys)" and "whole_latencies xs"
  shows "\<exists>s t. Summarize xs r1 = Inr s \<and> Summarize ys r2 = Inr t \<and> summary_core s = summary_core t \<and>
     timing_of xs r1 s \<and> timing_of xs r2 t \<and> int (length xs) = Bench_TotalReqs cfg \<and>
     Summary_TotalRequests s = int (length xs) \<and>
     Summary_SuccessCount s = int (length (filter Sample_Success xs)) \<and>
     Summary_ErrorCount s = int (length xs) - int (length (filter Sample_Success xs))"
proof -
  note valid = Run_Inr_valid [OF assms(1)]
  have perm: "mset xs = mset ys" using Run_samples assms(1,2) by metis
  have n: "0 < Bench_TotalReqs cfg" using valid(1) by (simp add: validateConfig_None)
  have "length xs = nat (Bench_TotalReqs cfg)"
    using arg_cong [OF Run_samples [OF assms(1)], of size] by simp
  with n have len: "int (length xs) = Bench_TotalReqs cfg" by simp
  with valid(2) have "int (length xs) < 2 ^ 53" by (simp add: sample_cap_ok_def)
  moreover from len n have "xs \<noteq> []" by auto
  ultimately show ?thesis using Summarize_perm [OF perm _ _ assms(3), of r1 r2] len by blast
qed

text \<open>
  An executor that behaves like the load test breaks the contract the other executors keep: it
  reports an exit code of one and no error, so the platform records the failed load test as a
  success.
\<close>

lemma Benchmark_Execute_failures:
  assumes "parseBenchmarkConfig job = Inr cfg" and "Run (bh_server h) (bh_schedule h) cfg = Some (Inr samples)"
    and "whole_latencies samples" and "\<not> list_all Sample_Success samples"
  shows "\<exists>res. Benchmark_Execute h job = Some (Inr (res, None)) \<and> Result_ExitCode res = 1"
proof -
  obtain s where s: "Summarize samples (Seconds (bh_runtime h)) = Inr s"
      "Summary_ErrorCount s = int (length samples) - int (length (filter Sample_Success samples))"
    using Run_summaries [OF assms(2,2,3), of "Seconds (bh_runtime h)" "Seconds (bh_runtime h)"] by blast
  from exit_codes(1) [OF s(2)] assms(4) have "exitCodeFromSummary s = 1" by simp
  then show ?thesis using assms(1,2) s(1) by (simp add: Benchmark_Execute_def)
qed

lemma benchmark_breaks_contract:
  assumes "parseBenchmarkConfig job = Inr cfg" and "Run (bh_server h) (bh_schedule h) cfg = Some (Inr samples)"
    and "whole_latencies samples" and "\<not> list_all Sample_Success samples"
    and "Benchmark_Execute h job = Some (Inr (execute n job))"
  shows "\<not> executor_contract execute"
  using Benchmark_Execute_failures [OF assms(1-4)] assms(5) executor_contract.success_code [of execute n job]
  by fastforce

section \<open>An example\<close>

text \<open>Two requests through one slot; the server answers in 5 ms and in 7 ms.\<close>

definition demo_bench :: Bench_Config where
  "demo_bench = \<lparr>Bench_TargetURL = ''http://llm'', Bench_Endpoint = ''/v1'', Bench_Model = ''m'', Bench_Concurrency = 1,
     Bench_TotalReqs = 2, Bench_MaxTokens = 8, Bench_Prompts = [''hi'']\<rparr>"

definition demo_server :: chat_server where
  "demo_server i url req =
     (if i = 0 then Answer 5000000 200 '''' (Inr \<lparr>Usage_PromptTokens = 1, Usage_CompletionTokens = 0\<rparr>) '''' (Fin 0)
      else Answer 7000000 503 ''busy'' (Inl '''') '''' (Fin 0))"

lemma demo_bench_fields: "Bench_TotalReqs demo_bench = 2" "Bench_Concurrency demo_bench = 1"
  by (simp_all add: demo_bench_def)

lemma demo_bench_valid: "validateConfig demo_bench = None" "sample_cap_ok (Bench_TotalReqs demo_bench)"
  by (simp_all add: validateConfig_def demo_bench_def sample_cap_ok_def)

lemma demo_runs:
  "Run demo_server [0, 1, 0, 1, 1] demo_bench = Some (Inr [request_sample demo_server demo_bench 0, request_sample demo_server demo_bench 1])"
  "Run demo_server [1, 0, 1, 0, 0] demo_bench = Some (Inr [request_sample demo_server demo_bench 1, request_sample demo_server demo_bench 0])"
  using demo_bench_valid
  by (simp_all add: Run_def goroutine_turn_def run_start_def demo_bench_def upt_conv_Cons)

lemma demo_samples:
  "Sample_Success (request_sample demo_server demo_bench 0)" "\<not> Sample_Success (request_sample demo_server demo_bench (Suc 0))"
  "Sample_LatencyMs (request_sample demo_server demo_bench 0) = 5"
  using f64_of_int [of 5] by (simp_all add: request_sample_def executeRequest_def demo_server_def failedSample_def quot_def Let_def)

lemma demo_whole: "whole_latencies [request_sample demo_server demo_bench 0, request_sample demo_server demo_bench 1]"
  by (simp add: whole_latencies_def ok_latencies_def demo_samples)

section \<open>Properties\<close>

text \<open>
  Property C34. A load test with a valid configuration whose samples fit into the address space
  never has more requests in flight than its concurrency, under any schedule of its goroutines;
  when it returns, it returns the sample of every request exactly once; and it does return as
  soon as every goroutine has had a turn in twice as many rounds as there are requests.
\<close>

theorem benchmark_run:
  assumes "validateConfig cfg = None" and "sample_cap_ok (Bench_TotalReqs cfg)"
  shows "int (length (br_flying (foldl (goroutine_turn server cfg) (run_start cfg) schedule))) \<le> Bench_Concurrency cfg \<and>
     (\<forall>res. Run server schedule cfg = Some res \<longrightarrow>
        (\<exists>samples. res = Inr samples \<and>
           mset samples = mset (map (request_sample server cfg) [0..<nat (Bench_TotalReqs cfg)]))) \<and>
     (\<forall>rounds. 2 * nat (Bench_TotalReqs cfg) \<le> length rounds \<longrightarrow>
        (\<forall>r \<in> set rounds. {0..<nat (Bench_TotalReqs cfg)} \<subseteq> set r) \<longrightarrow>
        (\<exists>samples. Run server (concat rounds) cfg = Some (Inr samples)))"
proof (intro conjI allI impI)
  show "int (length (br_flying (foldl (goroutine_turn server cfg) (run_start cfg) schedule))) \<le> Bench_Concurrency cfg"
    using schedule_inv [OF run_start_inv, of server cfg schedule] assms(1)
    by (auto simp: run_inv_def validateConfig_None)
next
  fix res
  assume "Run server schedule cfg = Some res"
  then show "\<exists>samples. res = Inr samples \<and>
      mset samples = mset (map (request_sample server cfg) [0..<nat (Bench_TotalReqs cfg)])"
    using Run_valid [OF assms, of server schedule] Run_samples [of server schedule cfg]
    by (auto simp: Let_def split: if_splits)
next
  fix rounds :: "nat list list"
  assume "2 * nat (Bench_TotalReqs cfg) \<le> length rounds"
    and "\<forall>r \<in> set rounds. {0..<nat (Bench_TotalReqs cfg)} \<subseteq> set r"
  then have "run_work (foldl (goroutine_turn server cfg) (run_start cfg) (concat rounds)) = 0"
    using assms(1) by (intro fair_rounds run_start_inv) (auto simp: validateConfig_None run_work_def run_start_def)
  then show "\<exists>samples. Run server (concat rounds) cfg = Some (Inr samples)"
    by (simp add: Run_valid [OF assms])
qed

theorem benchmark_run_witness:
  "validateConfig demo_bench = None \<and> sample_cap_ok (Bench_TotalReqs demo_bench) \<and>
   length (br_flying (foldl (goroutine_turn demo_server demo_bench) (run_start demo_bench) [0, 1])) \<le> 1 \<and>
   (\<exists>samples. Run demo_server (concat [[0, 1], [0, 1], [0, 1], [0, 1]]) demo_bench = Some (Inr samples))"
proof -
  define rounds where "rounds = [[0, 1], [0, 1], [0, 1], [0, 1 :: nat]]"
  have "2 * nat (Bench_TotalReqs demo_bench) \<le> length rounds"
    and "\<forall>r \<in> set rounds. {0..<nat (Bench_TotalReqs demo_bench)} \<subseteq> set r"
    by (auto simp: rounds_def demo_bench_fields)
  with benchmark_run [OF demo_bench_valid, of demo_server "[]"]
  have "\<exists>samples. Run demo_server (concat rounds) demo_bench = Some (Inr samples)" by blast
  moreover have "int (length (br_flying (foldl (goroutine_turn demo_server demo_bench) (run_start demo_bench) [0, 1]))) \<le> 1"
    using benchmark_run [OF demo_bench_valid, of demo_server "[0, 1]"] by (simp add: demo_bench_fields)
  ultimately show ?thesis using demo_bench_valid by (simp add: rounds_def)
qed

text \<open>
  Property C35. The summary of a load test depends on how its goroutines were scheduled only
  through the time the run took. Two runs that return, against a server that answers each
  request in the same way, have summaries with the same counts, success rate, percentiles,
  extremes and mean latency, provided the latencies are whole milliseconds that add up to less
  than 2 to the 53; requests per second and runtime are those of each run's own time. Only the
  averages of the tokens per second and of the time to the first token, sums that round at
  every step, can depend on the order. The counts are those of the samples and the exit code is
  zero exactly when every request succeeded.
\<close>

theorem benchmark_schedule_independent:
  assumes "Run server sched1 cfg = Some (Inr xs)" and "Run server sched2 cfg = Some (Inr ys)" and "whole_latencies xs"
  shows "\<exists>s t. Summarize xs r1 = Inr s \<and> Summarize ys r2 = Inr t \<and> summary_core s = summary_core t \<and>
     timing_of xs r1 s \<and> timing_of xs r2 t \<and>
     Summary_TotalRequests s = Bench_TotalReqs cfg \<and>
     Summary_SuccessCount s = int (length (filter Sample_Success xs)) \<and>
     Summary_ErrorCount s = Bench_TotalReqs cfg - int (length (filter Sample_Success xs)) \<and>
     exitCodeFromSummary s = (if list_all Sample_Success xs then 0 else 1) \<and>
     benchctl_exitCode t = exitCodeFromSummary s"
proof -
  obtain s t where st: "Summarize xs r1 = Inr s" "Summarize ys r2 = Inr t" "summary_core s = summary_core t"
      "timing_of xs r1 s" "timing_of xs r2 t" "int (length xs) = Bench_TotalReqs cfg"
      "Summary_TotalRequests s = int (length xs)" "Summary_SuccessCount s = int (length (filter Sample_Success xs))"
      "Summary_ErrorCount s = int (length xs) - int (length (filter Sample_Success xs))"
    using Run_summaries [OF assms, of r1 r2] by blast
  have "Summary_ErrorCount t = Summary_ErrorCount s"
    using arg_cong [OF st(3), of Summary_ErrorCount] by (simp add: summary_core_def)
  then have "benchctl_exitCode t = exitCodeFromSummary s"
    by (simp add: benchctl_exitCode_def exitCodeFromSummary_def)
  with st exit_codes(1) [OF st(9)] show ?thesis by auto
qed

theorem benchmark_schedule_independent_witness:
  "\<exists>s t. Summarize [request_sample demo_server demo_bench 0, request_sample demo_server demo_bench 1] 1 = Inr s \<and>
     Summarize [request_sample demo_server demo_bench 1, request_sample demo_server demo_bench 0] 2 = Inr t \<and>
     summary_core s = summary_core t \<and> Summary_SuccessCount s = 1 \<and> Summary_ErrorCount s = 1 \<and> benchctl_exitCode t = 1"
  using benchmark_schedule_independent [OF demo_runs demo_whole, of 1 2]
  by (elim exE conjE, intro exI conjI) (assumption | simp add: demo_samples demo_bench_fields)+

section \<open>The executor in the registry\<close>

text \<open>
  A fair scheduler lets every goroutine have its turns, so the run comes to its end after
  whatever the host's schedule did first; \<open>None\<close> would be a run in which no goroutine can go on.
\<close>

definition fair_rest :: "Job \<Rightarrow> nat list" where
  "fair_rest job =
     (case parseBenchmarkConfig job of
        Inl _ \<Rightarrow> []
      | Inr cfg \<Rightarrow> concat (replicate (2 * nat (Bench_TotalReqs cfg)) [0..<nat (Bench_TotalReqs cfg)]))"

definition fair_host :: "bench_host \<Rightarrow> Job \<Rightarrow> bench_host" where
  "fair_host h job = h\<lparr>bh_schedule := bh_schedule h @ fair_rest job\<rparr>"

definition BenchmarkExecutor :: "(nat \<Rightarrow> bench_host) \<Rightarrow> Executor" where
  "BenchmarkExecutor hosts =
     \<lparr>Executor_Name = ''benchmark'',
      Execute = (\<lambda>n job.
        case Benchmark_Execute (fair_host (hosts n) job) job of
          None \<Rightarrow> (empty_result, Some (GoPanic ''all goroutines are asleep - deadlock!''))
        | Some (Inl panicked) \<Rightarrow> (empty_result, Some panicked)
        | Some (Inr out) \<Rightarrow> out)\<rparr>"

lemma run_inv_work: "run_inv server cfg st \<Longrightarrow> run_work st \<le> 2 * nat (Bench_TotalReqs cfg)"
proof -
  assume "run_inv server cfg st"
  then obtain fin where "mset (br_waiting st @ br_flying st @ fin) = mset [0..<nat (Bench_TotalReqs cfg)]"
    by (auto simp: run_inv_def)
  from arg_cong [OF this, of size] have "length (br_waiting st) + length (br_flying st) \<le> nat (Bench_TotalReqs cfg)"
    unfolding size_mset by simp
  then show ?thesis by (simp add: run_work_def)
qed

lemma fair_run_returns:
  assumes "parseBenchmarkConfig job = Inr cfg"
  shows "Run (bh_server h) (bh_schedule (fair_host h job)) cfg \<noteq> None"
proof (cases "validateConfig cfg = None \<and> sample_cap_ok (Bench_TotalReqs cfg)")
  case True
  let ?rounds = "replicate (2 * nat (Bench_TotalReqs cfg)) [0..<nat (Bench_TotalReqs cfg)]"
  let ?st = "foldl (goroutine_turn (bh_server h) cfg) (run_start cfg) (bh_schedule h)"
  have inv: "run_inv (bh_server h) cfg ?st" by (rule schedule_inv [OF run_start_inv])
  then have "run_work ?st \<le> length ?rounds" using run_inv_work [OF inv] by simp
  then have "run_work (foldl (goroutine_turn (bh_server h) cfg) ?st (concat ?rounds)) = 0"
    using True by (intro fair_rounds inv) (auto simp: validateConfig_None)
  with True assms show ?thesis by (simp add: Run_valid fair_host_def fair_rest_def)
next
  case False
  then show ?thesis by (auto simp: Run_def split: option.splits)
qed


lemma Benchmark_Execute_returns: "Benchmark_Execute (fair_host h job) job \<noteq> None"
proof (cases "parseBenchmarkConfig job")
  case (Inr cfg)
  have "bh_server (fair_host h job) = bh_server h" by (simp add: fair_host_def)
  with fair_run_returns [OF Inr, of h] Inr show ?thesis
    by (auto simp: Benchmark_Execute_def Let_def split: option.splits sum.splits error.splits)
qed (simp add: Benchmark_Execute_def)

lemma BenchmarkExecutor_panics:
  assumes "parseBenchmarkConfig job = Inr cfg" and "validateConfig cfg = None" and "\<not> sample_cap_ok (Bench_TotalReqs cfg)"
  shows "Execute (BenchmarkExecutor hosts) n job =
    (empty_result, Some (GoPanic ''runtime error: makeslice: cap out of range''))"
  using assms by (simp add: BenchmarkExecutor_def Benchmark_Execute_def Run_def)

text \<open>The node a job is assigned to is no part of its benchmark.\<close>

lemma parseBenchmarkConfig_cong:
  assumes "\<And>k. k \<noteq> ''assigned_node'' \<Longrightarrow> map_get (Job_Metadata job') k = map_get (Job_Metadata job) k"
  shows "parseBenchmarkConfig job' = parseBenchmarkConfig job"
  using assms by (simp add: parseBenchmarkConfig_def Let_def)

end
