(* ===== verification/Mysql.thy ===== *)
theory Mysql
  imports Store Json
begin

text \<open>
  \<^verbatim>\<open>internal/store/mysql\<close> and the stubs of \<^verbatim>\<open>internal/store/redis\<close>. The database is an
  argument: the record \<open>sql\<close> has one field for every statement the store sends, and the
  locale \<open>mysql_server\<close> says what a server promises about them. A JSON column holds a
  document, not its text; \<^verbatim>\<open>encoding/json\<close> is modelled between Go values and documents. A
  status column holds a status, since only this program writes it. \<open>Mysql_Tables\<close> shows the
  promises for tables with the columns of \<^verbatim>\<open>migrations/001_init.sql\<close>.
\<close>

section \<open>Documents\<close>

definition marshal_spec :: "ResourceSpec \<Rightarrow> json" where
  "marshal_spec spec =
     JObject [(''cpu'', JString (Spec_CPU spec)), (''memory'', JString (Spec_Memory spec)),
              (''gpu'', JInt (Spec_GPU spec)), (''gpu_memory'', JString (Spec_GPUMemory spec))]"

definition marshal_strings :: "string list \<Rightarrow> json" where
  "marshal_strings xs = JArray (map JString xs)"

text \<open>The keys of a map are printed in order; a nil map is \<^verbatim>\<open>null\<close>.\<close>

definition marshal_map :: "str_map \<Rightarrow> json" where
  "marshal_map m =
     (case m of
        None \<Rightarrow> JNull
      | Some kvs \<Rightarrow> JObject (map (\<lambda>(k, v). (k, JString v)) (sort_slice (\<lambda>a b. str_less (fst a) (fst b)) kvs)))"

definition type_error :: error where
  "type_error = ErrorString ''json: cannot unmarshal value''"

text \<open>\<^verbatim>\<open>null\<close> leaves the zero value of a string, a number or a slice.\<close>

definition unmarshal_string :: "json \<Rightarrow> error + string" where
  "unmarshal_string v = (case v of JString s \<Rightarrow> Inr s | JNull \<Rightarrow> Inr '''' | _ \<Rightarrow> Inl type_error)"

definition unmarshal_int :: "json \<Rightarrow> error + int" where
  "unmarshal_int v =
     (case v of JInt z \<Rightarrow> (if is_i64 z then Inr z else Inl type_error) | JNull \<Rightarrow> Inr 0 | _ \<Rightarrow> Inl type_error)"

fun traverse :: "('a \<Rightarrow> error + 'b) \<Rightarrow> 'a list \<Rightarrow> error + 'b list" where
  "traverse f [] = Inr []"
| "traverse f (x # xs) =
     (case f x of
        Inl err \<Rightarrow> Inl err
      | Inr y \<Rightarrow> (case traverse f xs of Inl err \<Rightarrow> Inl err | Inr ys \<Rightarrow> Inr (y # ys)))"

definition unmarshal_strings :: "json \<Rightarrow> error + string list" where
  "unmarshal_strings v =
     (case v of JArray vs \<Rightarrow> traverse unmarshal_string vs | JNull \<Rightarrow> Inr [] | _ \<Rightarrow> Inl type_error)"

definition unmarshal_entry :: "string \<times> json \<Rightarrow> error + (string \<times> string)" where
  "unmarshal_entry e = (case unmarshal_string (snd e) of Inl err \<Rightarrow> Inl err | Inr s \<Rightarrow> Inr (fst e, s))"

text \<open>Into an empty map: the entries one after the other; \<^verbatim>\<open>null\<close> makes it nil.\<close>

definition unmarshal_map :: "json \<Rightarrow> error + str_map" where
  "unmarshal_map v =
     (case v of
        JObject kvs \<Rightarrow>
          (case traverse unmarshal_entry kvs of
             Inl err \<Rightarrow> Inl err
           | Inr entries \<Rightarrow> Inr (Some (foldl (\<lambda>m (k, s). AList.update k s m) [] entries)))
      | JNull \<Rightarrow> Inr None
      | _ \<Rightarrow> Inl type_error)"

text \<open>A field is set by the last key that equals its name up to the case of letters.\<close>

definition fold_case :: "string \<Rightarrow> string" where
  "fold_case s = map (\<lambda>c. if 65 \<le> (of_char c :: nat) \<and> (of_char c :: nat) \<le> 90 then char_of ((of_char c :: nat) + 32) else c) s"

definition json_field :: "(string \<times> json) list \<Rightarrow> string \<Rightarrow> json" where
  "json_field kvs name = (case List.find (\<lambda>e. fold_case (fst e) = name) (rev kvs) of None \<Rightarrow> JNull | Some e \<Rightarrow> snd e)"

definition unmarshal_spec :: "json \<Rightarrow> error + ResourceSpec" where
  "unmarshal_spec v =
     (let decode = (\<lambda>kvs.
        (case (unmarshal_string (json_field kvs ''cpu''), unmarshal_string (json_field kvs ''memory''),
               unmarshal_int (json_field kvs ''gpu''), unmarshal_string (json_field kvs ''gpu_memory'')) of
           (Inr cpu, Inr mem, Inr gpu, Inr gpumem) \<Rightarrow>
             Inr \<lparr>Spec_CPU = cpu, Spec_Memory = mem, Spec_GPU = gpu, Spec_GPUMemory = gpumem\<rparr>
         | _ \<Rightarrow> Inl type_error))
      in case v of JObject kvs \<Rightarrow> decode kvs | JNull \<Rightarrow> decode [] | _ \<Rightarrow> Inl type_error)"

section \<open>Rows\<close>

text \<open>A JSON column is scanned into bytes: a document, or no bytes at all.\<close>

record jobRecord =
  JR_ID :: string
  JR_Name :: string
  JR_Type :: JobType
  JR_Status :: JobStatus
  JR_Executor :: string
  JR_Priority :: int
  JR_ModelVersion :: string
  JR_DatasetVersion :: string
  JR_ImageTag :: string
  JR_ResourceSpec :: "json option"
  JR_Command :: "json option"
  JR_Environment :: "json option"
  JR_Metadata :: "json option"
  JR_MaxRetries :: int
  JR_RetryCount :: int
  JR_LastError :: string
  JR_TraceID :: string
  JR_CreatedAt :: gtime
  JR_UpdatedAt :: gtime

text \<open>\<^verbatim>\<open>json.Marshal\<close> cannot fail on these values.\<close>

definition encodeJob :: "Job \<Rightarrow> jobRecord" where
  "encodeJob job =
     \<lparr>JR_ID = Job_ID job, JR_Name = Job_Name job, JR_Type = Job_Type job, JR_Status = Job_Status job,
      JR_Executor = Job_Executor job, JR_Priority = Job_Priority job, JR_ModelVersion = Job_ModelVersion job,
      JR_DatasetVersion = Job_DatasetVersion job, JR_ImageTag = Job_ImageTag job,
      JR_ResourceSpec = Some (marshal_spec (Job_ResourceSpec job)), JR_Command = Some (marshal_strings (Job_Command job)),
      JR_Environment = Some (marshal_map (Job_Environment job)), JR_Metadata = Some (marshal_map (Job_Metadata job)),
      JR_MaxRetries = Job_MaxRetries job, JR_RetryCount = Job_RetryCount job, JR_LastError = Job_LastError job,
      JR_TraceID = Job_TraceID job, JR_CreatedAt = Job_CreatedAt job, JR_UpdatedAt = Job_UpdatedAt job\<rparr>"

definition Unmarshal :: "(json \<Rightarrow> error + 'a) \<Rightarrow> json option \<Rightarrow> error + 'a" where
  "Unmarshal dec bytes =
     (case bytes of None \<Rightarrow> Inl (ErrorString ''unexpected end of JSON input'') | Some v \<Rightarrow> dec v)"

definition decode_map :: "json option \<Rightarrow> error + str_map" where
  "decode_map bytes = (case bytes of None \<Rightarrow> Inr (Some []) | Some v \<Rightarrow> unmarshal_map v)"

definition decodeJob :: "jobRecord \<Rightarrow> error + Job" where
  "decodeJob r =
     (case Unmarshal unmarshal_spec (JR_ResourceSpec r) of
        Inl err \<Rightarrow> Inl (wrapf ''decode resource spec'' err)
      | Inr spec \<Rightarrow>
     (case Unmarshal unmarshal_strings (JR_Command r) of
        Inl err \<Rightarrow> Inl (wrapf ''decode command'' err)
      | Inr command \<Rightarrow>
     (case decode_map (JR_Environment r) of
        Inl err \<Rightarrow> Inl (wrapf ''decode environment'' err)
      | Inr env \<Rightarrow>
     (case decode_map (JR_Metadata r) of
        Inl err \<Rightarrow> Inl (wrapf ''decode metadata'' err)
      | Inr metadata \<Rightarrow>
          Inr \<lparr>Job_ID = JR_ID r, Job_Name = JR_Name r, Job_Type = JR_Type r, Job_Status = JR_Status r,
               Job_Executor = JR_Executor r, Job_Priority = JR_Priority r, Job_ModelVersion = JR_ModelVersion r,
               Job_DatasetVersion = JR_DatasetVersion r, Job_ImageTag = JR_ImageTag r, Job_ResourceSpec = spec,
               Job_Command = command, Job_Environment = env, Job_Metadata = metadata,
               Job_MaxRetries = JR_MaxRetries r, Job_RetryCount = JR_RetryCount r, Job_LastError = JR_LastError r,
               Job_TraceID = JR_TraceID r, Job_CreatedAt = JR_CreatedAt r, Job_UpdatedAt = JR_UpdatedAt r\<rparr>))))"

record execRecord =
  ER_ID :: string
  ER_JobID :: string
  ER_Attempt :: int
  ER_Status :: ExecutionStatus
  ER_Executor :: string
  ER_TraceID :: string
  ER_Logs :: string
  ER_Manifest :: string
  ER_ExitCode :: int
  ER_Error :: string
  ER_StartedAt :: gtime
  ER_FinishedAt :: "gtime option"

definition encodeExecution :: "Execution \<Rightarrow> execRecord" where
  "encodeExecution ex =
     \<lparr>ER_ID = Exec_ID ex, ER_JobID = Exec_JobID ex, ER_Attempt = Exec_Attempt ex, ER_Status = Exec_Status ex,
      ER_Executor = Exec_Executor ex, ER_TraceID = Exec_TraceID ex, ER_Logs = Exec_Logs ex,
      ER_Manifest = Exec_Manifest ex, ER_ExitCode = Exec_ExitCode ex, ER_Error = Exec_Error ex,
      ER_StartedAt = Exec_StartedAt ex,
      ER_FinishedAt = (if Exec_FinishedAt ex = time_zero then None else Some (Exec_FinishedAt ex))\<rparr>"

text \<open>What \<^verbatim>\<open>Scan\<close> gives for a row.\<close>

datatype 'r scanned = NoRows | ScanError string | Row 'r

definition scanJob :: "jobRecord scanned \<Rightarrow> error + jobRecord" where
  "scanJob scan =
     (case scan of
        NoRows \<Rightarrow> Inl ErrNotFound
      | ScanError err \<Rightarrow> Inl (wrapf ''scan job'' (ErrorString err))
      | Row r \<Rightarrow> Inr r)"

definition scanExecution :: "execRecord scanned \<Rightarrow> error + Execution" where
  "scanExecution scan =
     (case scan of
        NoRows \<Rightarrow> Inl (wrapf ''scan execution'' (ErrorString ''sql: no rows in result set''))
      | ScanError err \<Rightarrow> Inl (wrapf ''scan execution'' (ErrorString err))
      | Row r \<Rightarrow>
          Inr \<lparr>Exec_ID = ER_ID r, Exec_JobID = ER_JobID r, Exec_Attempt = ER_Attempt r, Exec_Status = ER_Status r,
               Exec_Executor = ER_Executor r, Exec_TraceID = ER_TraceID r, Exec_Logs = ER_Logs r,
               Exec_Manifest = ER_Manifest r, Exec_ExitCode = ER_ExitCode r, Exec_Error = ER_Error r,
               Exec_StartedAt = ER_StartedAt r,
               Exec_FinishedAt = (case ER_FinishedAt r of None \<Rightarrow> time_zero | Some t \<Rightarrow> t)\<rparr>)"

section \<open>The store\<close>

text \<open>
  The statements. An update answers an error, or what \<^verbatim>\<open>RowsAffected\<close> returns; a listing
  answers an error, or its rows with the error \<^verbatim>\<open>rows.Err\<close> has at the end.
\<close>

record 'd sql =
  insert_job :: "jobRecord \<Rightarrow> 'd \<Rightarrow> string option \<times> 'd"
  update_job :: "jobRecord \<Rightarrow> 'd \<Rightarrow> (string + string + int) \<times> 'd"
  select_job :: "string \<Rightarrow> 'd \<Rightarrow> jobRecord scanned"
  select_jobs :: "'d \<Rightarrow> string + jobRecord scanned list \<times> string option"
  insert_execution :: "execRecord \<Rightarrow> 'd \<Rightarrow> string option \<times> 'd"
  update_execution :: "execRecord \<Rightarrow> 'd \<Rightarrow> (string + string + int) \<times> 'd"
  select_executions :: "string \<Rightarrow> 'd \<Rightarrow> string + execRecord scanned list \<times> string option"

definition ensureUpdated :: "string + int \<Rightarrow> error option" where
  "ensureUpdated result =
     (case result of
        Inl err \<Rightarrow> Some (wrapf ''rows affected'' (ErrorString err))
      | Inr rows \<Rightarrow> if rows = 0 then Some ErrNotFound else None)"

definition Mysql_CreateJob :: "'d sql \<Rightarrow> 'd \<Rightarrow> Job \<Rightarrow> error option \<times> 'd" where
  "Mysql_CreateJob db d job =
     (case insert_job db (encodeJob job) d of
        (Some err, d1) \<Rightarrow> (Some (wrapf ''insert job'' (ErrorString err)), d1)
      | (None, d1) \<Rightarrow> (None, d1))"

definition Mysql_UpdateJob :: "'d sql \<Rightarrow> 'd \<Rightarrow> Job \<Rightarrow> error option \<times> 'd" where
  "Mysql_UpdateJob db d job =
     (case update_job db (encodeJob job) d of
        (Inl err, d1) \<Rightarrow> (Some (wrapf ''update job'' (ErrorString err)), d1)
      | (Inr result, d1) \<Rightarrow> (ensureUpdated result, d1))"

definition Mysql_GetJob :: "'d sql \<Rightarrow> 'd \<Rightarrow> string \<Rightarrow> error + Job" where
  "Mysql_GetJob db d jid =
     (case scanJob (select_job db jid d) of Inl err \<Rightarrow> Inl err | Inr r \<Rightarrow> decodeJob r)"

text \<open>The loop over the rows: the first error drops what was read.\<close>

fun read_rows :: "('r scanned \<Rightarrow> error + 'a) \<Rightarrow> string option \<Rightarrow> 'r scanned list \<Rightarrow> 'a list \<Rightarrow> 'a list \<times> error option" where
  "read_rows f last_err [] items = (items, map_option ErrorString last_err)"
| "read_rows f last_err (r # rs) items =
     (case f r of Inl err \<Rightarrow> ([], Some err) | Inr x \<Rightarrow> read_rows f last_err rs (items @ [x]))"

definition read_job :: "jobRecord scanned \<Rightarrow> error + Job" where
  "read_job scan = (case scanJob scan of Inl err \<Rightarrow> Inl err | Inr r \<Rightarrow> decodeJob r)"

definition Mysql_ListJobs :: "'d sql \<Rightarrow> 'd \<Rightarrow> Job list \<times> error option" where
  "Mysql_ListJobs db d =
     (case select_jobs db d of
        Inl err \<Rightarrow> ([], Some (wrapf ''list jobs'' (ErrorString err)))
      | Inr (rows, last_err) \<Rightarrow> read_rows read_job last_err rows [])"

definition Mysql_CreateExecution :: "'d sql \<Rightarrow> 'd \<Rightarrow> Execution \<Rightarrow> error option \<times> 'd" where
  "Mysql_CreateExecution db d ex =
     (case insert_execution db (encodeExecution ex) d of
        (Some err, d1) \<Rightarrow> (Some (wrapf ''insert execution'' (ErrorString err)), d1)
      | (None, d1) \<Rightarrow> (None, d1))"

definition Mysql_UpdateExecution :: "'d sql \<Rightarrow> 'd \<Rightarrow> Execution \<Rightarrow> error option \<times> 'd" where
  "Mysql_UpdateExecution db d ex =
     (case update_execution db (encodeExecution ex) d of
        (Inl err, d1) \<Rightarrow> (Some (wrapf ''update execution'' (ErrorString err)), d1)
      | (Inr result, d1) \<Rightarrow> (ensureUpdated result, d1))"

definition Mysql_ListExecutions :: "'d sql \<Rightarrow> 'd \<Rightarrow> string \<Rightarrow> Execution list \<times> error option" where
  "Mysql_ListExecutions db d jobID =
     (case select_executions db jobID d of
        Inl err \<Rightarrow> ([], Some (wrapf ''list executions'' (ErrorString err)))
      | Inr (rows, last_err) \<Rightarrow> read_rows scanExecution last_err rows [])"

text \<open>
  \<^verbatim>\<open>Open\<close> only checks the data source name. The node operations, and every operation of the
  Redis store, answer \<open>ErrNotImplemented\<close>.
\<close>

definition Mysql_Open :: "(string \<Rightarrow> string + 'd sql) \<Rightarrow> string \<Rightarrow> error + 'd sql" where
  "Mysql_Open sql_Open dsn =
     (case sql_Open dsn of Inl err \<Rightarrow> Inl (wrapf ''open mysql'' (ErrorString err)) | Inr db \<Rightarrow> Inr db)"

definition Mysql_RegisterNode :: "Node \<Rightarrow> error option" where
  "Mysql_RegisterNode node = Some ErrNotImplemented"

definition Mysql_UpdateNode :: "Node \<Rightarrow> error option" where
  "Mysql_UpdateNode node = Some ErrNotImplemented"

definition Mysql_GetNode :: "string \<Rightarrow> error + Node" where
  "Mysql_GetNode nid = Inl ErrNotImplemented"

definition Mysql_ListOnlineNodes :: "error + Node list" where
  "Mysql_ListOnlineNodes = Inl ErrNotImplemented"

definition Mysql_AllocateGPU :: "string \<Rightarrow> int \<Rightarrow> error option" where
  "Mysql_AllocateGPU nodeID cnt = Some ErrNotImplemented"

definition Mysql_ReleaseGPU :: "string \<Rightarrow> int \<Rightarrow> error option" where
  "Mysql_ReleaseGPU nodeID cnt = Some ErrNotImplemented"

definition Redis_CreateJob :: "Job \<Rightarrow> error option" where
  "Redis_CreateJob job = Some ErrNotImplemented"

definition Redis_UpdateJob :: "Job \<Rightarrow> error option" where
  "Redis_UpdateJob job = Some ErrNotImplemented"

definition Redis_GetJob :: "string \<Rightarrow> error + Job" where
  "Redis_GetJob jid = Inl ErrNotImplemented"

definition Redis_ListJobs :: "error + Job list" where
  "Redis_ListJobs = Inl ErrNotImplemented"

definition Redis_CreateExecution :: "Execution \<Rightarrow> error option" where
  "Redis_CreateExecution ex = Some ErrNotImplemented"

definition Redis_UpdateExecution :: "Execution \<Rightarrow> error option" where
  "Redis_UpdateExecution ex = Some ErrNotImplemented"

definition Redis_ListExecutions :: "string \<Rightarrow> error + Execution list" where
  "Redis_ListExecutions jobID = Inl ErrNotImplemented"

section \<open>What the columns keep\<close>

text \<open>
  A time column keeps a rounded instant and a JSON column a normalised document; \<open>kt\<close> and
  \<open>kd\<close> stand for the two.
\<close>

definition keep_row :: "(gtime \<Rightarrow> gtime) \<Rightarrow> (json \<Rightarrow> json) \<Rightarrow> jobRecord \<Rightarrow> jobRecord" where
  "keep_row kt kd r = r\<lparr>JR_ResourceSpec := map_option kd (JR_ResourceSpec r), JR_Command := map_option kd (JR_Command r),
     JR_Environment := map_option kd (JR_Environment r), JR_Metadata := map_option kd (JR_Metadata r),
     JR_CreatedAt := kt (JR_CreatedAt r), JR_UpdatedAt := kt (JR_UpdatedAt r)\<rparr>"

definition keep_exec :: "(gtime \<Rightarrow> gtime) \<Rightarrow> execRecord \<Rightarrow> execRecord" where
  "keep_exec kt r = r\<lparr>ER_StartedAt := kt (ER_StartedAt r), ER_FinishedAt := map_option kt (ER_FinishedAt r)\<rparr>"

text \<open>Maps with the same entries, and jobs and executions that differ only by the rounding of times.\<close>

definition same_map :: "str_map \<Rightarrow> str_map \<Rightarrow> bool" where
  "same_map a b \<longleftrightarrow> (a = None \<longleftrightarrow> b = None) \<and> map_of (map_entries a) = map_of (map_entries b)"

definition same_job :: "(gtime \<Rightarrow> gtime) \<Rightarrow> Job \<Rightarrow> Job \<Rightarrow> bool" where
  "same_job kt a b \<longleftrightarrow>
     a = b\<lparr>Job_Environment := Job_Environment a, Job_Metadata := Job_Metadata a,
           Job_CreatedAt := kt (Job_CreatedAt b), Job_UpdatedAt := kt (Job_UpdatedAt b)\<rparr> \<and>
     same_map (Job_Environment a) (Job_Environment b) \<and> same_map (Job_Metadata a) (Job_Metadata b)"

definition kept_execution :: "(gtime \<Rightarrow> gtime) \<Rightarrow> Execution \<Rightarrow> Execution" where
  "kept_execution kt ex = ex\<lparr>Exec_StartedAt := kt (Exec_StartedAt ex),
     Exec_FinishedAt := (if Exec_FinishedAt ex = time_zero then time_zero else kt (Exec_FinishedAt ex))\<rparr>"

text \<open>Go values: a map has every key once and an int has 64 bits.\<close>

definition go_map :: "str_map \<Rightarrow> bool" where
  "go_map m \<longleftrightarrow> distinct (map fst (map_entries m))"

definition go_job :: "Job \<Rightarrow> bool" where
  "go_job job \<longleftrightarrow> go_map (Job_Environment job) \<and> go_map (Job_Metadata job) \<and> is_i64 (Spec_GPU (Job_ResourceSpec job))"

section \<open>Round trips of documents\<close>

lemma traverse_map: "(\<And>x. x \<in> set xs \<Longrightarrow> f (g x) = Inr (h x)) \<Longrightarrow> traverse f (map g xs) = Inr (map h xs)"
  by (induction xs) auto

lemma unmarshal_strings_marshal: "unmarshal_strings (marshal_strings xs) = Inr xs"
  by (simp add: unmarshal_strings_def marshal_strings_def unmarshal_string_def traverse_map [where h = "\<lambda>x. x"])

lemma foldl_update_fresh:
  "distinct (map fst (acc @ ps)) \<Longrightarrow> foldl (\<lambda>m (k, s). AList.update k s m) acc ps = acc @ ps"
proof (induction ps arbitrary: acc)
  case (Cons p ps)
  then have "AList.update (fst p) (snd p) acc = acc @ [p]" by (subst update_fresh) auto
  then show ?case using Cons.IH [of "acc @ [p]"] Cons.prems by (simp add: case_prod_beta)
qed simp

lemma unmarshal_map_object:
  assumes "distinct (map fst ps)"
  shows "unmarshal_map (JObject (map (\<lambda>(k, v). (k, JString v)) ps)) = Inr (Some ps)"
proof -
  have "traverse unmarshal_entry (map (\<lambda>(k, v). (k, JString v)) ps) = Inr (map (\<lambda>p. p) ps)"
    by (rule traverse_map) (auto simp: unmarshal_entry_def unmarshal_string_def)
  then show ?thesis using foldl_update_fresh [of "[]" ps] assms by (simp add: unmarshal_map_def)
qed

lemma string_entries:
  fixes kvs :: "(string \<times> json) list"
  assumes "mset kvs = mset (map (\<lambda>(k, v). (k, JString v)) ps)"
  obtains qs where "kvs = map (\<lambda>(k, v). (k, JString v)) qs" and "mset qs = mset ps"
proof -
  define un where "un = (\<lambda>e :: string \<times> json. (fst e, case snd e of JString s \<Rightarrow> s | _ \<Rightarrow> ''''))"
  have all: "\<forall>e \<in> set kvs. \<exists>k s. e = (k, JString s)"
    using mset_eq_setD [OF assms] by auto
  have "map (\<lambda>(k, v). (k, JString v)) (map un kvs) = map (\<lambda>e. e) kvs"
    unfolding map_map by (rule map_cong [OF refl]) (use all in \<open>auto simp: un_def\<close>)
  moreover have "mset (map un kvs) = mset ps"
  proof -
    have "mset (map un kvs) = image_mset un (mset (map (\<lambda>(k, v). (k, JString v)) ps))" using assms by simp
    also have "\<dots> = mset (map (\<lambda>p. p) ps)"
      by (simp only: mset_map [symmetric] map_map) (rule arg_cong [of _ _ mset], rule map_cong [OF refl], auto simp: un_def)
    finally show ?thesis by simp
  qed
  ultimately show thesis by (intro that [of "map un kvs"]) simp_all
qed

lemma json_field_eq:
  assumes "(k, v) \<in> set kvs" and "fold_case k = name" and "\<forall>e \<in> set kvs. fold_case (fst e) = name \<longrightarrow> snd e = v"
  shows "json_field kvs name = v"
proof -
  have "List.find (\<lambda>e. fold_case (fst e) = name) (rev kvs) \<noteq> None"
    using assms(1,2) by (auto simp: find_None_iff)
  then obtain e where e: "List.find (\<lambda>e. fold_case (fst e) = name) (rev kvs) = Some e" by blast
  then have "e \<in> set kvs" "fold_case (fst e) = name" by (auto simp: find_Some_iff rev_nth)
  moreover have "json_field kvs name = snd e" using e by (simp add: json_field_def)
  ultimately show ?thesis using assms(3) by blast
qed

lemma unmarshal_spec_object:
  assumes "mset kvs = mset [(''cpu'', JString (Spec_CPU spec)), (''memory'', JString (Spec_Memory spec)),
              (''gpu'', JInt (Spec_GPU spec)), (''gpu_memory'', JString (Spec_GPUMemory spec))]"
    and "is_i64 (Spec_GPU spec)"
  shows "unmarshal_spec (JObject kvs) = Inr spec"
proof -
  have kvs: "set kvs = {(''cpu'', JString (Spec_CPU spec)), (''memory'', JString (Spec_Memory spec)),
              (''gpu'', JInt (Spec_GPU spec)), (''gpu_memory'', JString (Spec_GPUMemory spec))}"
    using mset_eq_setD [OF assms(1)] by simp
  have names: "fold_case ''cpu'' = ''cpu''" "fold_case ''memory'' = ''memory''" "fold_case ''gpu'' = ''gpu''"
      "fold_case ''gpu_memory'' = ''gpu_memory''"
    by (simp_all add: fold_case_def)
  have "json_field kvs ''cpu'' = JString (Spec_CPU spec)"
    by (rule json_field_eq [of "''cpu''"]) (simp_all add: kvs names)
  moreover have "json_field kvs ''memory'' = JString (Spec_Memory spec)"
    by (rule json_field_eq [of "''memory''"]) (simp_all add: kvs names)
  moreover have "json_field kvs ''gpu'' = JInt (Spec_GPU spec)"
    by (rule json_field_eq [of "''gpu''"]) (simp_all add: kvs names)
  moreover have "json_field kvs ''gpu_memory'' = JString (Spec_GPUMemory spec)"
    by (rule json_field_eq [of "''gpu_memory''"]) (simp_all add: kvs names)
  ultimately show ?thesis using assms(2) by (simp add: unmarshal_spec_def unmarshal_string_def unmarshal_int_def)
qed

section \<open>The promises of a server\<close>

text \<open>
  \<open>jobs_of\<close> and \<open>execs_of\<close> are the rows of the two tables by their primary keys. An insert of
  a fresh row that fits its columns succeeds, provided the job of an execution exists; an update
  counts the rows it changes, so writing what is stored already counts none; a listing delivers
  every row once in the order of its \<^verbatim>\<open>ORDER BY\<close>, and \<^verbatim>\<open>Scan\<close> reads a row. All this is promised
  for identifiers that are \<open>plain\<close>: a server may take two others for equal, as the collations of
  MySQL do with letters of different case. A JSON column keeps documents that fit up to the order
  of the keys of an object.
\<close>

definition leaf :: "json \<Rightarrow> bool" where
  "leaf v = (case v of JString _ \<Rightarrow> True | JInt _ \<Rightarrow> True | _ \<Rightarrow> False)"

definition jobs_order :: "jobRecord \<Rightarrow> jobRecord \<Rightarrow> bool" where
  "jobs_order a b \<longleftrightarrow>
     JR_Priority a > JR_Priority b \<or> JR_Priority a = JR_Priority b \<and> JR_CreatedAt a \<le> JR_CreatedAt b"

locale json_columns =
  fixes kd :: "json \<Rightarrow> json"
    and fits_doc :: "json \<Rightarrow> bool"
  assumes kd_null: "kd JNull = JNull"
    and kd_strings: "fits_doc (JArray (map JString xs)) \<Longrightarrow> kd (JArray (map JString xs)) = JArray (map JString xs)"
    and kd_object: "fits_doc (JObject kvs) \<Longrightarrow> distinct (map fst kvs) \<Longrightarrow> list_all leaf (map snd kvs) \<Longrightarrow>
      \<exists>kvs'. kd (JObject kvs) = JObject kvs' \<and> mset kvs' = mset kvs"
begin

lemma spec_roundtrip:
  assumes "fits_doc (marshal_spec spec)" and "is_i64 (Spec_GPU spec)"
  shows "unmarshal_spec (kd (marshal_spec spec)) = Inr spec"
proof -
  obtain kvs where "kd (marshal_spec spec) = JObject kvs"
    "mset kvs = mset [(''cpu'', JString (Spec_CPU spec)), (''memory'', JString (Spec_Memory spec)),
              (''gpu'', JInt (Spec_GPU spec)), (''gpu_memory'', JString (Spec_GPUMemory spec))]"
    using kd_object [OF assms(1) [unfolded marshal_spec_def]] by (auto simp: marshal_spec_def leaf_def)
  with unmarshal_spec_object [OF _ assms(2)] show ?thesis by simp
qed

lemma strings_roundtrip: "fits_doc (marshal_strings xs) \<Longrightarrow> unmarshal_strings (kd (marshal_strings xs)) = Inr xs"
  using unmarshal_strings_marshal [of xs] kd_strings [of xs] by (simp add: marshal_strings_def)

lemma map_roundtrip:
  assumes "fits_doc (marshal_map m)" and "go_map m"
  shows "\<exists>m'. unmarshal_map (kd (marshal_map m)) = Inr m' \<and> same_map m' m"
proof (cases m)
  case None
  then show ?thesis by (simp add: marshal_map_def kd_null unmarshal_map_def same_map_def)
next
  case (Some kvs)
  define ps where "ps = sort_slice (\<lambda>a b. str_less (fst a) (fst b)) kvs"
  have m: "marshal_map m = JObject (map (\<lambda>(k, v). (k, JString v)) ps)"
    by (simp add: Some marshal_map_def ps_def)
  have keys: "map fst (map (\<lambda>(k, v). (k, JString v)) ps) = map fst ps" by auto
  have perm: "mset ps = mset kvs" by (simp add: ps_def)
  have dist: "distinct (map fst kvs)" using assms(2) by (simp add: Some go_map_def)
  have dps: "distinct (map fst qs)" if "mset qs = mset kvs" for qs
    using dist that by (metis mset_map mset_eq_imp_distinct_iff)
  have leaves: "list_all leaf (map snd (map (\<lambda>(k, v). (k, JString v)) ps))"
    by (auto simp: leaf_def list_all_iff)
  obtain kvs' where kvs': "kd (marshal_map m) = JObject kvs'" "mset kvs' = mset (map (\<lambda>(k, v). (k, JString v)) ps)"
    using kd_object [OF assms(1) [unfolded m] _ leaves] dps [OF perm] unfolding m keys by blast
  obtain qs where qs: "kvs' = map (\<lambda>(k, v). (k, JString v)) qs" "mset qs = mset ps"
    using string_entries [OF kvs'(2)] by blast
  have "map_of qs = map_of kvs"
    using dps [of qs] dist qs(2) perm by (metis map_of_inject_set mset_eq_setD)
  then show ?thesis
    using unmarshal_map_object [OF dps [of qs]] qs perm kvs'(1) by (simp add: Some same_map_def)
qed

end

locale mysql_server = json_columns +
  fixes db :: "'d sql"
    and db_ok :: "'d \<Rightarrow> bool"
    and jobs_of :: "'d \<Rightarrow> string \<rightharpoonup> jobRecord"
    and execs_of :: "'d \<Rightarrow> string \<rightharpoonup> execRecord"
    and kt :: "gtime \<Rightarrow> gtime"
    and fits_job :: "jobRecord \<Rightarrow> bool"
    and fits_exec :: "execRecord \<Rightarrow> bool"
    and plain :: "string \<Rightarrow> bool"
  assumes fits_docs: "fits_job r \<Longrightarrow>
      pred_option fits_doc (JR_ResourceSpec r) \<and> pred_option fits_doc (JR_Command r) \<and>
      pred_option fits_doc (JR_Environment r) \<and> pred_option fits_doc (JR_Metadata r)"
    and insert_job_fresh: "db_ok d \<Longrightarrow> fits_job r \<Longrightarrow> jobs_of d (JR_ID r) = None \<Longrightarrow>
      \<exists>d'. insert_job db r d = (None, d') \<and> db_ok d' \<and>
        jobs_of d' = (jobs_of d)(JR_ID r \<mapsto> keep_row kt kd r) \<and> execs_of d' = execs_of d"
    and update_job_found: "db_ok d \<Longrightarrow> fits_job r \<Longrightarrow> jobs_of d (JR_ID r) = Some old \<Longrightarrow>
      \<exists>d'. update_job db r d = (Inr (Inr (if keep_row kt kd r = old then 0 else 1)), d') \<and> db_ok d' \<and>
        jobs_of d' = (jobs_of d)(JR_ID r \<mapsto> keep_row kt kd r) \<and> execs_of d' = execs_of d"
    and update_job_missing: "db_ok d \<Longrightarrow> plain (JR_ID r) \<Longrightarrow> jobs_of d (JR_ID r) = None \<Longrightarrow> update_job db r d = (Inr (Inr 0), d)"
    and select_job_row: "db_ok d \<Longrightarrow> plain jid \<Longrightarrow>
      select_job db jid d = (case jobs_of d jid of None \<Rightarrow> NoRows | Some r \<Rightarrow> Row r)"
    and select_jobs_rows: "db_ok d \<Longrightarrow> \<exists>rows. select_jobs db d = Inr (map Row rows, None) \<and>
        distinct (map JR_ID rows) \<and> (\<forall>r. r \<in> set rows \<longleftrightarrow> jobs_of d (JR_ID r) = Some r) \<and> sorted_wrt jobs_order rows"
    and insert_execution_fresh: "db_ok d \<Longrightarrow> fits_exec e \<Longrightarrow> execs_of d (ER_ID e) = None \<Longrightarrow>
      jobs_of d (ER_JobID e) \<noteq> None \<Longrightarrow>
      \<exists>d'. insert_execution db e d = (None, d') \<and> db_ok d' \<and>
        execs_of d' = (execs_of d)(ER_ID e \<mapsto> keep_exec kt e) \<and> jobs_of d' = jobs_of d"
    and update_execution_found: "db_ok d \<Longrightarrow> fits_exec e \<Longrightarrow> execs_of d (ER_ID e) = Some prev \<Longrightarrow>
      ER_JobID e = ER_JobID prev \<Longrightarrow>
      \<exists>d'. update_execution db e d = (Inr (Inr (if keep_exec kt e = prev then 0 else 1)), d') \<and> db_ok d' \<and>
        execs_of d' = (execs_of d)(ER_ID e \<mapsto> keep_exec kt e) \<and> jobs_of d' = jobs_of d"
    and select_executions_rows: "db_ok d \<Longrightarrow> plain jid \<Longrightarrow> \<exists>rows. select_executions db jid d = Inr (map Row rows, None) \<and>
        distinct (map ER_ID rows) \<and>
        (\<forall>r. r \<in> set rows \<longleftrightarrow> execs_of d (ER_ID r) = Some r \<and> ER_JobID r = jid) \<and>
        sorted_wrt (\<lambda>a b. ER_Attempt a \<le> ER_Attempt b) rows"
begin

lemma decode_kept:
  assumes "fits_job (encodeJob job)" and "go_job job"
  shows "\<exists>job'. decodeJob (keep_row kt kd (encodeJob job)) = Inr job' \<and> same_job kt job' job"
proof -
  have fits: "fits_doc (marshal_spec (Job_ResourceSpec job))" "fits_doc (marshal_strings (Job_Command job))"
      "fits_doc (marshal_map (Job_Environment job))" "fits_doc (marshal_map (Job_Metadata job))"
    using fits_docs [OF assms(1)] by (simp_all add: encodeJob_def)
  obtain env where env: "unmarshal_map (kd (marshal_map (Job_Environment job))) = Inr env" "same_map env (Job_Environment job)"
    using map_roundtrip [OF fits(3)] assms(2) by (auto simp: go_job_def)
  obtain meta where meta: "unmarshal_map (kd (marshal_map (Job_Metadata job))) = Inr meta" "same_map meta (Job_Metadata job)"
    using map_roundtrip [OF fits(4)] assms(2) by (auto simp: go_job_def)
  have "unmarshal_spec (kd (marshal_spec (Job_ResourceSpec job))) = Inr (Job_ResourceSpec job)"
    using spec_roundtrip [OF fits(1)] assms(2) by (simp add: go_job_def)
  then show ?thesis
    using strings_roundtrip [OF fits(2)] env meta
    by (simp add: decodeJob_def keep_row_def encodeJob_def Unmarshal_def decode_map_def same_job_def)
qed

end

section \<open>Two stores side by side\<close>

datatype store_op =
    Put_Job Job
  | Set_Job Job
  | Put_Execution Execution
  | Set_Execution Execution

definition memory_op :: "MemoryStore \<Rightarrow> store_op \<Rightarrow> error + MemoryStore" where
  "memory_op s op =
     (case op of
        Put_Job job \<Rightarrow> Memory_CreateJob s job
      | Set_Job job \<Rightarrow> Memory_UpdateJob s job
      | Put_Execution ex \<Rightarrow> Memory_CreateExecution s ex
      | Set_Execution ex \<Rightarrow> Memory_UpdateExecution s ex)"

definition mysql_op :: "'d sql \<Rightarrow> 'd \<Rightarrow> store_op \<Rightarrow> error option \<times> 'd" where
  "mysql_op db d op =
     (case op of
        Put_Job job \<Rightarrow> Mysql_CreateJob db d job
      | Set_Job job \<Rightarrow> Mysql_UpdateJob db d job
      | Put_Execution ex \<Rightarrow> Mysql_CreateExecution db d ex
      | Set_Execution ex \<Rightarrow> Mysql_UpdateExecution db d ex)"

fun memory_ops :: "MemoryStore \<Rightarrow> store_op list \<Rightarrow> error + MemoryStore" where
  "memory_ops s [] = Inr s"
| "memory_ops s (op # ops) = (case memory_op s op of Inl err \<Rightarrow> Inl err | Inr s1 \<Rightarrow> memory_ops s1 ops)"

fun mysql_ops :: "'d sql \<Rightarrow> 'd \<Rightarrow> store_op list \<Rightarrow> error option \<times> 'd" where
  "mysql_ops db d [] = (None, d)"
| "mysql_ops db d (op # ops) =
     (case mysql_op db d op of (Some err, d1) \<Rightarrow> (Some err, d1) | (None, d1) \<Rightarrow> mysql_ops db d1 ops)"

text \<open>
  An operation the two stores treat alike: identifiers are fresh when something is created, an
  execution belongs to a stored job, what is written fits its columns, and an update changes the
  stored row.
\<close>

definition op_ok :: "(gtime \<Rightarrow> gtime) \<Rightarrow> (json \<Rightarrow> json) \<Rightarrow> (jobRecord \<Rightarrow> bool) \<Rightarrow> (execRecord \<Rightarrow> bool) \<Rightarrow>
    MemoryStore \<Rightarrow> store_op \<Rightarrow> bool" where
  "op_ok kt kd fj fe s op =
     (case op of
        Put_Job job \<Rightarrow> go_job job \<and> fj (encodeJob job) \<and> map_of (jobs s) (Job_ID job) = None
      | Set_Job job \<Rightarrow> go_job job \<and> fj (encodeJob job) \<and>
          (case map_of (jobs s) (Job_ID job) of
             None \<Rightarrow> False
           | Some old \<Rightarrow> keep_row kt kd (encodeJob job) \<noteq> keep_row kt kd (encodeJob old))
      | Put_Execution ex \<Rightarrow> fe (encodeExecution ex) \<and> executions s (Exec_ID ex) = None \<and>
          map_of (jobs s) (Exec_JobID ex) \<noteq> None
      | Set_Execution ex \<Rightarrow> fe (encodeExecution ex) \<and>
          (case executions s (Exec_ID ex) of
             None \<Rightarrow> False
           | Some old \<Rightarrow> Exec_JobID ex = Exec_JobID old \<and>
               keep_exec kt (encodeExecution ex) \<noteq> keep_exec kt (encodeExecution old)))"

fun ops_ok :: "(gtime \<Rightarrow> gtime) \<Rightarrow> (json \<Rightarrow> json) \<Rightarrow> (jobRecord \<Rightarrow> bool) \<Rightarrow> (execRecord \<Rightarrow> bool) \<Rightarrow>
    MemoryStore \<Rightarrow> store_op list \<Rightarrow> bool" where
  "ops_ok kt kd fj fe s [] = True"
| "ops_ok kt kd fj fe s (op # ops) =
     (op_ok kt kd fj fe s op \<and>
      (case memory_op s op of Inl _ \<Rightarrow> False | Inr s1 \<Rightarrow> ops_ok kt kd fj fe s1 ops))"

lemma read_rows_map:
  "(\<And>r. r \<in> set rows \<Longrightarrow> f (Row r) = Inr (g r)) \<Longrightarrow>
   read_rows f None (map Row rows) items = (items @ map g rows, None)"
  by (induction rows arbitrary: items) auto

lemma encode_simps [simp]:
  "JR_ID (encodeJob job) = Job_ID job" "JR_ID (keep_row kt kd r) = JR_ID r"
  "JR_Priority (keep_row kt kd r) = JR_Priority r" "JR_CreatedAt (keep_row kt kd r) = kt (JR_CreatedAt r)"
  "JR_Priority (encodeJob job) = Job_Priority job" "JR_CreatedAt (encodeJob job) = Job_CreatedAt job"
  "ER_ID (encodeExecution ex) = Exec_ID ex" "ER_ID (keep_exec kt e) = ER_ID e"
  "ER_JobID (encodeExecution ex) = Exec_JobID ex" "ER_JobID (keep_exec kt e) = ER_JobID e"
  "ER_Attempt (encodeExecution ex) = Exec_Attempt ex" "ER_Attempt (keep_exec kt e) = ER_Attempt e"
  by (simp_all add: encodeJob_def keep_row_def encodeExecution_def keep_exec_def)

lemma scanExecution_kept: "scanExecution (Row (keep_exec kt (encodeExecution ex))) = Inr (kept_execution kt ex)"
  by (simp add: scanExecution_def keep_exec_def encodeExecution_def kept_execution_def)

lemma kept_execution_simps [simp]: "Exec_Attempt (kept_execution kt ex) = Exec_Attempt ex" "Exec_ID (kept_execution kt ex) = Exec_ID ex"
  by (simp_all add: kept_execution_def)

lemma same_job_simps:
  "same_job kt a b \<Longrightarrow> Job_Priority a = Job_Priority b \<and> Job_CreatedAt a = kt (Job_CreatedAt b) \<and> Job_ID a = Job_ID b"
  unfolding same_job_def by (metis Job.simps(6) Job.simps(1) Job.simps(18) Job.select_convs Job.update_convs Job.surjective)

text \<open>The tables hold, row by row, what the memory store holds.\<close>

definition mirrors :: "(gtime \<Rightarrow> gtime) \<Rightarrow> (json \<Rightarrow> json) \<Rightarrow> (jobRecord \<Rightarrow> bool) \<Rightarrow>
    (string \<rightharpoonup> jobRecord) \<Rightarrow> (string \<rightharpoonup> execRecord) \<Rightarrow> MemoryStore \<Rightarrow> bool" where
  "mirrors kt kd fj jrows erows s \<longleftrightarrow>
     jrows = (\<lambda>jid. map_option (\<lambda>job. keep_row kt kd (encodeJob job)) (map_of (jobs s) jid)) \<and>
     erows = (\<lambda>eid. map_option (\<lambda>ex. keep_exec kt (encodeExecution ex)) (executions s eid)) \<and>
     keyed_wf Job_ID (jobs s) \<and>
     (\<forall>jid job. map_of (jobs s) jid = Some job \<longrightarrow> go_job job \<and> fj (encodeJob job)) \<and>
     (\<forall>eid ex. executions s eid = Some ex \<longrightarrow> Exec_ID ex = eid)"

lemma mirrors_put_job:
  assumes "mirrors kt kd fj jrows erows s" and "go_job job" and "fj (encodeJob job)"
  shows "mirrors kt kd fj (jrows(Job_ID job \<mapsto> keep_row kt kd (encodeJob job))) erows
     (s\<lparr>jobs := AList.update (Job_ID job) job (jobs s)\<rparr>)"
  using assms by (auto simp: mirrors_def keyed_wf_update fun_eq_iff)

lemma mirrors_put_execution:
  assumes "mirrors kt kd fj jrows erows s"
  shows "mirrors kt kd fj jrows (erows(Exec_ID ex \<mapsto> keep_exec kt (encodeExecution ex)))
     (s\<lparr>executions := (executions s)(Exec_ID ex \<mapsto> ex), jobIndex := ix\<rparr>)"
  using assms by (auto simp: mirrors_def fun_eq_iff)

lemmas store_op_defs = memory_op_def mysql_op_def op_ok_def ensureUpdated_def
  Mysql_CreateJob_def Mysql_UpdateJob_def Mysql_CreateExecution_def Mysql_UpdateExecution_def
  Memory_CreateJob_def Memory_UpdateJob_def Memory_CreateExecution_def Memory_UpdateExecution_def

context mysql_server
begin

lemma mirror_step:
  assumes "db_ok d" and "mirrors kt kd fits_job (jobs_of d) (execs_of d) s" and "op_ok kt kd fits_job fits_exec s op"
  shows "\<exists>d' s'. mysql_op db d op = (None, d') \<and> memory_op s op = Inr s' \<and> db_ok d' \<and>
     mirrors kt kd fits_job (jobs_of d') (execs_of d') s'"
proof -
  have jrow: "jobs_of d jid = map_option (\<lambda>job. keep_row kt kd (encodeJob job)) (map_of (jobs s) jid)"
    and erow: "execs_of d eid = map_option (\<lambda>ex. keep_exec kt (encodeExecution ex)) (executions s eid)" for jid eid
    using assms(2) by (simp_all add: mirrors_def)
  show ?thesis
  proof (cases op)
    case (Put_Job job)
    with assms(3) have ok: "go_job job" "fits_job (encodeJob job)" "map_of (jobs s) (Job_ID job) = None"
      by (simp_all add: op_ok_def)
    then obtain d' where "insert_job db (encodeJob job) d = (None, d')" "db_ok d'"
        "jobs_of d' = (jobs_of d)(Job_ID job \<mapsto> keep_row kt kd (encodeJob job))" "execs_of d' = execs_of d"
      using insert_job_fresh [OF assms(1) ok(2)] by (auto simp: jrow)
    then show ?thesis using mirrors_put_job [OF assms(2) ok(1,2)] by (simp add: Put_Job store_op_defs)
  next
    case (Set_Job job)
    with assms(3) obtain old where ok: "go_job job" "fits_job (encodeJob job)" "map_of (jobs s) (Job_ID job) = Some old"
        "keep_row kt kd (encodeJob job) \<noteq> keep_row kt kd (encodeJob old)"
      by (auto simp: op_ok_def split: option.splits)
    then obtain d' where "update_job db (encodeJob job) d = (Inr (Inr 1), d')" "db_ok d'"
        "jobs_of d' = (jobs_of d)(Job_ID job \<mapsto> keep_row kt kd (encodeJob job))" "execs_of d' = execs_of d"
      using update_job_found [OF assms(1) ok(2)] by (auto simp: jrow)
    then show ?thesis using mirrors_put_job [OF assms(2) ok(1,2)] ok(3) by (simp add: Set_Job store_op_defs)
  next
    case (Put_Execution ex)
    with assms(3) have ok: "fits_exec (encodeExecution ex)" "executions s (Exec_ID ex) = None"
        "map_of (jobs s) (Exec_JobID ex) \<noteq> None"
      by (simp_all add: op_ok_def)
    then obtain d' where "insert_execution db (encodeExecution ex) d = (None, d')" "db_ok d'"
        "execs_of d' = (execs_of d)(Exec_ID ex \<mapsto> keep_exec kt (encodeExecution ex))" "jobs_of d' = jobs_of d"
      using insert_execution_fresh [OF assms(1) ok(1)] by (auto simp: jrow erow)
    then show ?thesis using mirrors_put_execution [OF assms(2), of ex] by (simp add: Put_Execution store_op_defs)
  next
    case (Set_Execution ex)
    with assms(3) obtain old where ok: "fits_exec (encodeExecution ex)" "executions s (Exec_ID ex) = Some old"
        "Exec_JobID ex = Exec_JobID old" "keep_exec kt (encodeExecution ex) \<noteq> keep_exec kt (encodeExecution old)"
      by (auto simp: op_ok_def split: option.splits)
    then obtain d' where "update_execution db (encodeExecution ex) d = (Inr (Inr 1), d')" "db_ok d'"
        "execs_of d' = (execs_of d)(Exec_ID ex \<mapsto> keep_exec kt (encodeExecution ex))" "jobs_of d' = jobs_of d"
      using update_execution_found [OF assms(1) ok(1)] by (auto simp: erow)
    then show ?thesis using mirrors_put_execution [OF assms(2), of ex "jobIndex s"] ok(2)
      by (simp add: Set_Execution store_op_defs)
  qed
qed

lemma mirror_run:
  assumes "db_ok d" and "mirrors kt kd fits_job (jobs_of d) (execs_of d) s" and "ops_ok kt kd fits_job fits_exec s ops"
  shows "\<exists>d' s'. mysql_ops db d ops = (None, d') \<and> memory_ops s ops = Inr s' \<and> db_ok d' \<and>
     mirrors kt kd fits_job (jobs_of d') (execs_of d') s'"
  using assms
proof (induction ops arbitrary: d s)
  case (Cons op ops)
  then obtain d1 s1 where "mysql_op db d op = (None, d1)" "memory_op s op = Inr s1" "db_ok d1"
      "mirrors kt kd fits_job (jobs_of d1) (execs_of d1) s1"
    using mirror_step [of d s op] by auto
  then show ?case using Cons.IH [of d1 s1] Cons.prems(3) by simp
qed auto

lemma mirror_decodes:
  assumes "mirrors kt kd fits_job jrows erows s" and "map_of (jobs s) jid = Some job"
  shows "\<exists>job'. decodeJob (keep_row kt kd (encodeJob job)) = Inr job' \<and> same_job kt job' job"
  using assms by (auto simp: mirrors_def intro: decode_kept)

lemma mirror_GetJob:
  assumes "db_ok d" and "mirrors kt kd fits_job (jobs_of d) (execs_of d) s" and "plain jid"
  shows "case Memory_GetJob s jid of
      Inl err \<Rightarrow> Mysql_GetJob db d jid = Inl err
    | Inr job \<Rightarrow> \<exists>job'. Mysql_GetJob db d jid = Inr job' \<and> same_job kt job' job"
proof -
  have row: "jobs_of d jid = map_option (\<lambda>job. keep_row kt kd (encodeJob job)) (map_of (jobs s) jid)"
    using assms(2) by (simp add: mirrors_def)
  show ?thesis
    using mirror_decodes [OF assms(2), of jid]
    by (auto simp: Memory_GetJob_def Mysql_GetJob_def select_job_row [OF assms(1,3)] row scanJob_def split: option.splits)
qed

end

lemma map_option_SomeE:
  assumes "map_option f x = Some y"
  obtains z where "x = Some z" and "y = f z"
  using assms by (cases x) auto

lemma distinct_rows:
  assumes "distinct (map rkey rows)" and "\<And>r. r \<in> set rows \<Longrightarrow> key (f r) = rkey r"
  shows "distinct (map f rows)"
proof -
  have "map key (map f rows) = map rkey rows" using assms(2) by simp
  with assms(1) show ?thesis by (metis distinct_map)
qed

text \<open>Rows that are the entries of a keyed list, in some order.\<close>

lemma keyed_rows_perm:
  assumes "keyed_wf key kvs" and "distinct (map rkey rows)"
    and "\<And>r. r \<in> set rows \<Longrightarrow> map_of kvs (rkey r) = Some (f r)"
    and "\<And>k v. map_of kvs k = Some v \<Longrightarrow> \<exists>r \<in> set rows. rkey r = k"
  shows "mset (map f rows) = mset (map snd kvs)"
proof -
  have "distinct (map f rows)"
    using assms(2) by (rule distinct_rows) (rule keyed_wf_lookup [OF assms(1) assms(3)])
  moreover have "map key (map snd kvs) = map fst kvs"
    using assms(1) by (auto simp: keyed_wf_def list_all_iff)
  then have "distinct (map snd kvs)" using keyed_wf_distinct [OF assms(1)] by (metis distinct_map)
  moreover have "v \<in> f ` set rows" if "(k, v) \<in> set kvs" for k v
  proof -
    have "map_of kvs k = Some v" using that keyed_wf_distinct [OF assms(1)] by simp
    with assms(3,4) show ?thesis by force
  qed
  moreover have "f r \<in> snd ` set kvs" if "r \<in> set rows" for r using assms(3) [OF that] map_of_SomeD by force
  ultimately show ?thesis by (intro iffD1 [OF set_eq_iff_mset_eq_distinct]) auto
qed

context mysql_server
begin

lemma mirror_job_row:
  assumes "mirrors kt kd fits_job (jobs_of d) erows s" and "jobs_of d (JR_ID r) = Some r"
  obtains job job' where "map_of (jobs s) (JR_ID r) = Some job" and "decodeJob r = Inr job'" and "same_job kt job' job"
    and "Job_Priority job' = JR_Priority r" and "Job_CreatedAt job' = JR_CreatedAt r"
proof -
  have row: "jobs_of d jid = map_option (\<lambda>job. keep_row kt kd (encodeJob job)) (map_of (jobs s) jid)" for jid
    using assms(1) by (simp add: mirrors_def)
  obtain job where job: "map_of (jobs s) (JR_ID r) = Some job" "r = keep_row kt kd (encodeJob job)"
    by (rule map_option_SomeE [OF assms(2) [unfolded row]])
  obtain job' where job': "decodeJob (keep_row kt kd (encodeJob job)) = Inr job'" "same_job kt job' job"
    using mirror_decodes [OF assms(1) job(1)] by blast
  have "JR_Priority r = Job_Priority job" "JR_CreatedAt r = kt (Job_CreatedAt job)" by (subst job(2), simp)+
  with same_job_simps [OF job'(2)] job job' show thesis by (intro that [of job job']) simp_all
qed

lemma mirror_ListJobs:
  assumes "db_ok d" and "mirrors kt kd fits_job (jobs_of d) (execs_of d) s"
  shows "\<exists>js ms. Mysql_ListJobs db d = (js, None) \<and> mset ms = mset (map snd (jobs s)) \<and> list_all2 (same_job kt) js ms \<and>
     sorted_wrt (\<lambda>a b. \<not> ListJobs_less b a) js"
proof -
  have row: "jobs_of d jid = map_option (\<lambda>job. keep_row kt kd (encodeJob job)) (map_of (jobs s) jid)" for jid
    using assms(2) by (simp add: mirrors_def)
  have wf: "keyed_wf Job_ID (jobs s)" using assms(2) by (simp add: mirrors_def)
  obtain rows where rows: "select_jobs db d = Inr (map Row rows, None)" "distinct (map JR_ID rows)"
      "\<And>r. r \<in> set rows \<longleftrightarrow> jobs_of d (JR_ID r) = Some r" "sorted_wrt jobs_order rows"
    using select_jobs_rows [OF assms(1)] by blast
  define stored where "stored = (\<lambda>r :: jobRecord. the (map_of (jobs s) (JR_ID r)))"
  define read where "read = (\<lambda>r :: jobRecord. projr (decodeJob r))"
  have each: "map_of (jobs s) (JR_ID r) = Some (stored r)" "decodeJob r = Inr (read r)" "same_job kt (read r) (stored r)"
      "Job_Priority (read r) = JR_Priority r" "Job_CreatedAt (read r) = JR_CreatedAt r" if "r \<in> set rows" for r
  proof -
    from mirror_job_row [OF assms(2) iffD1 [OF rows(3) that]] obtain job job' where
      j: "map_of (jobs s) (JR_ID r) = Some job" "decodeJob r = Inr job'" "same_job kt job' job"
        "Job_Priority job' = JR_Priority r" "Job_CreatedAt job' = JR_CreatedAt r" .
    have "stored r = job" "read r = job'" by (simp_all only: stored_def read_def j option.sel sum.sel)
    with j show "map_of (jobs s) (JR_ID r) = Some (stored r)" "decodeJob r = Inr (read r)" "same_job kt (read r) (stored r)"
      "Job_Priority (read r) = JR_Priority r" "Job_CreatedAt (read r) = JR_CreatedAt r" by (simp_all only:)
  qed
  have "mset (map stored rows) = mset (map snd (jobs s))"
    using wf rows(2) each(1)
  proof (rule keyed_rows_perm)
    fix jid job
    assume m: "map_of (jobs s) jid = Some job"
    let ?r = "keep_row kt kd (encodeJob job)"
    have id: "JR_ID ?r = jid" using keyed_wf_lookup [OF wf m] by simp
    with m rows(3) [of ?r] row [of jid] have "?r \<in> set rows" by simp
    with id show "\<exists>r \<in> set rows. JR_ID r = jid" by (rule bexI)
  qed
  moreover have "Mysql_ListJobs db d = (map read rows, None)"
    using read_rows_map [of rows read_job read "[]"] each(2) by (simp add: Mysql_ListJobs_def rows(1) read_job_def scanJob_def)
  moreover have "list_all2 (same_job kt) (map read rows) (map stored rows)"
    using each(3) by (simp add: list_all2_conv_all_nth)
  moreover have "sorted_wrt (\<lambda>a b. \<not> ListJobs_less b a) (map read rows)"
    unfolding sorted_wrt_map using rows(4)
    by (rule sorted_wrt_mono_rel [rotated]) (auto simp: jobs_order_def ListJobs_less_def each(4,5))
  ultimately show ?thesis by blast
qed

lemma mirror_execution_row:
  assumes "mirrors kt kd fits_job jrows (execs_of d) s" and "execs_of d (ER_ID r) = Some r"
  obtains ex where "executions s (ER_ID r) = Some ex" and "Exec_ID ex = ER_ID r" and "Exec_JobID ex = ER_JobID r"
    and "Exec_Attempt ex = ER_Attempt r" and "scanExecution (Row r) = Inr (kept_execution kt ex)"
proof -
  have row: "execs_of d eid = map_option (\<lambda>ex. keep_exec kt (encodeExecution ex)) (executions s eid)" for eid
    using assms(1) by (simp add: mirrors_def)
  obtain ex where ex: "executions s (ER_ID r) = Some ex" "r = keep_exec kt (encodeExecution ex)"
    by (rule map_option_SomeE [OF assms(2) [unfolded row]])
  have "Exec_ID ex = ER_ID r" using assms(1) ex(1) by (simp add: mirrors_def)
  moreover have "Exec_JobID ex = ER_JobID r" "Exec_Attempt ex = ER_Attempt r" by (subst ex(2), simp)+
  moreover have "scanExecution (Row r) = Inr (kept_execution kt ex)" by (subst ex(2), rule scanExecution_kept)
  ultimately show thesis using ex(1) that by blast
qed

lemma mirror_ListExecutions:
  assumes "db_ok d" and "mirrors kt kd fits_job (jobs_of d) (execs_of d) s" and "plain jid"
  shows "\<exists>es. Mysql_ListExecutions db d jid = (map (kept_execution kt) es, None) \<and> distinct es \<and>
     set es = {ex. executions s (Exec_ID ex) = Some ex \<and> Exec_JobID ex = jid} \<and>
     sorted_wrt (\<lambda>a b. \<not> ListExecutions_less b a) es"
proof -
  have row: "execs_of d eid = map_option (\<lambda>ex. keep_exec kt (encodeExecution ex)) (executions s eid)" for eid
    using assms(2) by (simp add: mirrors_def)
  obtain rows where rows: "select_executions db jid d = Inr (map Row rows, None)" "distinct (map ER_ID rows)"
      "\<And>r. r \<in> set rows \<longleftrightarrow> execs_of d (ER_ID r) = Some r \<and> ER_JobID r = jid"
      "sorted_wrt (\<lambda>a b. ER_Attempt a \<le> ER_Attempt b) rows"
    using select_executions_rows [OF assms(1,3)] by blast
  define stored where "stored = (\<lambda>r :: execRecord. the (executions s (ER_ID r)))"
  have each: "executions s (Exec_ID (stored r)) = Some (stored r)" "Exec_ID (stored r) = ER_ID r" "Exec_JobID (stored r) = jid"
      "Exec_Attempt (stored r) = ER_Attempt r" "scanExecution (Row r) = Inr (kept_execution kt (stored r))" if "r \<in> set rows" for r
  proof -
    have r: "execs_of d (ER_ID r) = Some r" "ER_JobID r = jid" using iffD1 [OF rows(3) that] by auto
    from mirror_execution_row [OF assms(2) r(1)] obtain ex where
      ex: "executions s (ER_ID r) = Some ex" "Exec_ID ex = ER_ID r" "Exec_JobID ex = ER_JobID r"
        "Exec_Attempt ex = ER_Attempt r" "scanExecution (Row r) = Inr (kept_execution kt ex)" .
    have "stored r = ex" by (simp only: stored_def ex(1) option.sel)
    with ex r(2) show "executions s (Exec_ID (stored r)) = Some (stored r)" "Exec_ID (stored r) = ER_ID r"
      "Exec_JobID (stored r) = jid" "Exec_Attempt (stored r) = ER_Attempt r"
      "scanExecution (Row r) = Inr (kept_execution kt (stored r))" by (simp_all only:)
  qed
  have "distinct (map stored rows)" using rows(2) each(2) by (rule distinct_rows)
  moreover have "ex \<in> stored ` set rows" if "executions s (Exec_ID ex) = Some ex" "Exec_JobID ex = jid" for ex
  proof -
    let ?r = "keep_exec kt (encodeExecution ex)"
    have "?r \<in> set rows" using that rows(3) [of ?r] row [of "Exec_ID ex"] by simp
    moreover have "stored ?r = ex" using that by (simp add: stored_def)
    ultimately show ?thesis by force
  qed
  with each(1,3) have "set (map stored rows) = {ex. executions s (Exec_ID ex) = Some ex \<and> Exec_JobID ex = jid}" by auto
  moreover have "Mysql_ListExecutions db d jid = (map (kept_execution kt) (map stored rows), None)"
    using read_rows_map [of rows scanExecution "\<lambda>r. kept_execution kt (stored r)" "[]"] each(5)
    by (simp add: Mysql_ListExecutions_def rows(1) comp_def)
  moreover have "sorted_wrt (\<lambda>a b. \<not> ListExecutions_less b a) (map stored rows)"
    unfolding sorted_wrt_map using rows(4)
    by (rule sorted_wrt_mono_rel [rotated]) (auto simp: ListExecutions_less_def each(4))
  ultimately show ?thesis by blast
qed

text \<open>An update that changes nothing is answered as if the job did not exist.\<close>

lemma unchanged_update:
  assumes "db_ok d" and "mirrors kt kd fits_job (jobs_of d) (execs_of d) s"
    and "map_of (jobs s) (Job_ID job) = Some job"
  shows "fst (Mysql_UpdateJob db d job) = Some ErrNotFound" and "\<exists>s'. Memory_UpdateJob s job = Inr s'"
proof -
  have "fits_job (encodeJob job)" "jobs_of d (Job_ID job) = Some (keep_row kt kd (encodeJob job))"
    using assms(2,3) by (auto simp: mirrors_def)
  with update_job_found [OF assms(1), of "encodeJob job"] obtain d' where
    "update_job db (encodeJob job) d = (Inr (Inr 0), d')" by force
  then show "fst (Mysql_UpdateJob db d job) = Some ErrNotFound"
    by (simp add: Mysql_UpdateJob_def ensureUpdated_def)
  show "\<exists>s'. Memory_UpdateJob s job = Inr s'" by (simp add: Memory_UpdateJob_def assms(3))
qed

end

end
