(* ===== verification/Mysql_Tables.thy ===== *)
theory Mysql_Tables
  imports Mysql
begin

text \<open>
  The tables of \<^verbatim>\<open>migrations/001_init.sql\<close> as a concrete server for the MySQL store: what a
  column accepts and keeps, the statements of \<^verbatim>\<open>internal/store/mysql/store.go\<close> on lists of rows,
  that they keep the promises of the locale \<open>mysql_server\<close>, and what follows for the store.
\<close>

section \<open>Tables with the columns of the migrations\<close>

text \<open>
  MySQL 8 in strict mode: a \<^verbatim>\<open>VARCHAR(n)\<close> holds \<open>n\<close> characters, a \<^verbatim>\<open>TEXT\<close> 65535 bytes, an
  \<^verbatim>\<open>INT\<close> 32 bits, a \<^verbatim>\<open>TIMESTAMP\<close> whole seconds from 1970 to 2038, and a value that does not fit
  is an error. A JSON object is stored with its keys ordered by length and then by bytes.

  Two things depend on the deployment, and are arguments. The migrations name no collation, so
  the server compares identifiers by its default one, which takes letters of different case for
  equal; \<open>ck\<close> is what it compares, the collation key of a text. And the driver hands over
  times that \<^verbatim>\<open>Scan\<close> can store only when the data source name asks for it with \<^verbatim>\<open>parseTime\<close>. The time
  zone of the session is one without changes of the clock.
\<close>

function utf8_bytes :: "nat list \<Rightarrow> bool" where
  "utf8_bytes [] = True"
| "utf8_bytes (b # bs) =
     (if rune_size (b # bs) = 0 then False else utf8_bytes (drop (rune_size (b # bs)) (b # bs)))"
  by pat_completeness auto
termination
  by (relation "measure length") auto

definition utf8_ok :: "string \<Rightarrow> bool" where
  "utf8_ok s \<longleftrightarrow> utf8_bytes (map of_char s)"

definition characters :: "string \<Rightarrow> nat" where
  "characters s = length (filter (\<lambda>c. (of_char c :: nat) div 64 \<noteq> 2) s)"

definition varchar :: "nat \<Rightarrow> string \<Rightarrow> bool" where
  "varchar n s \<longleftrightarrow> utf8_ok s \<and> characters s \<le> n"

definition text_column :: "string \<Rightarrow> bool" where
  "text_column s \<longleftrightarrow> utf8_ok s \<and> length s \<le> 65535"

definition int_column :: "int \<Rightarrow> bool" where
  "int_column z \<longleftrightarrow> - (2 ^ 31) \<le> z \<and> z < 2 ^ 31"

definition keep_seconds :: "gtime \<Rightarrow> gtime" where
  "keep_seconds t = (t + 500000000) div 1000000000 * 1000000000"

definition timestamp_column :: "gtime \<Rightarrow> bool" where
  "timestamp_column t \<longleftrightarrow> 0 < keep_seconds t \<and> keep_seconds t < 2 ^ 31 * 1000000000"

definition key_less :: "string \<times> json \<Rightarrow> string \<times> json \<Rightarrow> bool" where
  "key_less a b \<longleftrightarrow> length (fst a) < length (fst b) \<or> length (fst a) = length (fst b) \<and> str_less (fst a) (fst b)"

fun mysql_doc :: "json \<Rightarrow> json" where
  "mysql_doc (JObject kvs) = JObject (sort_slice key_less (map (\<lambda>(k, v). (k, mysql_doc v)) kvs))"
| "mysql_doc (JArray vs) = JArray (map mysql_doc vs)"
| "mysql_doc v = v"

fun doc_ok :: "json \<Rightarrow> bool" where
  "doc_ok (JObject kvs) = list_all (\<lambda>(k, v). utf8_ok k \<and> doc_ok v) kvs"
| "doc_ok (JArray vs) = list_all doc_ok vs"
| "doc_ok (JString s) = utf8_ok s"
| "doc_ok v = True"

definition json_column :: "json option \<Rightarrow> bool" where
  "json_column d = (case d of None \<Rightarrow> False | Some v \<Rightarrow> doc_ok v)"

definition row_fits :: "jobRecord \<Rightarrow> bool" where
  "row_fits r \<longleftrightarrow> varchar 64 (JR_ID r) \<and> varchar 255 (JR_Name r) \<and> varchar 32 (JR_Type r) \<and> varchar 64 (JR_Executor r) \<and>
     int_column (JR_Priority r) \<and> varchar 128 (JR_ModelVersion r) \<and> varchar 128 (JR_DatasetVersion r) \<and>
     varchar 255 (JR_ImageTag r) \<and> json_column (JR_ResourceSpec r) \<and> json_column (JR_Command r) \<and>
     json_column (JR_Environment r) \<and> json_column (JR_Metadata r) \<and> int_column (JR_MaxRetries r) \<and>
     int_column (JR_RetryCount r) \<and> text_column (JR_LastError r) \<and> varchar 64 (JR_TraceID r) \<and>
     timestamp_column (JR_CreatedAt r) \<and> timestamp_column (JR_UpdatedAt r)"

definition exec_fits :: "execRecord \<Rightarrow> bool" where
  "exec_fits r \<longleftrightarrow> varchar 64 (ER_ID r) \<and> varchar 64 (ER_JobID r) \<and> int_column (ER_Attempt r) \<and>
     varchar 64 (ER_Executor r) \<and> varchar 64 (ER_TraceID r) \<and> text_column (ER_Logs r) \<and> text_column (ER_Manifest r) \<and>
     int_column (ER_ExitCode r) \<and> text_column (ER_Error r) \<and> timestamp_column (ER_StartedAt r) \<and>
     pred_option timestamp_column (ER_FinishedAt r)"

record tables =
  tab_jobs :: "(string \<times> jobRecord) list"
  tab_execs :: "(string \<times> execRecord) list"

text \<open>
  The identifiers the program makes have small letters, digits and hyphens; a collation key
  keeps them apart.
\<close>

definition plain_id :: "string \<Rightarrow> bool" where
  "plain_id s \<longleftrightarrow> s \<noteq> '''' \<and>
     list_all (\<lambda>c. (of_char c :: nat) = 45 \<or> 48 \<le> (of_char c :: nat) \<and> (of_char c :: nat) \<le> 57 \<or>
       97 \<le> (of_char c :: nat) \<and> (of_char c :: nat) \<le> 122) s"

definition collation_ok :: "(string \<Rightarrow> string) \<Rightarrow> bool" where
  "collation_ok ck \<longleftrightarrow> inj_on ck (Collect plain_id)"

definition plain_job :: "jobRecord \<Rightarrow> bool" where
  "plain_job r \<longleftrightarrow> row_fits r \<and> plain_id (JR_ID r)"

definition plain_exec :: "execRecord \<Rightarrow> bool" where
  "plain_exec r \<longleftrightarrow> exec_fits r \<and> plain_id (ER_ID r) \<and> plain_id (ER_JobID r)"

text \<open>The rows by their collation keys, and by their identifiers as far as these are plain.\<close>

definition table_ok :: "(string \<Rightarrow> string) \<Rightarrow> ('r \<Rightarrow> string) \<Rightarrow> (string \<times> 'r) list \<Rightarrow> bool" where
  "table_ok ck ident rows \<longleftrightarrow>
     keyed_wf (\<lambda>r. ck (ident r)) rows \<and> list_all (\<lambda>r. plain_id (ident r)) (map snd rows)"

definition tables_ok :: "(string \<Rightarrow> string) \<Rightarrow> tables \<Rightarrow> bool" where
  "tables_ok ck t \<longleftrightarrow>
     table_ok ck JR_ID (tab_jobs t) \<and> table_ok ck ER_ID (tab_execs t) \<and>
     list_all (\<lambda>r. plain_id (ER_JobID r)) (map snd (tab_execs t))"

definition by_id :: "(string \<Rightarrow> string) \<Rightarrow> (string \<times> 'r) list \<Rightarrow> string \<rightharpoonup> 'r" where
  "by_id ck rows i = (if plain_id i then map_of rows (ck i) else None)"

definition row_less :: "jobRecord \<Rightarrow> jobRecord \<Rightarrow> bool" where
  "row_less a b \<longleftrightarrow> \<not> jobs_order b a"

definition exec_less :: "execRecord \<Rightarrow> execRecord \<Rightarrow> bool" where
  "exec_less a b \<longleftrightarrow> ER_Attempt a < ER_Attempt b"

abbreviation keep_job_row :: "jobRecord \<Rightarrow> jobRecord" where
  "keep_job_row \<equiv> keep_row keep_seconds mysql_doc"

definition scan_time :: "bool \<Rightarrow> 'r \<Rightarrow> 'r scanned" where
  "scan_time parseTime r =
     (if parseTime then Row r
      else ScanError ''unsupported Scan, storing driver.Value type []uint8 into type *time.Time'')"

definition table_sql :: "(string \<Rightarrow> string) \<Rightarrow> bool \<Rightarrow> tables sql" where
  "table_sql ck parseTime =
     \<lparr>insert_job = (\<lambda>r t.
        if \<not> row_fits r then (Some ''Data too long for column'', t)
        else if map_of (tab_jobs t) (ck (JR_ID r)) \<noteq> None then (Some ''Duplicate entry'', t)
        else (None, t\<lparr>tab_jobs := AList.update (ck (JR_ID r)) (keep_job_row r) (tab_jobs t)\<rparr>)),
      update_job = (\<lambda>r t.
        case map_of (tab_jobs t) (ck (JR_ID r)) of
          None \<Rightarrow> (Inr (Inr 0), t)
        | Some old \<Rightarrow>
            if \<not> row_fits r then (Inl ''Data too long for column'', t)
            else
              (let row = (keep_job_row r)\<lparr>JR_ID := JR_ID old\<rparr>
               in (Inr (Inr (if row = old then 0 else 1)), t\<lparr>tab_jobs := AList.update (ck (JR_ID r)) row (tab_jobs t)\<rparr>))),
      select_job = (\<lambda>jid t. case map_of (tab_jobs t) (ck jid) of None \<Rightarrow> NoRows | Some r \<Rightarrow> scan_time parseTime r),
      select_jobs = (\<lambda>t. Inr (map (scan_time parseTime) (sort_slice row_less (map snd (tab_jobs t))), None)),
      insert_execution = (\<lambda>r t.
        if \<not> exec_fits r then (Some ''Data too long for column'', t)
        else if map_of (tab_execs t) (ck (ER_ID r)) \<noteq> None then (Some ''Duplicate entry'', t)
        else if map_of (tab_jobs t) (ck (ER_JobID r)) = None then (Some ''a foreign key constraint fails'', t)
        else (None, t\<lparr>tab_execs := AList.update (ck (ER_ID r)) (keep_exec keep_seconds r) (tab_execs t)\<rparr>)),
      update_execution = (\<lambda>r t.
        case map_of (tab_execs t) (ck (ER_ID r)) of
          None \<Rightarrow> (Inr (Inr 0), t)
        | Some old \<Rightarrow>
            if \<not> exec_fits r then (Inl ''Data too long for column'', t)
            else if ck (ER_JobID r) \<noteq> ck (ER_JobID old) \<and> map_of (tab_jobs t) (ck (ER_JobID r)) = None then
              (Inl ''a foreign key constraint fails'', t)
            else
              (let row = (keep_exec keep_seconds r)\<lparr>ER_ID := ER_ID old\<rparr>
               in (Inr (Inr (if row = old then 0 else 1)), t\<lparr>tab_execs := AList.update (ck (ER_ID r)) row (tab_execs t)\<rparr>))),
      select_executions = (\<lambda>jid t.
        Inr (map (scan_time parseTime) (sort_slice exec_less (filter (\<lambda>r. ck (ER_JobID r) = ck jid) (map snd (tab_execs t)))), None))\<rparr>"

section \<open>The tables keep the promises\<close>

interpretation job_rows: strict_weak_order row_less
  by unfold_locales (auto simp: row_less_def jobs_order_def)

interpretation exec_rows: strict_weak_order exec_less
  by unfold_locales (auto simp: exec_less_def)

lemma leaf_kept: "leaf v \<Longrightarrow> mysql_doc v = v"
  by (cases v) (simp_all add: leaf_def)

interpretation mysql_json: json_columns mysql_doc doc_ok
proof
  show "mysql_doc JNull = JNull" by simp
  show "mysql_doc (JArray (map JString xs)) = JArray (map JString xs)" for xs by simp
  show "\<exists>kvs'. mysql_doc (JObject kvs) = JObject kvs' \<and> mset kvs' = mset kvs"
    if "list_all leaf (map snd kvs)" for kvs
  proof -
    have "map (\<lambda>(k, v). (k, mysql_doc v)) kvs = map (\<lambda>e. e) kvs"
      using that by (intro map_cong) (force simp: list_all_iff intro: leaf_kept)+
    then show ?thesis by simp
  qed
qed

lemma keyed_rows:
  assumes "keyed_wf key kvs"
  shows "distinct (map key (map snd kvs))" and "r \<in> set (map snd kvs) \<longleftrightarrow> map_of kvs (key r) = Some r"
proof -
  have keys: "map key (map snd kvs) = map fst kvs"
    using assms by (auto simp: keyed_wf_def list_all_iff)
  show "distinct (map key (map snd kvs))" unfolding keys by (rule keyed_wf_distinct [OF assms])
  show "r \<in> set (map snd kvs) \<longleftrightarrow> map_of kvs (key r) = Some r"
    using assms by (auto simp: keyed_wf_def list_all_iff image_iff intro: bexI [of _ "(key r, r)"])
qed

text \<open>Plain identifiers are compared exactly, so a table is a map from them to its rows.\<close>

lemma collation_eq: "collation_ok ck \<Longrightarrow> plain_id a \<Longrightarrow> plain_id b \<Longrightarrow> ck a = ck b \<longleftrightarrow> a = b"
  by (auto simp: collation_ok_def inj_on_def)

lemma table_plain: "table_ok ck ident rows \<Longrightarrow> (k, r) \<in> set rows \<Longrightarrow> plain_id (ident r)"
  by (force simp: table_ok_def list_all_iff)

lemma by_id_ident:
  assumes "collation_ok ck" and "table_ok ck ident rows" and "by_id ck rows i = Some r"
  shows "ident r = i"
proof -
  have "plain_id i" and r: "map_of rows (ck i) = Some r" using assms(3) by (auto simp: by_id_def split: if_splits)
  moreover have "keyed_wf (\<lambda>r. ck (ident r)) rows" using assms(2) by (simp add: table_ok_def)
  from keyed_wf_lookup [OF this r] have "ck (ident r) = ck i" .
  moreover have "plain_id (ident r)" using table_plain [OF assms(2) map_of_SomeD [OF r]] .
  ultimately show ?thesis using collation_eq [OF assms(1)] by blast
qed

lemma by_id_update:
  "collation_ok ck \<Longrightarrow> plain_id i \<Longrightarrow> by_id ck (AList.update (ck i) r rows) = (by_id ck rows)(i \<mapsto> r)"
  by (auto simp: by_id_def fun_eq_iff collation_eq)

lemma table_ok_update:
  assumes "table_ok ck ident rows" and "plain_id i" and "ident r = i"
  shows "table_ok ck ident (AList.update (ck i) r rows)"
proof -
  have "list_all (\<lambda>r. plain_id (ident r)) (map snd (AList.update (ck i) r rows))"
    using assms by (induction rows) (auto simp: table_ok_def keyed_wf_def)
  then show ?thesis using assms keyed_wf_update [of "\<lambda>r. ck (ident r)" rows r] by (simp add: table_ok_def)
qed

lemma update_all:
  "list_all P (map snd rows) \<Longrightarrow> P r \<Longrightarrow> list_all P (map snd (AList.update k r rows))"
  by (induction rows) auto

lemma table_rows:
  assumes "collation_ok ck" and "table_ok ck ident rows"
  shows "distinct (map ident (map snd rows))" and "r \<in> set (map snd rows) \<longleftrightarrow> by_id ck rows (ident r) = Some r"
proof -
  have wf: "keyed_wf (\<lambda>r. ck (ident r)) rows" using assms(2) by (simp add: table_ok_def)
  have "map (\<lambda>r. ck (ident r)) (map snd rows) = map ck (map ident (map snd rows))" by simp
  with keyed_rows(1) [OF wf] show "distinct (map ident (map snd rows))" by (metis distinct_map)
  have "plain_id (ident r)" if "r \<in> set (map snd rows)" using that assms(2) by (auto simp: table_ok_def list_all_iff)
  then show "r \<in> set (map snd rows) \<longleftrightarrow> by_id ck rows (ident r) = Some r"
    using keyed_rows(2) [OF wf, of r] by (auto simp: by_id_def)
qed

lemma scan_time_row [simp]: "scan_time True = Row"
  by (simp add: fun_eq_iff scan_time_def)

lemma keep_same_id [simp]: "i = JR_ID r \<Longrightarrow> (keep_row kt kd r)\<lparr>JR_ID := i\<rparr> = keep_row kt kd r"
  "j = ER_ID e \<Longrightarrow> (keep_exec kt e)\<lparr>ER_ID := j\<rparr> = keep_exec kt e"
  by (simp_all add: keep_row_def keep_exec_def)

text \<open>The statements that change a row, for plain identifiers.\<close>

lemma tables_insert_job:
  assumes "collation_ok ck" and "tables_ok ck t" and "plain_job r" and "by_id ck (tab_jobs t) (JR_ID r) = None"
  shows "\<exists>t'. insert_job (table_sql ck True) r t = (None, t') \<and> tables_ok ck t' \<and>
    by_id ck (tab_jobs t') = (by_id ck (tab_jobs t))(JR_ID r \<mapsto> keep_job_row r) \<and> by_id ck (tab_execs t') = by_id ck (tab_execs t)"
  using assms by (auto simp: table_sql_def plain_job_def tables_ok_def by_id_update table_ok_update by_id_def [of _ _ "JR_ID r"])

lemma tables_update_job:
  assumes "collation_ok ck" and "tables_ok ck t" and "plain_job r" and "by_id ck (tab_jobs t) (JR_ID r) = Some old"
  shows "\<exists>t'. update_job (table_sql ck True) r t = (Inr (Inr (if keep_job_row r = old then 0 else 1)), t') \<and> tables_ok ck t' \<and>
    by_id ck (tab_jobs t') = (by_id ck (tab_jobs t))(JR_ID r \<mapsto> keep_job_row r) \<and> by_id ck (tab_execs t') = by_id ck (tab_execs t)"
proof -
  have "JR_ID old = JR_ID r" using by_id_ident [OF assms(1) _ assms(4)] assms(2) by (auto simp: tables_ok_def)
  moreover have "map_of (tab_jobs t) (ck (JR_ID r)) = Some old" using assms(4) by (auto simp: by_id_def split: if_splits)
  ultimately show ?thesis using assms(1-3)
    by (auto simp: table_sql_def plain_job_def tables_ok_def by_id_update table_ok_update Let_def)
qed

lemma tables_insert_execution:
  assumes "collation_ok ck" and "tables_ok ck t" and "plain_exec e" and "by_id ck (tab_execs t) (ER_ID e) = None"
    and "by_id ck (tab_jobs t) (ER_JobID e) \<noteq> None"
  shows "\<exists>t'. insert_execution (table_sql ck True) e t = (None, t') \<and> tables_ok ck t' \<and>
    by_id ck (tab_execs t') = (by_id ck (tab_execs t))(ER_ID e \<mapsto> keep_exec keep_seconds e) \<and>
    by_id ck (tab_jobs t') = by_id ck (tab_jobs t)"
proof -
  have "map_of (tab_jobs t) (ck (ER_JobID e)) \<noteq> None" "map_of (tab_execs t) (ck (ER_ID e)) = None"
    using assms(3-5) by (auto simp: by_id_def plain_exec_def split: if_splits)
  with assms(1-3) show ?thesis
    by (auto simp: table_sql_def plain_exec_def tables_ok_def by_id_update table_ok_update update_all)
qed

lemma tables_update_execution:
  assumes "collation_ok ck" and "tables_ok ck t" and "plain_exec e" and "by_id ck (tab_execs t) (ER_ID e) = Some prev"
    and "ER_JobID e = ER_JobID prev"
  shows "\<exists>t'. update_execution (table_sql ck True) e t = (Inr (Inr (if keep_exec keep_seconds e = prev then 0 else 1)), t') \<and>
    tables_ok ck t' \<and> by_id ck (tab_execs t') = (by_id ck (tab_execs t))(ER_ID e \<mapsto> keep_exec keep_seconds e) \<and>
    by_id ck (tab_jobs t') = by_id ck (tab_jobs t)"
proof -
  have "ER_ID prev = ER_ID e" using by_id_ident [OF assms(1) _ assms(4)] assms(2) by (auto simp: tables_ok_def)
  moreover have "map_of (tab_execs t) (ck (ER_ID e)) = Some prev" using assms(4) by (auto simp: by_id_def split: if_splits)
  ultimately show ?thesis using assms(1-3,5)
    by (auto simp: table_sql_def plain_exec_def tables_ok_def by_id_update table_ok_update update_all Let_def)
qed

text \<open>The listings.\<close>

lemma tables_select_jobs:
  assumes "collation_ok ck" and "tables_ok ck t"
  shows "\<exists>rows. select_jobs (table_sql ck True) t = Inr (map Row rows, None) \<and> distinct (map JR_ID rows) \<and>
    (\<forall>r. r \<in> set rows \<longleftrightarrow> by_id ck (tab_jobs t) (JR_ID r) = Some r) \<and> sorted_wrt jobs_order rows"
proof (intro exI conjI)
  let ?rows = "sort_slice row_less (map snd (tab_jobs t))"
  show "select_jobs (table_sql ck True) t = Inr (map Row ?rows, None)" by (simp add: table_sql_def)
  have wf: "table_ok ck JR_ID (tab_jobs t)" using assms(2) by (simp add: tables_ok_def)
  have "mset (map JR_ID ?rows) = mset (map JR_ID (map snd (tab_jobs t)))" by (simp add: multiset.map_comp)
  then show "distinct (map JR_ID ?rows)" using table_rows(1) [OF assms(1) wf] by (metis mset_eq_imp_distinct_iff)
  show "\<forall>r. r \<in> set ?rows \<longleftrightarrow> by_id ck (tab_jobs t) (JR_ID r) = Some r"
    using table_rows(2) [OF assms(1) wf] by simp
  show "sorted_wrt jobs_order ?rows"
    using job_rows.sorted_sort_slice [of "map snd (tab_jobs t)"] by (simp add: row_less_def)
qed

lemma tables_select_executions:
  assumes "collation_ok ck" and "tables_ok ck t" and "plain_id jid"
  shows "\<exists>rows. select_executions (table_sql ck True) jid t = Inr (map Row rows, None) \<and> distinct (map ER_ID rows) \<and>
    (\<forall>r. r \<in> set rows \<longleftrightarrow> by_id ck (tab_execs t) (ER_ID r) = Some r \<and> ER_JobID r = jid) \<and>
    sorted_wrt (\<lambda>a b. ER_Attempt a \<le> ER_Attempt b) rows"
proof (intro exI conjI)
  let ?sel = "filter (\<lambda>r. ck (ER_JobID r) = ck jid) (map snd (tab_execs t))"
  let ?rows = "sort_slice exec_less ?sel"
  show "select_executions (table_sql ck True) jid t = Inr (map Row ?rows, None)" by (simp add: table_sql_def)
  have wf: "table_ok ck ER_ID (tab_execs t)" using assms(2) by (simp add: tables_ok_def)
  have "distinct (map ER_ID ?sel)" using table_rows(1) [OF assms(1) wf] by (rule distinct_map_filter)
  moreover have "mset (map ER_ID ?rows) = mset (map ER_ID ?sel)" by simp
  ultimately show "distinct (map ER_ID ?rows)" by (metis mset_eq_imp_distinct_iff)
  have "ck (ER_JobID r) = ck jid \<longleftrightarrow> ER_JobID r = jid" if "r \<in> set (map snd (tab_execs t))" for r
    using that assms by (intro collation_eq) (auto simp: tables_ok_def list_all_iff)
  then show "\<forall>r. r \<in> set ?rows \<longleftrightarrow> by_id ck (tab_execs t) (ER_ID r) = Some r \<and> ER_JobID r = jid"
    using table_rows(2) [OF assms(1) wf] by auto
  show "sorted_wrt (\<lambda>a b. ER_Attempt a \<le> ER_Attempt b) ?rows"
    using exec_rows.sorted_sort_slice [of ?sel] by (simp add: exec_less_def not_less)
qed

lemma tables_server:
  assumes "collation_ok ck"
  shows "mysql_server mysql_doc doc_ok (table_sql ck True) (tables_ok ck) (\<lambda>t. by_id ck (tab_jobs t)) (\<lambda>t. by_id ck (tab_execs t))
    keep_seconds plain_job plain_exec plain_id"
proof unfold_locales
  show "pred_option doc_ok (JR_ResourceSpec r) \<and> pred_option doc_ok (JR_Command r) \<and>
      pred_option doc_ok (JR_Environment r) \<and> pred_option doc_ok (JR_Metadata r)" if "plain_job r" for r
    using that by (auto simp: plain_job_def row_fits_def json_column_def split: option.splits)
  show "update_job (table_sql ck True) r t = (Inr (Inr 0), t)"
    if "tables_ok ck t" "plain_id (JR_ID r)" "by_id ck (tab_jobs t) (JR_ID r) = None" for t r
    using that by (simp add: table_sql_def by_id_def)
  show "select_job (table_sql ck True) jid t = (case by_id ck (tab_jobs t) jid of None \<Rightarrow> NoRows | Some r \<Rightarrow> Row r)"
    if "tables_ok ck t" "plain_id jid" for t jid
    using that by (simp add: table_sql_def by_id_def split: option.splits)
qed (fact tables_insert_job [OF assms] tables_update_job [OF assms] tables_select_jobs [OF assms]
    tables_insert_execution [OF assms] tables_update_execution [OF assms] tables_select_executions [OF assms])+

text \<open>A comparison that does not see the case of letters keeps plain identifiers apart.\<close>

lemma fold_case_plain: "plain_id s \<Longrightarrow> fold_case s = s"
  by (auto simp: plain_id_def fold_case_def list_all_iff intro!: map_idI)

lemma fold_case_collation: "collation_ok fold_case"
  by (auto simp: collation_ok_def inj_on_def fold_case_plain)

interpretation mysql_tables: mysql_server mysql_doc doc_ok "table_sql fold_case True" "tables_ok fold_case"
  "\<lambda>t. by_id fold_case (tab_jobs t)" "\<lambda>t. by_id fold_case (tab_execs t)" keep_seconds plain_job plain_exec plain_id
  by (rule tables_server [OF fold_case_collation])

text \<open>
  The two stores differ on an update that leaves the row as it is: the memory store accepts it,
  the MySQL store answers that the job does not exist.
\<close>

lemma mysql_unchanged_update:
  assumes "tables_ok fold_case d"
    and "mirrors keep_seconds mysql_doc plain_job (by_id fold_case (tab_jobs d)) (by_id fold_case (tab_execs d)) s"
    and "map_of (jobs s) (Job_ID job) = Some job"
  shows "fst (Mysql_UpdateJob (table_sql fold_case True) d job) = Some ErrNotFound" and "\<exists>s'. Memory_UpdateJob s job = Inr s'"
  using mysql_tables.unchanged_update [OF assms] by blast+

text \<open>
  They also differ when the data source name does not ask for \<^verbatim>\<open>parseTime\<close>: no stored job can be read.
\<close>

lemma mysql_without_parseTime:
  "map_of (tab_jobs d) (ck jid) = Some r \<Longrightarrow> \<exists>err. Mysql_GetJob (table_sql ck False) d jid = Inl err"
  by (simp add: Mysql_GetJob_def table_sql_def scan_time_def scanJob_def)

section \<open>Properties\<close>

definition empty_tables :: tables where
  "empty_tables = \<lparr>tab_jobs = [], tab_execs = []\<rparr>"

text \<open>
  Property C36. The MySQL store behaves like the memory store, on a server that keeps plain
  identifiers apart (small letters, digits and hyphens, as the program makes them) under whatever
  collation, and with a data source name that asks for \<^verbatim>\<open>parseTime\<close>. After any sequence of creations
  and updates of jobs and executions with fresh plain identifiers, values that fit the columns and
  updates that change something, every operation has succeeded in both stores, and the same reads
  by plain identifiers give the same answers up to the rounding of times to seconds and the order
  of map entries. A missing job is not found in either; the listing has every job once, by
  priority and stored creation time; the executions of a job are listed by attempt.
\<close>

theorem mysql_follows_memory:
  assumes "collation_ok ck" and "ops_ok keep_seconds mysql_doc plain_job plain_exec NewMemoryStore ops"
  shows "\<exists>d s. mysql_ops (table_sql ck True) empty_tables ops = (None, d) \<and> memory_ops NewMemoryStore ops = Inr s \<and>
     (\<forall>jid. plain_id jid \<longrightarrow> (case Memory_GetJob s jid of
        Inl err \<Rightarrow> Mysql_GetJob (table_sql ck True) d jid = Inl err
      | Inr job \<Rightarrow> \<exists>job'. Mysql_GetJob (table_sql ck True) d jid = Inr job' \<and> same_job keep_seconds job' job)) \<and>
     (\<exists>js ms. Mysql_ListJobs (table_sql ck True) d = (js, None) \<and> mset ms = mset (map snd (jobs s)) \<and>
        list_all2 (same_job keep_seconds) js ms \<and> sorted_wrt (\<lambda>a b. \<not> ListJobs_less b a) js) \<and>
     (\<forall>jid. plain_id jid \<longrightarrow>
        (\<exists>es. Mysql_ListExecutions (table_sql ck True) d jid = (map (kept_execution keep_seconds) es, None) \<and> distinct es \<and>
          set es = {ex. executions s (Exec_ID ex) = Some ex \<and> Exec_JobID ex = jid} \<and>
          sorted_wrt (\<lambda>a b. \<not> ListExecutions_less b a) es))"
proof -
  note server = tables_server [OF assms(1)]
  have start: "tables_ok ck empty_tables"
      "mirrors keep_seconds mysql_doc plain_job (by_id ck (tab_jobs empty_tables)) (by_id ck (tab_execs empty_tables)) NewMemoryStore"
    by (auto simp: tables_ok_def table_ok_def empty_tables_def mirrors_def NewMemoryStore_def keyed_wf_def by_id_def)
  obtain d s where run: "mysql_ops (table_sql ck True) empty_tables ops = (None, d)" "memory_ops NewMemoryStore ops = Inr s"
      "tables_ok ck d" "mirrors keep_seconds mysql_doc plain_job (by_id ck (tab_jobs d)) (by_id ck (tab_execs d)) s"
    using mysql_server.mirror_run [OF server start assms(2)] by blast
  show ?thesis
    by (intro exI [of _ d] exI [of _ s] conjI allI impI run(1,2) mysql_server.mirror_GetJob [OF server run(3,4)]
        mysql_server.mirror_ListJobs [OF server run(3,4)] mysql_server.mirror_ListExecutions [OF server run(3,4)])
qed

definition demo_row_job :: "JobStatus \<Rightarrow> gtime \<Rightarrow> Job" where
  "demo_row_job st t = \<lparr>Job_ID = ''job-1'', Job_Name = ''train'', Job_Type = JobTypeTraining, Job_Status = st,
     Job_Executor = ''shell'', Job_Priority = 1, Job_ModelVersion = '''', Job_DatasetVersion = '''', Job_ImageTag = '''',
     Job_ResourceSpec = \<lparr>Spec_CPU = ''1'', Spec_Memory = '''', Spec_GPU = 0, Spec_GPUMemory = ''''\<rparr>,
     Job_Command = [''true''], Job_Environment = None, Job_Metadata = Some [(''team'', ''a''), (''b'', '''')],
     Job_MaxRetries = 1, Job_RetryCount = 0, Job_LastError = '''', Job_TraceID = ''t'',
     Job_CreatedAt = 1700000000600000000, Job_UpdatedAt = t\<rparr>"

definition demo_row_execution :: Execution where
  "demo_row_execution = \<lparr>Exec_ID = ''exec-2'', Exec_JobID = ''job-1'', Exec_Attempt = 1, Exec_Status = ExecutionStatusRunning,
     Exec_Executor = ''shell'', Exec_TraceID = ''t'', Exec_Logs = '''', Exec_Manifest = '''', Exec_ExitCode = 0, Exec_Error = '''',
     Exec_StartedAt = 1700000001000000000, Exec_FinishedAt = time_zero\<rparr>"

definition demo_ops :: "store_op list" where
  "demo_ops = [Put_Job (demo_row_job JobStatusPending 1700000000600000000),
     Set_Job (demo_row_job JobStatusRunning 1700000000700000000), Put_Execution demo_row_execution]"

lemma utf8_ascii: "list_all (\<lambda>c. (of_char c :: nat) < 128) s \<Longrightarrow> utf8_ok s"
proof -
  have "utf8_bytes bs" if "list_all (\<lambda>b. b < 128) bs" for bs
    using that by (induction bs) (simp_all add: rune_size_def)
  from this [of "map of_char s"] show "list_all (\<lambda>c. (of_char c :: nat) < 128) s \<Longrightarrow> utf8_ok s"
    by (simp add: utf8_ok_def list_all_iff)
qed

lemma demo_seconds: "keep_seconds 1700000000600000000 = 1700000001000000000" "keep_seconds 1700000000700000000 = 1700000001000000000"
  "keep_seconds 1700000001000000000 = 1700000001000000000"
  by (simp_all add: keep_seconds_def)

lemma demo_row_fits:
  assumes "t \<in> {1700000000600000000, 1700000000700000000}"
  shows "row_fits (encodeJob (demo_row_job st t))" and "go_job (demo_row_job st t)"
proof -
  show "row_fits (encodeJob (demo_row_job st t))"
    using assms
    by (auto simp: row_fits_def encodeJob_def demo_row_job_def json_column_def marshal_spec_def marshal_strings_def
        marshal_map_def varchar_def text_column_def int_column_def timestamp_column_def demo_seconds characters_def
        JobTypeTraining_def list_all_iff intro!: utf8_ascii)
  show "go_job (demo_row_job st t)" by (simp add: go_job_def go_map_def demo_row_job_def is_i64_def)
qed

lemma demo_exec_fits: "exec_fits (encodeExecution demo_row_execution)"
  by (auto simp: exec_fits_def encodeExecution_def demo_row_execution_def varchar_def text_column_def int_column_def
      timestamp_column_def demo_seconds characters_def intro!: utf8_ascii)

lemma demo_ops_ok: "ops_ok keep_seconds mysql_doc plain_job plain_exec NewMemoryStore demo_ops"
proof -
  have id: "Job_ID (demo_row_job st t) = ''job-1''" "Exec_ID demo_row_execution = ''exec-2''"
      "Exec_JobID demo_row_execution = ''job-1''" for st t
    by (simp_all add: demo_row_job_def demo_row_execution_def)
  have "JR_Status (keep_row kt kd (encodeJob (demo_row_job st t))) = st" for kt kd st t
    by (simp add: keep_row_def encodeJob_def demo_row_job_def)
  then have "keep_row kt kd (encodeJob (demo_row_job JobStatusRunning t)) \<noteq>
      keep_row kt kd (encodeJob (demo_row_job JobStatusPending u))" for kt kd t u
    by (metis JobStatus.distinct(3))
  then show ?thesis
    by (simp add: demo_ops_def op_ok_def memory_op_def Memory_CreateJob_def Memory_UpdateJob_def Memory_CreateExecution_def
        NewMemoryStore_def id demo_row_fits demo_exec_fits plain_job_def plain_exec_def plain_id_def)
qed

theorem mysql_follows_memory_witness:
  "\<exists>d job. mysql_ops (table_sql fold_case True) empty_tables demo_ops = (None, d) \<and> Mysql_GetJob (table_sql fold_case True) d ''job-1'' = Inr job \<and>
     Job_Priority job = 1 \<and> Job_CreatedAt job = 1700000001000000000"
proof -
  obtain d s where run: "mysql_ops (table_sql fold_case True) empty_tables demo_ops = (None, d)" "memory_ops NewMemoryStore demo_ops = Inr s"
    and get: "\<forall>jid. plain_id jid \<longrightarrow> (case Memory_GetJob s jid of
        Inl err \<Rightarrow> Mysql_GetJob (table_sql fold_case True) d jid = Inl err
      | Inr job \<Rightarrow> \<exists>job'. Mysql_GetJob (table_sql fold_case True) d jid = Inr job' \<and> same_job keep_seconds job' job)"
    by (insert mysql_follows_memory [OF fold_case_collation demo_ops_ok], elim exE conjE) (rule that)
  have "Memory_GetJob s ''job-1'' = Inr (demo_row_job JobStatusRunning 1700000000700000000)"
    using run(2) by (auto simp: demo_ops_def memory_op_def Memory_CreateJob_def Memory_UpdateJob_def
        Memory_CreateExecution_def Memory_GetJob_def NewMemoryStore_def demo_row_job_def)
  moreover have "plain_id ''job-1''" by (simp add: plain_id_def)
  ultimately obtain job where job: "Mysql_GetJob (table_sql fold_case True) d ''job-1'' = Inr job"
      "same_job keep_seconds job (demo_row_job JobStatusRunning 1700000000700000000)"
    using spec [OF get, of "''job-1''"] by auto
  from same_job_simps [OF job(2)] have "Job_Priority job = 1" "Job_CreatedAt job = 1700000001000000000"
    by (simp_all add: demo_row_job_def demo_seconds)
  with run(1) job(1) show ?thesis by blast
qed

end
