(* ===== verification/Commands.thy ===== *)
theory Commands
  imports Platform Gateway_Server Mysql Benchmark
begin

text \<open>
  The commands: \<^verbatim>\<open>cmd/scheduler\<close> and \<^verbatim>\<open>cmd/worker\<close>, which submit the job of a file to a
  platform of their own and schedule or run it; the start of \<^verbatim>\<open>cmd/api-server\<close> and
  \<^verbatim>\<open>cmd/gateway\<close> from the environment variables. \<^verbatim>\<open>log.Fatal\<close> is the outcome \<open>Fatal\<close> with the
  message, where the text of a library error is an argument.
\<close>

section \<open>Environment variables\<close>

text \<open>\<^verbatim>\<open>os.Getenv\<close> answers the empty string for a variable that is not set.\<close>

type_synonym getenv = "string \<Rightarrow> string"

definition envOrDefault :: "getenv \<Rightarrow> string \<Rightarrow> string \<Rightarrow> string" where
  "envOrDefault env key fallback = (if env key = '''' then fallback else env key)"

text \<open>
  \<^verbatim>\<open>strings.TrimSpace\<close>: the UTF-8 encodings of the white space of Unicode are cut from both
  ends.
\<close>

definition space_runes :: "string list" where
  "space_runes = map (map char_of)
     ([[9], [10], [11], [12], [13], [32], [194, 133], [194, 160], [225, 154, 128]] @
      map (\<lambda>b. [226, 128, b]) [128..<139] @
      [[226, 128, 168], [226, 128, 169], [226, 128, 175], [226, 129, 159], [227, 128, 128 :: nat]])"

function trim_front :: "string list \<Rightarrow> string \<Rightarrow> string" where
  "trim_front sps s =
     (case List.find (\<lambda>sp. sp \<noteq> [] \<and> take (length sp) s = sp) sps of
        None \<Rightarrow> s
      | Some sp \<Rightarrow> trim_front sps (drop (length sp) s))"
  by pat_completeness auto
termination
proof (relation "measure (\<lambda>(sps, s). length s)", simp)
  fix sps s sp
  assume "List.find (\<lambda>sp. sp \<noteq> [] \<and> take (length sp) s = sp) sps = Some sp"
  then have "sp \<noteq> []" "take (length sp) s = sp" by (auto simp: find_Some_iff)
  then have "s \<noteq> []" by auto
  with \<open>sp \<noteq> []\<close> show "((sps, drop (length sp) s), sps, s) \<in> measure (\<lambda>(sps, s). length s)" by simp
qed

declare trim_front.simps [simp del]

definition TrimSpace :: "string \<Rightarrow> string" where
  "TrimSpace s = rev (trim_front (map rev space_runes) (rev (trim_front space_runes s)))"

text \<open>The error of \<^verbatim>\<open>strconv.Atoi\<close>.\<close>

definition Atoi_error :: "string \<Rightarrow> string" where
  "Atoi_error s =
     ''strconv.Atoi: parsing '' @ Quote s @ '': '' @
     (let r = snd (scan_sign s) in if r \<noteq> [] \<and> list_all is_digit r then ''value out of range'' else ''invalid syntax'')"

definition intEnvOrDefault :: "getenv \<Rightarrow> string \<Rightarrow> int \<Rightarrow> string + int" where
  "intEnvOrDefault env key fallback =
     (let raw = TrimSpace (env key)
      in if raw = '''' then Inr fallback
         else (case Atoi raw of None \<Rightarrow> Inl (key @ '' must be an integer: '' @ Atoi_error raw) | Some n \<Rightarrow> Inr n))"

definition durationEnvOrDefault :: "(string \<Rightarrow> string + duration) \<Rightarrow> getenv \<Rightarrow> string \<Rightarrow> duration \<Rightarrow> string + duration" where
  "durationEnvOrDefault ParseDuration env key fallback =
     (let raw = TrimSpace (env key)
      in if raw = '''' then Inr fallback
         else (case ParseDuration raw of
                 Inl err \<Rightarrow> Inl (key @ '' must be a valid duration: '' @ err)
               | Inr d \<Rightarrow> Inr d))"

section \<open>The gateway\<close>

text \<open>The loop over the decoded backends: the first defect is the error.\<close>

fun check_backends :: "nat \<Rightarrow> Backend list \<Rightarrow> string + Backend list" where
  "check_backends i [] = Inr []"
| "check_backends i (b # bs) =
     (if Backend_ID b = '''' then Inl (''backend['' @ utoa i @ ''] id is required'')
      else if Backend_Endpoint b = '''' then Inl (''backend['' @ utoa i @ ''] endpoint is required'')
      else (case check_backends (Suc i) bs of
              Inl err \<Rightarrow> Inl err
            | Inr rest \<Rightarrow> Inr ((if Backend_Weight b \<le> 0 then b\<lparr>Backend_Weight := 1\<rparr> else b) # rest)))"

definition parseBackendsJSON :: "(string \<Rightarrow> string + Backend list) \<Rightarrow> string \<Rightarrow> string + Backend list" where
  "parseBackendsJSON unmarshal raw =
     (if raw = '''' then Inr []
      else (case unmarshal raw of
              Inl err \<Rightarrow> Inl (''invalid GATEWAY_BACKENDS_JSON: '' @ err)
            | Inr backends \<Rightarrow> check_backends 0 backends))"

definition parseRateLimitsJSON :: "(string \<Rightarrow> string + (string \<rightharpoonup> int)) \<Rightarrow> string \<Rightarrow> string + (string \<rightharpoonup> int)" where
  "parseRateLimitsJSON unmarshal raw =
     (if raw = '''' then Inr Map.empty
      else (case unmarshal raw of
              Inl err \<Rightarrow> Inl (''invalid GATEWAY_RATE_LIMITS_JSON: '' @ err)
            | Inr limits \<Rightarrow> Inr limits))"

text \<open>The library functions the start of the gateway calls on text.\<close>

record gateway_libs =
  lib_ParseDuration :: "string \<Rightarrow> string + duration"
  lib_backends :: "string \<Rightarrow> string + Backend list"
  lib_limits :: "string \<Rightarrow> string + (string \<rightharpoonup> int)"

definition mustLoadBackends :: "gateway_libs \<Rightarrow> getenv \<Rightarrow> string + Backend list" where
  "mustLoadBackends lib env =
     (case parseBackendsJSON (lib_backends lib) (TrimSpace (env ''GATEWAY_BACKENDS_JSON'')) of
        Inl err \<Rightarrow> Inl (''load gateway backends: '' @ err)
      | Inr backends \<Rightarrow> Inr backends)"

definition mustLoadRateLimits :: "gateway_libs \<Rightarrow> getenv \<Rightarrow> string + (string \<rightharpoonup> int)" where
  "mustLoadRateLimits lib env =
     (case parseRateLimitsJSON (lib_limits lib) (TrimSpace (env ''GATEWAY_RATE_LIMITS_JSON'')) of
        Inl err \<Rightarrow> Inl (''load gateway rate limits: '' @ err)
      | Inr limits \<Rightarrow> Inr limits)"

definition and_then :: "string + 'a \<Rightarrow> ('a \<Rightarrow> string + 'b) \<Rightarrow> string + 'b" where
  "and_then r f = (case r of Inl err \<Rightarrow> Inl err | Inr x \<Rightarrow> f x)"

text \<open>\<open>main\<close> up to the gateway it builds; the first fatal error ends the process.\<close>

definition gateway_main :: "gateway_libs \<Rightarrow> getenv \<Rightarrow> string + Gateway" where
  "gateway_main lib env =
     (let cfg = Gateway_DefaultConfig; dur = durationEnvOrDefault (lib_ParseDuration lib) env
      in and_then (intEnvOrDefault env ''GATEWAY_DEFAULT_RPS'' (gc_DefaultRPS cfg)) (\<lambda>rps.
         and_then (dur ''GATEWAY_REQUEST_TIMEOUT'' (gc_RequestTimeout cfg)) (\<lambda>reqTimeout.
         and_then (dur ''GATEWAY_HEALTH_INTERVAL'' (gc_HealthInterval cfg)) (\<lambda>healthInterval.
         and_then (dur ''GATEWAY_HEALTH_TIMEOUT'' (gc_HealthTimeout cfg)) (\<lambda>healthTimeout.
         and_then (mustLoadBackends lib env) (\<lambda>backends.
         and_then (mustLoadRateLimits lib env) (\<lambda>limits.
           Inr (Gateway_New
             \<lparr>gc_ListenAddr = envOrDefault env ''GATEWAY_LISTEN'' (gc_ListenAddr cfg), gc_Backends = backends,
              gc_RateLimits = limits, gc_DefaultRPS = rps, gc_RequestTimeout = reqTimeout,
              gc_HealthInterval = healthInterval, gc_HealthTimeout = healthTimeout\<rparr>))))))))"

text \<open>\<open>gateway_start\<close> goes on to the first probes; a fatal error keeps its message.\<close>

definition gateway_start ::
  "gateway_libs \<Rightarrow> getenv \<Rightarrow> (string \<Rightarrow> int option) \<Rightarrow> nat list \<Rightarrow> error + GatewayServer" where
  "gateway_start lib env get order =
     (case gateway_main lib env of Inl msg \<Rightarrow> Inl (ErrorString msg) | Inr gw \<Rightarrow> Gateway_Start get order gw)"

section \<open>The API server\<close>

datatype 'd repository = MemoryRepository | MysqlRepository "'d sql"

definition buildRepository :: "(string \<Rightarrow> string + 'd sql) \<Rightarrow> getenv \<Rightarrow> string + 'd repository" where
  "buildRepository sql_Open env =
     (let backend = envOrDefault env ''STORE_BACKEND'' ''memory''
      in if backend = ''memory'' then Inr MemoryRepository
         else if backend = ''mysql'' then
           (let dsn = env ''MYSQL_DSN''
            in if dsn = '''' then Inl ''MYSQL_DSN is required when STORE_BACKEND=mysql''
               else (case Mysql_Open sql_Open dsn of
                       Inl err \<Rightarrow> Inl (''open mysql store: '' @ Error err)
                     | Inr db \<Rightarrow> Inr (MysqlRepository db)))
         else Inl (''unsupported STORE_BACKEND='' @ env ''STORE_BACKEND''))"

text \<open>The registry of the server; the load-test executor is an argument.\<close>

definition server_registry :: "host \<Rightarrow> getenv \<Rightarrow> (nat \<Rightarrow> bench_host) \<Rightarrow> Registry" where
  "server_registry h env hosts =
     (let namespace = envOrDefault env ''K8S_NAMESPACE'' ''default''
      in NewRegistry
          [ShellExecutor h, K8sJobExecutor h namespace,
           K8sApplyExecutor h \<lparr>Apply_Namespace = namespace, Apply_Kubeconfig = env ''KUBECONFIG'',
              Apply_AllowApply = (env ''ALLOW_K8S_APPLY'' = ''true'')\<rparr>,
           HTTPExecutor, BenchmarkExecutor hosts])"

section \<open>The scheduler and the worker\<close>

datatype outcome = Fatal string | Logged string

text \<open>
  The job file: \<^verbatim>\<open>os.ReadFile\<close> and \<^verbatim>\<open>json.Unmarshal\<close> are arguments. The two programs have the
  same function under two names.
\<close>

record job_files =
  read_file :: "string \<Rightarrow> string + string"
  unmarshal_input :: "string \<Rightarrow> string + CreateJobInput"

definition loadExample :: "job_files \<Rightarrow> string \<Rightarrow> string + CreateJobInput" where
  "loadExample files path =
     (case read_file files path of
        Inl err \<Rightarrow> Inl (''read '' @ path @ '': '' @ err)
      | Inr text \<Rightarrow>
          (case unmarshal_input files text of
             Inl err \<Rightarrow> Inl (''parse '' @ path @ '': '' @ err)
           | Inr inp \<Rightarrow> Inr inp))"

definition loadWorkerExample :: "job_files \<Rightarrow> string \<Rightarrow> string + CreateJobInput" where
  "loadWorkerExample files path = loadExample files path"

definition scheduler_main :: "environ \<Rightarrow> job_files \<Rightarrow> string list \<Rightarrow> outcome \<times> World" where
  "scheduler_main env files args =
     (let w = new_world env
      in if length args < 2 then (Fatal ''usage: scheduler <job-json-file>'', w)
         else (case loadExample files (args ! 1) of
                 Inl err \<Rightarrow> (Fatal err, w)
               | Inr job \<Rightarrow>
                   (case CreateJob w job of
                      (Inl err, w1) \<Rightarrow> (Fatal (''create job: '' @ Error err), w1)
                    | (Inr created, w1) \<Rightarrow>
                        (case ScheduleJob w1 (Job_ID created) of
                           (Inl err, w2) \<Rightarrow> (Fatal (''schedule job: '' @ Error err), w2)
                         | (Inr job2, w2) \<Rightarrow>
                             (Logged (''scheduled job '' @ Job_ID job2 @ '' with status '' @
                                JobStatus_string (Job_Status job2)), w2)))))"

definition worker_main :: "environ \<Rightarrow> host \<Rightarrow> job_files \<Rightarrow> string list \<Rightarrow> outcome \<times> World" where
  "worker_main env h files args =
     (let w = new_world env; registry = NewRegistry [ShellExecutor h, K8sJobExecutor h ''default'']
      in if length args < 2 then (Fatal ''usage: worker <job-json-file>'', w)
         else (case loadWorkerExample files (args ! 1) of
                 Inl err \<Rightarrow> (Fatal err, w)
               | Inr inp \<Rightarrow>
                   (case CreateJob w inp of
                      (Inl err, w1) \<Rightarrow> (Fatal (''create job: '' @ Error err), w1)
                    | (Inr job, w1) \<Rightarrow>
                        (case RunJob w1 registry (Job_ID job) of
                           ((_, Some err), w2) \<Rightarrow> (Fatal (''run job: '' @ Error err), w2)
                         | ((Some ex, None), w2) \<Rightarrow>
                             (Logged (''execution '' @ Exec_ID ex @ '' finished with status '' @
                                ExecutionStatus_string (Exec_Status ex)), w2)
                         | ((None, None), w2) \<Rightarrow> (Logged ''execution  finished with status '', w2)))))"

section \<open>The notifier\<close>

record notifierConfig =
  ntf_Addr :: string
  ntf_Mode :: string
  ntf_UpstreamAPI :: string
  ntf_DeliveryStub :: string
  ntf_TraceConsumer :: string

definition notifier_config :: "getenv \<Rightarrow> notifierConfig" where
  "notifier_config env =
     \<lparr>ntf_Addr = envOrDefault env ''NOTIFIER_ADDR'' '':8081'', ntf_Mode = envOrDefault env ''NOTIFIER_MODE'' ''noop'',
      ntf_UpstreamAPI = envOrDefault env ''API_SERVER_URL'' ''http://127.0.0.1:8080'',
      ntf_DeliveryStub = ''log-only'', ntf_TraceConsumer = ''GET /jobs/{id}/trace''\<rparr>"

datatype notifier_reply = NotifierJSON int json | NotifierRedirect string | NotifierNotFound

text \<open>The mux with its four exact paths; the keys of a map are printed in order.\<close>

definition notifier_serve :: "notifierConfig \<Rightarrow> string \<Rightarrow> notifier_reply" where
  "notifier_serve cfg path =
     (if cleanPath path \<noteq> path then NotifierRedirect (cleanPath path)
      else if path = ''/healthz'' then
        NotifierJSON 200 (JObject [(''mode'', JString (ntf_Mode cfg)), (''status'', JString ''ok'')])
      else if path = ''/readyz'' then
        NotifierJSON 200 (JObject [(''status'', JString ''ready''), (''upstream_api'', JString (ntf_UpstreamAPI cfg))])
      else if path = ''/config'' then
        NotifierJSON 200 (JObject
          [(''addr'', JString (ntf_Addr cfg)), (''mode'', JString (ntf_Mode cfg)),
           (''upstream_api'', JString (ntf_UpstreamAPI cfg)), (''delivery_stub'', JString (ntf_DeliveryStub cfg)),
           (''trace_consumer'', JString (ntf_TraceConsumer cfg))])
      else if path = ''/contract'' then
        NotifierJSON 200 (JObject
          [(''consumes'', JArray
              [JString ''job execution lifecycle events emitted through logs/traces'',
               JString (''API server trace timeline via '' @ ntf_TraceConsumer cfg)]),
           (''current_behavior'', JArray
              [JString ''does not send real email, webhook, or queue notification'',
               JString ''documents notifier boundary as a standalone HTTP process''])])
      else NotifierNotFound)"

section \<open>GPU jobs\<close>

text \<open>
  None of the commands registers a node: a platform that starts without nodes keeps none, and a
  job that asks for GPUs is never scheduled.
\<close>

definition no_gpus :: "MemoryStore \<Rightarrow> bool" where
  "no_gpus s \<longleftrightarrow> nodes s = [] \<and>
     (\<forall>jid job. find_job s jid = Some job \<longrightarrow> 0 < Spec_GPU (Job_ResourceSpec job) \<longrightarrow>
        Job_Status job = JobStatusPending \<or> Job_Status job = JobStatusCancelled)"

interpretation without_nodes: invariant_system lifecycle_step no_gpus
proof
  fix s t
  assume idle: "no_gpus s" and "lifecycle_step s t"
  from this(2) show "no_gpus t"
  proof cases
    case (start jid job ex u)
    with idle show ?thesis by (fastforce simp: no_gpus_def CanRun_def)
  qed (use idle in \<open>fastforce simp: no_gpus_def job_new_def CanCancel_def CanRetry_def MarkRetrying_def\<close>)+
qed

lemma no_gpus_new: "no_gpus NewMemoryStore"
  by (simp add: no_gpus_def NewMemoryStore_def find_job_def)

lemma no_gpus_can_place: "no_gpus s \<Longrightarrow> 0 < Spec_GPU (Job_ResourceSpec job) \<Longrightarrow> \<not> can_place s job"
  by (simp add: no_gpus_def can_place_def)


lemma fresh_gpu_job:
  assumes "env_ok env" and "is_i64 (Input_MaxRetries inp)" and "0 < Spec_GPU (Input_ResourceSpec inp)"
    and "CreateJob (new_world env) inp = (Inr job, w)"
  shows "service_ok w" and "\<And>jid other. find_job (repo w) jid = Some other \<Longrightarrow> \<not> runnable (repo w) other"
proof -
  have new: "service_ok (new_world env)" "sequence (new_world env) = 0" "repo (new_world env) = NewMemoryStore"
    using assms(1) by (simp_all add: service_ok_new, simp_all add: new_world_def)
  have step: "service_step 1 (new_world env) w"
    using CreateJob_step [OF new(1) _ assms(2)] assms(4) new(2) by simp
  then show "service_ok w" by (simp add: service_step_def)
  have idle: "no_gpus (repo w)"
    using step without_nodes.steps_inv no_gpus_new new(3) by (metis service_step_def)
  have valid: "CreateJobInput_Validate inp = None"
    using assms(4) CreateJob_invalid by (cases "CreateJobInput_Validate inp") auto
  have "Suc (sequence (new_world env)) < 2 ^ 64" by (simp add: new(2))
  then obtain job' w' where "CreateJob (new_world env) inp = (Inr job', w')" "submitted_as inp job'"
      "repo w' = put_job (repo (new_world env)) job'"
    using CreateJob_valid [OF new(1) _ valid] by metis
  with assms(4) new(3) have job: "submitted_as inp job" "repo w = put_job NewMemoryStore job" by auto
  fix jid other
  assume "find_job (repo w) jid = Some other"
  then have "other = job" by (simp add: job(2) find_job_def put_job_def NewMemoryStore_def split: if_splits)
  then show "\<not> runnable (repo w) other"
    using job(1) assms(3) no_gpus_can_place [OF idle] by (simp add: runnable_def CanRun_def submitted_as_def)
qed

definition start_weight :: "Backend \<Rightarrow> Backend" where
  "start_weight b = (if Backend_Weight b \<le> 0 then b\<lparr>Backend_Weight := 1\<rparr> else b)"

lemma check_backends_map: "check_backends i bs = Inr out \<Longrightarrow> out = map start_weight bs"
  by (induction i bs arbitrary: out rule: check_backends.induct) (auto simp: start_weight_def split: if_splits sum.splits)

lemma check_backends_ok:
  "check_backends i bs = Inr out \<Longrightarrow> b \<in> set out \<Longrightarrow> Backend_ID b \<noteq> '''' \<and> Backend_Endpoint b \<noteq> '''' \<and> 0 < Backend_Weight b"
  by (induction i bs arbitrary: out rule: check_backends.induct) (auto split: if_splits sum.splits)

lemma check_backends_reject:
  "(\<exists>err. check_backends i bs = Inl err) \<longleftrightarrow> (\<exists>b \<in> set bs. Backend_ID b = '''' \<or> Backend_Endpoint b = '''')"
  by (induction i bs rule: check_backends.induct) (auto split: sum.splits)

lemma and_then_Inr: "and_then r f = Inr y \<longleftrightarrow> (\<exists>x. r = Inr x \<and> f x = Inr y)"
  by (cases r) (simp_all add: and_then_def)

section \<open>Properties\<close>

text \<open>
  Property C11. No command can ever place a job that asks for GPUs, because none registers a
  node: whatever requests the API server serves from its start, such a job stays pending or is
  cancelled, and the scheduler and worker commands end with a fatal error for it, whatever the
  executors would do.
\<close>

theorem commands_never_place_gpu_jobs:
  assumes "env_ok env"
  shows "(\<forall>registry reqs jid job. list_all request_ok reqs \<longrightarrow> sum_list (map request_ids reqs) < 2 ^ 64 \<longrightarrow>
       find_job (repo (serve_all registry (new_world env) reqs)) jid = Some job \<longrightarrow>
       0 < Spec_GPU (Job_ResourceSpec job) \<longrightarrow>
       Job_Status job = JobStatusPending \<or> Job_Status job = JobStatusCancelled) \<and>
     (\<forall>files h path inp. loadExample files path = Inr inp \<longrightarrow> is_i64 (Input_MaxRetries inp) \<longrightarrow>
       0 < Spec_GPU (Input_ResourceSpec inp) \<longrightarrow>
       (\<exists>msg w. scheduler_main env files [''scheduler'', path] = (Fatal msg, w)) \<and>
       (\<exists>msg w. worker_main env h files [''worker'', path] = (Fatal msg, w)))"
proof (intro conjI allI impI)
  fix registry reqs jid job
  assume reqs: "list_all request_ok reqs" "sum_list (map request_ids reqs) < 2 ^ 64"
    and job: "find_job (repo (serve_all registry (new_world env) reqs)) jid = Some job"
      "0 < Spec_GPU (Job_ResourceSpec job)"
  have "sequence (new_world env) = 0" "repo (new_world env) = NewMemoryStore" by (simp_all add: new_world_def)
  then have "lifecycle_step\<^sup>*\<^sup>* NewMemoryStore (repo (serve_all registry (new_world env) reqs))"
    using serve_all_step [OF service_ok_new [OF assms] reqs(1), of registry] reqs(2) by (simp add: service_step_def)
  from without_nodes.steps_inv [OF this no_gpus_new] job
  show "Job_Status job = JobStatusPending \<or> Job_Status job = JobStatusCancelled" by (simp add: no_gpus_def)
next
  fix files h path inp
  assume load: "loadExample files path = Inr inp" and inp: "is_i64 (Input_MaxRetries inp)" "0 < Spec_GPU (Input_ResourceSpec inp)"
  show "\<exists>msg w. scheduler_main env files [''scheduler'', path] = (Fatal msg, w)"
  proof (cases "CreateJob (new_world env) inp")
    case (Pair r w1)
    show ?thesis
    proof (cases r)
      case (Inr created)
      note fresh = fresh_gpu_job [OF assms inp Pair [unfolded Inr]]
      obtain q w2 where "ScheduleJob w1 (Job_ID created) = (q, w2)" by fastforce
      with ScheduleJob_cases [OF service_ok_D(3,4) [OF fresh(1)] this] fresh(2) load Pair Inr
      show ?thesis by (auto simp: scheduler_main_def Let_def runnable_def split: sum.splits)
    qed (use load Pair in \<open>simp add: scheduler_main_def Let_def\<close>)
  qed
  show "\<exists>msg w. worker_main env h files [''worker'', path] = (Fatal msg, w)"
  proof (cases "CreateJob (new_world env) inp")
    case (Pair r w1)
    show ?thesis
    proof (cases r)
      case (Inr created)
      note fresh = fresh_gpu_job [OF assms inp Pair [unfolded Inr]]
      obtain err w2 where "RunJob w1 (NewRegistry [ShellExecutor h, K8sJobExecutor h ''default'']) (Job_ID created) = ((None, Some err), w2)"
        using RunJob_rejected [OF fresh(1)] fresh(2) by metis
      with load Pair Inr show ?thesis by (simp add: worker_main_def loadWorkerExample_def Let_def)
    qed (use load Pair in \<open>simp add: worker_main_def loadWorkerExample_def Let_def\<close>)
  qed
qed

text \<open>
  Property C38. A gateway that starts has well-formed backends: each has an identifier, an
  endpoint and a positive weight, and apart from the weights they are the decoded ones. A
  configuration with a backend without identifier or endpoint does not start.
\<close>

theorem gateway_configuration:
  "(\<forall>gw. gateway_main lib env = Inr gw \<longrightarrow>
      (\<forall>b \<in> set (gc_Backends (gw_config gw)). Backend_ID b \<noteq> '''' \<and> Backend_Endpoint b \<noteq> '''' \<and> 0 < Backend_Weight b) \<and>
      (if TrimSpace (env ''GATEWAY_BACKENDS_JSON'') = '''' then gc_Backends (gw_config gw) = []
       else \<exists>bs. lib_backends lib (TrimSpace (env ''GATEWAY_BACKENDS_JSON'')) = Inr bs \<and>
         gc_Backends (gw_config gw) = map start_weight bs)) \<and>
   (\<forall>bs. TrimSpace (env ''GATEWAY_BACKENDS_JSON'') \<noteq> '''' \<longrightarrow>
      lib_backends lib (TrimSpace (env ''GATEWAY_BACKENDS_JSON'')) = Inr bs \<longrightarrow>
      (\<exists>b \<in> set bs. Backend_ID b = '''' \<or> Backend_Endpoint b = '''') \<longrightarrow>
      (\<exists>err. gateway_main lib env = Inl err))"
proof (intro conjI allI impI)
  fix gw
  assume "gateway_main lib env = Inr gw"
  then have "mustLoadBackends lib env = Inr (gc_Backends (gw_config gw))"
    by (auto simp: gateway_main_def Let_def and_then_Inr Gateway_New_def)
  then have "(if TrimSpace (env ''GATEWAY_BACKENDS_JSON'') = '''' then gc_Backends (gw_config gw) = []
       else \<exists>bs. lib_backends lib (TrimSpace (env ''GATEWAY_BACKENDS_JSON'')) = Inr bs \<and>
         check_backends 0 bs = Inr (gc_Backends (gw_config gw)))"
    by (auto simp: mustLoadBackends_def parseBackendsJSON_def split: if_splits sum.splits)
  then show "\<forall>b \<in> set (gc_Backends (gw_config gw)). Backend_ID b \<noteq> '''' \<and> Backend_Endpoint b \<noteq> '''' \<and> 0 < Backend_Weight b"
    and "if TrimSpace (env ''GATEWAY_BACKENDS_JSON'') = '''' then gc_Backends (gw_config gw) = []
       else \<exists>bs. lib_backends lib (TrimSpace (env ''GATEWAY_BACKENDS_JSON'')) = Inr bs \<and>
         gc_Backends (gw_config gw) = map start_weight bs"
    by (auto dest: check_backends_ok check_backends_map split: if_splits)
next
  fix bs
  assume "TrimSpace (env ''GATEWAY_BACKENDS_JSON'') \<noteq> ''''"
    and "lib_backends lib (TrimSpace (env ''GATEWAY_BACKENDS_JSON'')) = Inr bs"
    and "\<exists>b \<in> set bs. Backend_ID b = '''' \<or> Backend_Endpoint b = ''''"
  then have "mustLoadBackends lib env \<noteq> Inr out" for out
    using check_backends_reject [of 0 bs] by (auto simp: mustLoadBackends_def parseBackendsJSON_def)
  then have "gateway_main lib env \<noteq> Inr gw" for gw
    by (auto simp: gateway_main_def Let_def and_then_Inr)
  then show "\<exists>err. gateway_main lib env = Inl err" by (cases "gateway_main lib env") auto
qed

text \<open>A job that asks for one GPU, and a gateway with one backend without a weight.\<close>

definition demo_files :: job_files where
  "demo_files = \<lparr>read_file = Inr, unmarshal_input = (\<lambda>_. Inr (demo_input 1))\<rparr>"

definition demo_host :: host where
  "demo_host = \<lparr>host_environ = [], host_order = (\<lambda>_ ks. ks), host_run = (\<lambda>_ _. ([], None))\<rparr>"

theorem commands_never_place_gpu_jobs_witness:
  "(\<exists>msg w. scheduler_main demo_env demo_files [''scheduler'', ''gpu.json''] = (Fatal msg, w)) \<and>
   (\<exists>msg w. worker_main demo_env demo_host demo_files [''worker'', ''gpu.json''] = (Fatal msg, w))"
proof -
  have "is_i64 (Input_MaxRetries (demo_input 1))" "0 < Spec_GPU (Input_ResourceSpec (demo_input 1))"
    by (simp_all add: demo_input_def is_i64_def)
  then show ?thesis
    using conjunct2 [OF commands_never_place_gpu_jobs [OF demo_env_ok], rule_format,
        of demo_files "''gpu.json''" "demo_input 1" demo_host]
    by (simp add: loadExample_def demo_files_def)
qed

definition demo_libs :: gateway_libs where
  "demo_libs = \<lparr>lib_ParseDuration = (\<lambda>_. Inr 1), lib_backends = (\<lambda>_. Inr [\<lparr>Backend_ID = ''a'', Backend_Name = '''',
     Backend_Endpoint = ''http://a'', Backend_Models = [], Backend_Weight = 0, Backend_Healthy = False\<rparr>]),
     lib_limits = (\<lambda>_. Inr Map.empty)\<rparr>"

definition demo_getenv :: getenv where
  "demo_getenv key = (if key = ''GATEWAY_BACKENDS_JSON'' then ''b'' else '''')"

lemma trim_front_id:
  assumes "list_all (\<lambda>sp. sp \<noteq> [] \<longrightarrow> take (length sp) s \<noteq> sp) sps"
  shows "trim_front sps s = s"
proof -
  have "List.find (\<lambda>sp. sp \<noteq> [] \<and> take (length sp) s = sp) sps = None"
    using assms by (auto simp: list_all_iff find_None_iff)
  then show ?thesis by (subst trim_front.simps) simp
qed

lemma TrimSpace_id:
  assumes "list_all (\<lambda>sp. sp \<noteq> [] \<longrightarrow> take (length sp) s \<noteq> sp) space_runes"
    and "list_all (\<lambda>sp. sp \<noteq> [] \<longrightarrow> take (length sp) (rev s) \<noteq> sp) (map rev space_runes)"
  shows "TrimSpace s = s"
  using assms by (simp add: TrimSpace_def trim_front_id)

lemma eq_char_of: "c = char_of (n :: nat) \<longleftrightarrow> of_char c = n mod 256"
  by (metis char_of_char char_of_mod_256 of_char_of)

lemma demo_trim: "TrimSpace '''' = ''''" "TrimSpace ''b'' = ''b''"
  by (rule TrimSpace_id; simp add: space_runes_def upt_conv_Cons eq_char_of)+

theorem gateway_configuration_witness:
  "\<exists>gw. gateway_main demo_libs demo_getenv = Inr gw \<and> map Backend_Weight (gc_Backends (gw_config gw)) = [1]"
proof -
  have "\<exists>gw. gateway_main demo_libs demo_getenv = Inr gw"
    by (simp add: gateway_main_def intEnvOrDefault_def durationEnvOrDefault_def demo_getenv_def demo_trim and_then_def
        mustLoadBackends_def mustLoadRateLimits_def parseBackendsJSON_def parseRateLimitsJSON_def demo_libs_def Let_def)
  then obtain gw where gw: "gateway_main demo_libs demo_getenv = Inr gw" by blast
  with gateway_configuration [of demo_libs demo_getenv]
  have "gc_Backends (gw_config gw) = map start_weight (projr (lib_backends demo_libs ''b''))"
    by (simp add: demo_getenv_def demo_trim) (force simp: demo_libs_def)
  with gw show ?thesis by (simp add: demo_libs_def start_weight_def)
qed

text \<open>No check keeps an interval that is not positive from the ticker of the health checker.\<close>

lemma gateway_start_panics:
  assumes "gateway_main lib env = Inr gw" and "TrimSpace (env ''GATEWAY_HEALTH_INTERVAL'') \<noteq> ''''"
    and "lib_ParseDuration lib (TrimSpace (env ''GATEWAY_HEALTH_INTERVAL'')) = Inr d" and "d \<le> 0"
  shows "gateway_start lib env get order = Inl (GoPanic ''non-positive interval for NewTicker'')"
proof -
  have "hc_interval (gw_health gw) = d"
    using assms(1-3)
    by (auto simp: gateway_main_def Let_def and_then_Inr Gateway_New_def NewHealthChecker_def durationEnvOrDefault_def)
  with assms(1,4) show ?thesis
    by (simp add: gateway_start_def Gateway_Start_def HealthChecker_Start_def probeAll_def Let_def)
qed

end
