(* ===== verification/Server.thy ===== *)
theory Server
  imports Commands
begin

text \<open>
  The API server as it is deployed (\<^verbatim>\<open>cmd/api-server\<close>): its handlers over the registry that
  \<^verbatim>\<open>main\<close> builds, with the benchmark executor among the executors. The choice of the store
  and the registry are in \<open>Commands\<close>; this theory puts them together and follows a run
  whose executor panics through the HTTP handler and every later operation.
\<close>

section \<open>The server\<close>

text \<open>
  \<open>api_server\<close> is \<^verbatim>\<open>main\<close> with a memory store, up to the handler it serves; a MySQL store
  is the subject of \<open>Mysql\<close> and is only named here.
\<close>

datatype 'd server = MemoryServer World Registry | MysqlServer "'d sql" Registry

definition api_server ::
  "(string \<Rightarrow> string + 'd sql) \<Rightarrow> getenv \<Rightarrow> environ \<Rightarrow> host \<Rightarrow> (nat \<Rightarrow> bench_host) \<Rightarrow> string + 'd server" where
  "api_server sql_Open env clock h hosts =
     (case buildRepository sql_Open env of
        Inl msg \<Rightarrow> Inl msg
      | Inr MemoryRepository \<Rightarrow> Inr (MemoryServer (new_world clock) (server_registry h env hosts))
      | Inr (MysqlRepository db) \<Rightarrow> Inr (MysqlServer db (server_registry h env hosts)))"

lemma server_registry_benchmark: "Registry_Get (server_registry h env hosts) ''benchmark'' = Inr (BenchmarkExecutor hosts)"
  by (simp add: server_registry_def Let_def Registry_Get_def NewRegistry_find BenchmarkExecutor_def)

section \<open>A benchmark that panics\<close>

lemma marks_benchmark: "marks job job1 \<Longrightarrow> parseBenchmarkConfig (job1\<lparr>Job_Status := st, Job_UpdatedAt := t\<rparr>) = parseBenchmarkConfig job"
  by (rule parseBenchmarkConfig_cong)
    (auto simp: marks_def mark_scheduled_def Let_def map_get_def)

definition oversized :: "Job \<Rightarrow> bool" where
  "oversized job \<longleftrightarrow> Job_Executor job = ''benchmark'' \<and>
     (case parseBenchmarkConfig job of
        Inl _ \<Rightarrow> False
      | Inr cfg \<Rightarrow> validateConfig cfg = None \<and> \<not> sample_cap_ok (Bench_TotalReqs cfg))"

lemma oversized_result:
  assumes "oversized job" and "job1 = job \<or> marks job job1"
  shows "executor_result (server_registry h env hosts) n (job1\<lparr>Job_Status := st, Job_UpdatedAt := t\<rparr>) =
    (empty_result, Some (GoPanic ''runtime error: makeslice: cap out of range''))"
proof -
  obtain cfg where cfg: "parseBenchmarkConfig job = Inr cfg" "validateConfig cfg = None" "\<not> sample_cap_ok (Bench_TotalReqs cfg)"
    using assms(1) by (auto simp: oversized_def split: sum.splits)
  let ?job = "job1\<lparr>Job_Status := st, Job_UpdatedAt := t\<rparr>"
  have "Job_Executor ?job = ''benchmark''" using assms marks_simps by (auto simp: oversized_def)
  moreover have "parseBenchmarkConfig ?job = Inr cfg"
    using assms(2) marks_benchmark cfg(1) parseBenchmarkConfig_cong [of ?job job] by auto
  ultimately show ?thesis
    using BenchmarkExecutor_panics [OF _ cfg(2,3)] by (simp add: executor_result_def server_registry_benchmark)
qed

text \<open>
  Property C12. A benchmark that asks for more samples than a slice can hold panics in the
  handler: the connection is dropped without a response, the job and its execution are left
  running, and no later operation of the platform, whatever the sequence, moves the job out
  of that status or ends the execution.
\<close>

theorem benchmark_panic_stuck:
  assumes "service_ok w" and "Suc (sequence w) < 2 ^ 64" and "find_job (repo w) jid = Some job"
    and "runnable (repo w) job" and "oversized job" and "Req_Method req = MethodPost"
  shows "\<exists>w1 eid ex. handleRunJob w (server_registry h env hosts) req jid = (Aborted, w1) \<and>
    (\<forall>registry cmds. list_all command_ok cmds \<longrightarrow> sequence w1 + sum_list (map new_ids cmds) < 2 ^ 64 \<longrightarrow>
       (\<exists>job'. find_job (repo (run_commands registry w1 cmds)) jid = Some job' \<and> Job_Status job' = JobStatusRunning) \<and>
       executions (repo (run_commands registry w1 cmds)) eid = Some ex \<and> Exec_Status ex = ExecutionStatusRunning)"
proof -
  obtain job1 ex t n out job' ex' w1 where
    run: "RunJob w (server_registry h env hosts) jid = (run_reply job1 ex ex' (snd out), w1)"
    and job1: "job1 = job \<or> marks job job1"
    and out: "out = executor_result (server_registry h env hosts) n (job1\<lparr>Job_Status := JobStatusRunning, Job_UpdatedAt := t\<rparr>)"
    and settled: "settles (job1\<lparr>Job_Status := JobStatusRunning, Job_UpdatedAt := t\<rparr>) ex out job' ex'"
    and new: "exec_new job1 ex" and stored: "executions (repo w1) (Exec_ID ex) = Some ex'" and step: "service_step 1 w w1"
    using RunJob_settles [OF assms(1-4), of "server_registry h env hosts"] by metis
  have panicked: "out = (empty_result, Some (GoPanic ''runtime error: makeslice: cap out of range''))"
    unfolding out using assms(5) job1 by (rule oversized_result)
  have "ex' = ex" using settled panicked by (simp add: settles_def)
  moreover have "Job_ID job1 = jid"
    using job1 marks_keys find_job_key [OF service_ok_D(3) [OF assms(1)] assms(3)] by auto
  ultimately have ex: "executions (repo w1) (Exec_ID ex) = Some ex" "Exec_JobID ex = jid" "Exec_Status ex = ExecutionStatusRunning"
    using stored new by (simp_all add: exec_new_def)
  have ok: "service_ok w1" using step by (simp add: service_step_def)
  have "handleRunJob w (server_registry h env hosts) req jid = (Aborted, w1)"
    using run panicked assms(6) by (simp add: handleRunJob_def run_reply_def)
  moreover have "(\<exists>job'. find_job (repo (run_commands registry w1 cmds)) jid = Some job' \<and> Job_Status job' = JobStatusRunning) \<and>
      executions (repo (run_commands registry w1 cmds)) (Exec_ID ex) = Some ex"
    if "list_all command_ok cmds" "sequence w1 + sum_list (map new_ids cmds) < 2 ^ 64" for registry cmds
    using running_stuck [OF ok that ex(1,3), of registry] ex(2) by (simp add: is_running_def)
  ultimately show ?thesis using ex(3) by blast
qed

definition huge_input :: CreateJobInput where
  "huge_input = (demo_input 0)\<lparr>Input_Executor := ''benchmark'',
     Input_Metadata := Some [(''bench_target'', ''http://llm''), (''bench_total_reqs'', ''9000000000000'')]\<rparr>"

lemma huge_total: "intOrDefault ''9000000000000'' 20 = 9000000000000"
  by (simp add: intOrDefault_def Sscanf_d_def scan_d_def scan_sign_def is_space_def is_digit_def digits_val_def digit_val_def is_i64_def)

lemma huge_oversized:
  assumes "submitted_as huge_input job"
  shows "oversized job"
proof -
  have "Job_Metadata job = Some [(''bench_target'', ''http://llm''), (''bench_total_reqs'', ''9000000000000'')]"
    using assms cloneMap_entries [of "Input_Metadata huge_input"] by (simp add: submitted_as_def huge_input_def)
  moreover have "Job_Executor job = ''benchmark''" using assms by (simp add: submitted_as_def huge_input_def)
  moreover have "Split CHR '';'' ''Hello, tell me a joke'' \<noteq> []" by code_simp
  ultimately show ?thesis
    by (simp add: oversized_def parseBenchmarkConfig_def map_get_def stringOrDefault_def huge_total sample_cap_ok_def
        intOrDefault_def [of "[]"] validateConfig_def Let_def)
qed

definition run_post :: Request where
  "run_post = \<lparr>Req_Method = MethodPost, Req_Path = '''', Req_Query = [], Req_Body = Inl ErrInvalidJob\<rparr>"

definition idle_bench :: "nat \<Rightarrow> bench_host" where
  "idle_bench n = \<lparr>bh_server = (\<lambda>i url req. Answer 0 200 '''' (Inl '''') '''' (Fin 0)), bh_schedule = [], bh_runtime = 0,
     bh_render = (\<lambda>s. '''')\<rparr>"

definition demo_server_registry :: Registry where
  "demo_server_registry = server_registry demo_host (\<lambda>key. '''') idle_bench"

definition rescue :: "string \<Rightarrow> command list" where
  "rescue jid = [Cancel jid, Retry jid, Schedule jid, command.Run jid, Dispatch 3]"

theorem benchmark_panic_stuck_witness:
  "\<exists>job w w1 job'. CreateJob demo huge_input = (Inr job, w) \<and>
     handleRunJob w demo_server_registry run_post (Job_ID job) = (Aborted, w1) \<and>
     find_job (repo (run_commands demo_server_registry w1 (rescue (Job_ID job)))) (Job_ID job) = Some job' \<and>
     Job_Status job' = JobStatusRunning"
proof -
  have v: "CreateJobInput_Validate huge_input = None"
    by (simp add: CreateJobInput_Validate_None huge_input_def demo_input_def JobTypeTraining_def)
  have s: "Suc (sequence demo) < 2 ^ 64" by simp
  from CreateJob_valid [OF demo_ok s v] obtain job w where
    c: "CreateJob demo huge_input = (Inr job, w)" "submitted_as huge_input job" "repo w = put_job (repo demo) job"
      "sequence w = Suc (sequence demo)" by metis
  have "is_i64 (Input_MaxRetries huge_input)" by (simp add: huge_input_def demo_input_def is_i64_def)
  then have ok: "service_ok w" using CreateJob_step [OF demo_ok s, of huge_input] c(1) by (simp add: service_step_def)
  have find: "find_job (repo w) (Job_ID job) = Some job" by (simp add: c(3))
  have run: "runnable (repo w) job"
    using c(2) by (simp add: runnable_def can_place_def CanSchedule_def submitted_as_def huge_input_def demo_input_def)
  have sq: "Suc (sequence w) < 2 ^ 64" by (simp add: c(4))
  have post: "Req_Method run_post = MethodPost" by (simp add: run_post_def)
  obtain w1 where w1: "handleRunJob w demo_server_registry run_post (Job_ID job) = (Aborted, w1)"
    and later: "\<And>cmds. list_all command_ok cmds \<Longrightarrow> sequence w1 + sum_list (map new_ids cmds) < 2 ^ 64 \<Longrightarrow>
      \<exists>job'. find_job (repo (run_commands demo_server_registry w1 cmds)) (Job_ID job) = Some job' \<and> Job_Status job' = JobStatusRunning"
    using benchmark_panic_stuck [OF ok sq find run huge_oversized [OF c(2)] post, of demo_host "\<lambda>key. ''''" idle_bench]
    unfolding demo_server_registry_def by blast
  have "w1 = snd (RunJob w demo_server_registry (Job_ID job))"
    using w1 by (auto simp: handleRunJob_def run_post_def split: prod.splits option.splits if_splits)
  then have "sequence w1 \<le> Suc (sequence w)"
    using RunJob_step [OF ok sq, of demo_server_registry "Job_ID job"] by (simp add: service_step_def)
  then have "sequence w1 + sum_list (map new_ids (rescue (Job_ID job))) < 2 ^ 64" by (simp add: c(4) rescue_def)
  with later [of "rescue (Job_ID job)"] c(1) w1 show ?thesis by (auto simp: rescue_def)
qed

end
