(* ===== verification/Process.thy ===== *)
theory Process
  imports Server
begin

text \<open>
  The processes around the handlers: \<^verbatim>\<open>main\<close> of \<^verbatim>\<open>cmd/api-server\<close> and of \<^verbatim>\<open>cmd/gateway\<close> from the
  moment the handler exists. Two goroutines share the HTTP server and the channel \<^verbatim>\<open>done\<close>: one
  listens and serves, the other waits for a signal and shuts the server down. A run is a
  sequence of events, each of which must be possible where it happens.

  What \<^verbatim>\<open>net/http\<close> promises: from the call of \<^verbatim>\<open>Shutdown\<close> on, \<^verbatim>\<open>ListenAndServe\<close> returns
  \<^verbatim>\<open>ErrServerClosed\<close>, also when it is called later; \<^verbatim>\<open>Shutdown\<close> returns without an error when
  every connection is closed, so that no request is in flight and none can arrive any more, or
  with an error when its context expires. Until then requests may still arrive.
\<close>

section \<open>The HTTP server\<close>

record http_server =
  hs_Addr :: string
  hs_ReadHeaderTimeout :: int

definition shutdownTimeout :: int where
  "shutdownTimeout = 10 * 1000000000"

definition api_http_server :: "getenv \<Rightarrow> http_server" where
  "api_http_server env = \<lparr>hs_Addr = envOrDefault env ''API_ADDR'' '':8080'', hs_ReadHeaderTimeout = 10 * 1000000000\<rparr>"

definition gateway_http_server :: "Gateway \<Rightarrow> http_server" where
  "gateway_http_server gw = \<lparr>hs_Addr = gc_ListenAddr (gw_config gw), hs_ReadHeaderTimeout = 10 * 1000000000\<rparr>"

section \<open>A server process\<close>

text \<open>
  Where the main goroutine is: before \<^verbatim>\<open>ListenAndServe\<close>, inside it, or at \<^verbatim>\<open><-done\<close>. Where the
  goroutine of the signals is: before \<^verbatim>\<open>signal.Notify\<close>, at \<^verbatim>\<open><-sigCh\<close>, between the receipt of
  the signal and the call of \<^verbatim>\<open>Shutdown\<close>, inside \<^verbatim>\<open>Shutdown\<close>, behind it, or past \<^verbatim>\<open>close(done)\<close>.
  \<open>pc_queued\<close> says that the channel of the signals, which has room for one, holds a signal,
  \<open>pc_listened\<close> that the server has listened.
\<close>

datatype main_at = BeforeListen | Serving | AtDone
datatype signal_at = BeforeNotify | AtSignal | Received | InShutdown | ShutdownOver | DoneClosed
datatype process_end = Completed | FatalExit | KilledBySignal

record process =
  pc_main :: main_at
  pc_signal :: signal_at
  pc_queued :: bool
  pc_listened :: bool
  pc_accepted :: "nat list"
  pc_answered :: "nat list"
  pc_flight :: "nat list"
  pc_expired :: bool
  pc_end :: "process_end option"

definition process_start :: process where
  "process_start = \<lparr>pc_main = BeforeListen, pc_signal = BeforeNotify, pc_queued = False, pc_listened = False,
     pc_accepted = [], pc_answered = [], pc_flight = [], pc_expired = False, pc_end = None\<rparr>"

text \<open>\<^verbatim>\<open>Shutdown\<close> has been called; it has returned; it has returned without an error.\<close>

definition shutting :: "process \<Rightarrow> bool" where
  "shutting p \<longleftrightarrow> pc_signal p \<in> {InShutdown, ShutdownOver, DoneClosed}"

definition shut :: "process \<Rightarrow> bool" where
  "shut p \<longleftrightarrow> pc_signal p \<in> {ShutdownOver, DoneClosed}"

definition all_closed :: "process \<Rightarrow> bool" where
  "all_closed p \<longleftrightarrow> shut p \<and> \<not> pc_expired p"

datatype process_event =
    Notify
  | Signal
  | Receive
  | CallShutdown
  | Listen
  | ListenFails
  | Accept nat
  | AcceptFails
  | ListenReturns
  | Answered nat
  | ShutdownReturns
  | ShutdownExpires
  | CloseDone
  | MainReturns

text \<open>
  A signal before \<^verbatim>\<open>Notify\<close> has its default effect; later ones go to the channel, and are dropped
  when it is full. Listening can fail, and so can accepting; \<^verbatim>\<open>log.Fatalf\<close> ends the process then
  without the deferred calls. \<open>Accept\<close> is the arrival of a request, on a new connection or on one
  that is open.
\<close>

fun process_do :: "process_event \<Rightarrow> process \<Rightarrow> process option" where
  "process_do Notify p =
     (if pc_end p = None \<and> pc_signal p = BeforeNotify then Some (p\<lparr>pc_signal := AtSignal\<rparr>) else None)"
| "process_do Signal p =
     (if pc_end p = None
      then Some (if pc_signal p = BeforeNotify then p\<lparr>pc_end := Some KilledBySignal\<rparr> else p\<lparr>pc_queued := True\<rparr>)
      else None)"
| "process_do Receive p =
     (if pc_end p = None \<and> pc_signal p = AtSignal \<and> pc_queued p then Some (p\<lparr>pc_signal := Received, pc_queued := False\<rparr>) else None)"
| "process_do CallShutdown p =
     (if pc_end p = None \<and> pc_signal p = Received then Some (p\<lparr>pc_signal := InShutdown\<rparr>) else None)"
| "process_do Listen p =
     (if pc_end p = None \<and> pc_main p = BeforeListen \<and> \<not> shutting p
      then Some (p\<lparr>pc_main := Serving, pc_listened := True\<rparr>) else None)"
| "process_do ListenFails p =
     (if pc_end p = None \<and> pc_main p = BeforeListen then Some (p\<lparr>pc_end := Some FatalExit\<rparr>) else None)"
| "process_do (Accept r) p =
     (if pc_end p = None \<and> pc_listened p \<and> \<not> all_closed p
      then Some (p\<lparr>pc_accepted := pc_accepted p @ [r], pc_flight := pc_flight p @ [r]\<rparr>) else None)"
| "process_do AcceptFails p =
     (if pc_end p = None \<and> pc_main p = Serving \<and> \<not> shutting p then Some (p\<lparr>pc_end := Some FatalExit\<rparr>) else None)"
| "process_do ListenReturns p =
     (if pc_end p = None \<and> pc_main p \<noteq> AtDone \<and> shutting p then Some (p\<lparr>pc_main := AtDone\<rparr>) else None)"
| "process_do (Answered r) p =
     (if pc_end p = None \<and> r \<in> set (pc_flight p)
      then Some (p\<lparr>pc_flight := remove1 r (pc_flight p), pc_answered := pc_answered p @ [r]\<rparr>) else None)"
| "process_do ShutdownReturns p =
     (if pc_end p = None \<and> pc_signal p = InShutdown \<and> pc_flight p = [] then Some (p\<lparr>pc_signal := ShutdownOver\<rparr>) else None)"
| "process_do ShutdownExpires p =
     (if pc_end p = None \<and> pc_signal p = InShutdown then Some (p\<lparr>pc_signal := ShutdownOver, pc_expired := True\<rparr>) else None)"
| "process_do CloseDone p =
     (if pc_end p = None \<and> pc_signal p = ShutdownOver then Some (p\<lparr>pc_signal := DoneClosed\<rparr>) else None)"
| "process_do MainReturns p =
     (if pc_end p = None \<and> pc_main p = AtDone \<and> pc_signal p = DoneClosed then Some (p\<lparr>pc_end := Some Completed\<rparr>) else None)"

fun process_run :: "process_event list \<Rightarrow> process \<Rightarrow> process option" where
  "process_run [] p = Some p"
| "process_run (e # es) p = (case process_do e p of None \<Rightarrow> None | Some p1 \<Rightarrow> process_run es p1)"

lemma process_run_append:
  "process_run (es @ es') p = (case process_run es p of None \<Rightarrow> None | Some p1 \<Rightarrow> process_run es' p1)"
  by (induction es arbitrary: p) (auto split: option.splits)

section \<open>Graceful shutdown\<close>





lemma process_ended: "pc_end p \<noteq> None \<Longrightarrow> process_do e p = None"
  by (cases e) auto












section \<open>The process of the gateway\<close>

text \<open>
  The gateway serves and probes while its process is up; \<^verbatim>\<open>gw.Stop\<close> is deferred in \<^verbatim>\<open>main\<close> and runs
  when \<^verbatim>\<open>main\<close> returns. A handler works only for a request in flight, which is answered when its
  handler has returned.
\<close>

datatype gateway_process_event = OfProcess process_event | OfGateway gateway_event

definition handler_runs :: "process_event \<Rightarrow> GatewayServer \<Rightarrow> bool" where
  "handler_runs e s \<longleftrightarrow> (case e of Answered n \<Rightarrow> gs_flight s n \<noteq> None | _ \<Rightarrow> False)"

definition may_happen :: "gateway_event \<Rightarrow> process \<Rightarrow> bool" where
  "may_happen e p \<longleftrightarrow>
     pc_end p = None \<and>
     (case e of
        Begin n _ _ _ \<Rightarrow> n \<in> set (pc_flight p)
      | Choose n \<Rightarrow> n \<in> set (pc_flight p)
      | Send n _ \<Rightarrow> n \<in> set (pc_flight p)
      | Stop \<Rightarrow> False
      | _ \<Rightarrow> True)"

fun gateway_process_do :: "gateway_process_event \<Rightarrow> process \<times> GatewayServer \<Rightarrow> (process \<times> GatewayServer) option" where
  "gateway_process_do (OfProcess e) (p, s) =
     (if handler_runs e s then None
      else
        (case process_do e p of
           None \<Rightarrow> None
         | Some p' \<Rightarrow> Some (p', if pc_end p' = Some Completed then Gateway_Stop s else s)))"
| "gateway_process_do (OfGateway e) (p, s) =
     (if may_happen e p then (case gateway_do e s of None \<Rightarrow> None | Some (_, s') \<Rightarrow> Some (p, s')) else None)"

fun gateway_process_run ::
  "gateway_process_event list \<Rightarrow> process \<times> GatewayServer \<Rightarrow> (process \<times> GatewayServer) option" where
  "gateway_process_run [] c = Some c"
| "gateway_process_run (e # es) c =
     (case gateway_process_do e c of None \<Rightarrow> None | Some c1 \<Rightarrow> gateway_process_run es c1)"

text \<open>
  The health checker is stopped exactly when the process completes: as long as requests
  are served its loop goes on. What happens to the process in such a run is a run of the
  process alone.
\<close>

lemma gateway_do_cancelled:
  "gateway_do e s = Some (out, s') \<Longrightarrow> e \<noteq> Stop \<Longrightarrow> gs_cancelled s' = gs_cancelled s"
  using request_frame(4) [of e s out s']
  by (cases e) (auto simp: quiet_def loop_tick_def loop_probed_def loop_done_def Let_def split: if_splits)

lemma gateway_process_cancelled:
  assumes "gateway_process_run es (process_start, s) = Some (p, s')" and "\<not> gs_cancelled s"
  shows "gs_cancelled s' \<longleftrightarrow> pc_end p = Some Completed"
proof -
  have step: "gs_cancelled (snd c') \<longleftrightarrow> pc_end (fst c') = Some Completed"
    if "gateway_process_do e c = Some c'" and "gs_cancelled (snd c) \<longleftrightarrow> pc_end (fst c) = Some Completed" for e c c'
  proof (cases e)
    case (OfProcess pe)
    obtain p0 s0 where c: "c = (p0, s0)" by fastforce
    have "process_do pe p0 \<noteq> None" using that(1) by (auto simp: OfProcess c split: option.splits if_splits)
    then have "pc_end p0 = None" using process_ended [of p0 pe] by (cases "pc_end p0") simp_all
    with that show ?thesis by (auto simp: OfProcess c Gateway_Stop_def HealthChecker_Stop_def split: option.splits if_splits)
  next
    case (OfGateway ge)
    with that show ?thesis by (cases c) (auto simp: may_happen_def dest: gateway_do_cancelled split: if_splits option.splits)
  qed
  have "gateway_process_run es c = Some c' \<Longrightarrow> (gs_cancelled (snd c) \<longleftrightarrow> pc_end (fst c) = Some Completed) \<Longrightarrow>
      (gs_cancelled (snd c') \<longleftrightarrow> pc_end (fst c') = Some Completed)" for c c'
    by (induction es arbitrary: c) (auto dest: step split: option.splits)
  from this [OF assms(1)] assms(2) show ?thesis by (simp add: process_start_def)
qed

fun process_part :: "gateway_process_event list \<Rightarrow> process_event list" where
  "process_part [] = []"
| "process_part (OfProcess e # es) = e # process_part es"
| "process_part (OfGateway e # es) = process_part es"

lemma gateway_process_projects:
  "gateway_process_run es (p, s) = Some (p', s') \<Longrightarrow> process_run (process_part es) p = Some p'"
proof (induction es arbitrary: p s)
  case (Cons e es)
  then show ?case by (cases e) (auto split: option.splits if_splits)
qed simp

end
