(* ===== verification/Spec2Isabelle.thy ===== *)
theory Spec2Isabelle
  imports Concurrency Gateway_Server Wal_Sync Otel_Metrics Pipeline Memory_Guard Benchmark Mysql_Tables Process
begin

text \<open>
  Verification of the AI infrastructure platform, a set of Go programs around three
  subsystems that share no state:

  \<^item> the job platform (\<^verbatim>\<open>internal/model\<close>, \<^verbatim>\<open>store\<close>, \<^verbatim>\<open>telemetry\<close>, \<^verbatim>\<open>scheduler\<close>, \<^verbatim>\<open>worker\<close>,
    \<^verbatim>\<open>service\<close>, \<^verbatim>\<open>api\<close>): jobs are submitted over HTTP, placed on nodes with free GPUs by the
    dispatcher, run by an executor, and recorded with their executions, counters and traces;
  \<^item> the inference gateway (\<^verbatim>\<open>internal/gateway\<close>): a reverse proxy with health checks, token
    buckets per model, weighted choice of backends and failover;
  \<^item> the telemetry gateway (\<^verbatim>\<open>internal/otelgateway\<close>): processors, sharded queues with worker
    goroutines, exporters with retries and fan-out, and a write-ahead log;

  and the benchmark (\<^verbatim>\<open>internal/benchmark\<close>), used by \<^verbatim>\<open>cmd/benchctl\<close> and as an executor of the
  job platform. The programs under \<^verbatim>\<open>cmd\<close> put these parts together.

  \<^bold>\<open>How the code is modelled.\<close> A struct is a record, an enum a datatype, a method a function on
  the state it reads and writes, with the source's name (prefixed by its type or package where
  two would clash). Errors are values of \<open>error\<close>, a panic is the error \<open>GoPanic\<close> and unwinds
  through its callers. \<^verbatim>\<open>int\<close> is an integer with the wrap-around \<open>i64\<close> written where the code
  computes, checksums and hashes are machine words, \<^verbatim>\<open>float64\<close> is the rational it denotes with
  an explicit rounding to 53 bits after each operation, and a value of \<open>go_float\<close>, which has the
  infinities and NaN, where the code can reach them. A Go map is a partial function; where
  the code ranges over it, it is an association list and the order of the range is an argument.
  Goroutines are interleavings: a schedule or a sequence of events says who goes on next, and
  the properties hold for every one. What the sources do not contain (clocks, random numbers,
  child processes, HTTP and gRPC peers, the database, the file system, JSON and YAML decoding)
  is an argument of the definitions.

  \<^bold>\<open>The theories of the language and its library.\<close> \<open>Prelude\<close> (integers, instants, errors, maps,
  the collections of lemmas), \<open>Go_Text\<close> (\<^verbatim>\<open>fmt\<close>, \<^verbatim>\<open>strconv\<close>, \<^verbatim>\<open>strings\<close>), \<open>Go_Sort\<close> (\<^verbatim>\<open>sort\<close> and
  \<^verbatim>\<open>container/heap\<close>, with the locales \<open>strict_weak_order\<close> and \<open>priority_queue\<close>, interpreted for
  every comparison of the program), \<open>Float64\<close>, \<open>Json\<close> (printing), \<open>Go_Hash\<close> (\<^verbatim>\<open>hash/crc32\<close>,
  \<^verbatim>\<open>hash/fnv\<close>, \<^verbatim>\<open>encoding/binary\<close>).

  \<^bold>\<open>The job platform.\<close>
  \<^item> \<open>Model\<close>: jobs, executions, nodes, backends, validation and the status guards.
  \<^item> \<open>Store\<close>: the memory store, one function per operation; the locale \<open>keyed_store\<close> states what
    a client relies on and is interpreted for jobs and nodes.
  \<^item> \<open>Telemetry\<close>: counters and their Prometheus text, trace timelines. \<open>World\<close>: the state the
    services share (store, counters, traces, identifiers) and the clock and random source.
  \<^item> \<open>Matcher\<close>: the priority queue and the matching of jobs with nodes.
  \<^item> \<open>Lifecycle\<close>: the abstract specification. \<open>lifecycle_step\<close> has one rule per step of a job's
    life; the locales \<open>invariant_system\<close> and \<open>evolution_system\<close> carry invariants and evolution
    along its runs and are interpreted on it.
  \<^item> \<open>Dispatcher\<close>, \<open>Worker\<close> (registry, shell, HTTP and Kubernetes executors, with the contract
    \<open>executor_contract\<close>), \<open>Services\<close>, \<open>Api\<close> (the mux and every handler).
  \<^item> \<open>Platform\<close>: what holds of the whole. Any sequence of requests is a run of \<open>lifecycle_step\<close>
    and keeps the invariant of the store: keys and indexes agree, free GPUs stay between
    zero and the total, retry counts stay within their budget, a running job has exactly one
    running execution and any other job none. What a run of a job leaves on each branch; which
    jobs a dispatch places, in which order and against which free GPUs, and that a job it leaves
    fits no node; that reading changes nothing; what the lists return; that GPUs are
    never given back.
  \<^item> \<open>Interleaving\<close>, \<open>Concurrency\<close>: requests served at the same time. \<open>Interleaving\<close> has programs
    made of atomic steps, their interleavings, and the rely-guarantee contract \<open>shared_state\<close>;
    \<open>Concurrency\<close> gives every service operation as such a program over single store operations,
    equal to the operation when nothing interferes, and interprets the contract. Under every
    interleaving keys, indexes, GPU bounds, retry budgets and requests are kept; that a job runs
    once, and that a cancelled job stays cancelled, are not kept, and two races show it. A call
    of an executor is one step that returns: a child process that hangs is the schedule that
    never takes that step.
  \<^item> \<open>Mysql\<close>, \<open>Mysql_Tables\<close>: the MySQL store (and the stubs of the Redis store) over a database
    that answers statements; the locales \<open>json_columns\<close> and \<open>mysql_server\<close> say what the code
    relies on: that a collation, which the migrations leave to the server, tells apart the
    identifiers in use, and that the connection string sets \<^verbatim>\<open>parseTime\<close>, without which every
    read of a job fails. Tables with the columns of the migrations satisfy them, and the store
    simulates the memory store there, up to the order of jobs of equal priority and second.

  \<^bold>\<open>The benchmark and the programs.\<close> \<open>Benchmark\<close>: goroutines behind a semaphore, the summary in
  binary64 arithmetic, reports, \<^verbatim>\<open>benchctl\<close>, and the executor of the platform; every schedule
  gives the same summary apart from the runtime and the request rate, never exceeds the
  concurrency, and under a fair scheduler the run returns. \<open>Commands\<close>: the environment variables and the start of the programs; \<open>Server\<close>: the
  API server over its own registry, in which a benchmark that panics leaves its job running
  for ever; \<open>Process\<close>: the processes of both servers from the first connection to the exit, two
  goroutines around the HTTP server, with the graceful shutdown, in which the arrival of the
  signal, its receipt, the call of \<^verbatim>\<open>Shutdown\<close> and the close of the channel are events of their
  own and requests are accepted until the listener is closed. No program registers a node, so
  no GPU job ever leaves the status pending unless it is cancelled.

  \<^bold>\<open>The inference gateway.\<close> \<open>Rate_Limit\<close>: both token buckets of the repository with their bounds,
  as interpretations of \<open>token_bucket\<close>. \<open>Gateway\<close>: configuration, probing, shuffle,
  failover, streaming. \<open>Gateway_Server\<close>: the running gateway, in which a request is a sequence of
  steps (its admission, the snapshot of the healthy backends, each send) interleaved with other
  requests, the single probes of each round, \<^verbatim>\<open>Start\<close> and \<^verbatim>\<open>Stop\<close>; a request is sent only to
  backends whose last probe before its snapshot was answered with 200, and a failover send may
  come after a newer probe that failed.

  \<^bold>\<open>The telemetry gateway.\<close> \<open>Otel_Model\<close> (configuration and data), \<open>Otel_Metrics\<close> (the metric
  declarations), \<open>Processors\<close> (sampler, degradation, memory limiter), \<open>Memory_Guard\<close> (the goroutine of the
  memory limiter with whatever callback it was given), \<open>Exporters\<close> (OTLP, retry with
  the contract \<open>delivering\<close>, fan-out), \<open>Pipeline\<close> (channels and workers as an interleaving step
  relation; the locale \<open>lane_system\<close> is interpreted for traces and for metrics), \<open>Wal\<close> (records,
  rotation, restart, replay, with the contract \<open>append_log\<close>) and \<open>Wal_Sync\<close> (the sync loop
  and power failures, as a refinement of segments with durable prefixes). Shown: no payload is lost
  or duplicated between submission and export, queues stay within their capacity, a shutdown
  drains them, order is kept per shard with one worker; every appended record is replayed, cut
  or altered segments deliver a prefix, and what the failure of a write or of the power costs.

  \<^bold>\<open>Bounds.\<close> No definition uses fuel: loops are structural or have a measure, and a run of
  goroutines that has not ended is \<open>None\<close>. The hypotheses that bound numbers are those of the
  machine: fewer than \<open>2^64\<close> identifiers (the counter wraps), fewer than \<open>10^10\<close> segments (their
  names have ten digits), records below \<open>2^32\<close> bytes (their length field), segment limits below
  \<open>2^62\<close>, slices below the \<open>2^48\<close> bytes the allocator accepts, and integers below \<open>2^53\<close> where a
  \<^verbatim>\<open>float64\<close> must hold them exactly.

  \<^bold>\<open>Not modelled.\<close> Sockets and the inside of \<^verbatim>\<open>net/http\<close>, of which what its documentation promises is
  used; contexts and timeouts other than by their effect (a call fails); log output; latency histograms and
  the Prometheus client; the type \<^verbatim>\<open>BenchmarkResult\<close> and the placeholder types of \<^verbatim>\<open>internal/api\<close>,
  which no code uses. Below the store operations of two requests nothing interleaves: the memory
  store locks each operation, and the maps that requests share with it are a data race without
  a meaning in Go.

  \<^bold>\<open>Open.\<close> The services over the MySQL store as a whole, and with it the concurrency of several
  servers on one database.
\<close>

end
